(* ===== verification/Prelude.thy ===== *)
theory Prelude
  imports Main "HOL-Library.Word" "HOL-Library.AList"
begin

text \<open>
  Shared vocabulary of the development: Go's \<open>uint32\<close>, slices that may be \<open>nil\<close>, run-time
  panics, the \<open>(value, error)\<close> pairs of Go's library calls, computations that may not
  return, and the first-match search loop the sources repeat for every table.
  The lemma collections the component theories add to are declared here.
\<close>

named_theorems res_simps "equations of the panic and divergence monads"
named_theorems ledger_simps "effect of the block operations on the abstract ledger"
named_theorems node_simps "fields a node operation leaves unchanged"

section \<open>Machine integers\<close>

type_synonym u32 = "32 word"

lemma unat_u32_less [simp]: "unat (x :: u32) < 4294967296"
  using unsigned_less [of x] by simp

lemma unat_u32_zero: "unat (x :: u32) = 0 \<longleftrightarrow> x = 0"
  by (simp add: word_unat_eq_iff)

lemma unat_u32_plus:
  "unat (a :: u32) + unat b < 4294967296 \<Longrightarrow> unat (a + b) = unat a + unat b"
  by (simp add: unat_word_ariths)

lemma unat_u32_minus:
  "(b :: u32) \<le> a \<Longrightarrow> unat (a - b) = unat a - unat b"
  by (simp add: unat_sub_if' word_le_nat_alt)

lemma unat_u32_minus_twice:
  assumes "(t :: u32) \<le> g"
  shows "unat (g - 2 * t) =
    (if 2 * unat t \<le> unat g then unat g - 2 * unat t else 2 ^ 32 + unat g - 2 * unat t)"
proof -
  have "g - 2 * t = (g - t) - t" by simp
  moreover have "unat (g - t - t) = (if unat t \<le> unat (g - t) then unat (g - t) - unat t else unat (g - t) + 2 ^ 32 - unat t)"
    using unat_sub_if' [of "g - t" t] by simp
  moreover have "unat t \<le> unat g" using assms by (simp add: word_le_nat_alt)
  ultimately show ?thesis using assms unat_u32_minus [OF assms] by (simp del: unat_u32_less) linarith
qed

lemma u32_less_next: "(x :: u32) + 1 \<noteq> 0 \<Longrightarrow> x < x + 1"
  by (simp add: word_less_nat_alt unatSuc add.commute)

lemma u32_next:
  assumes "(x :: u32) < n"
  shows "unat (x + 1) = Suc (unat x)" "i < x + 1 \<longleftrightarrow> i \<le> x" "x + 1 \<le> n" "x < x + 1"
proof -
  have "unat x + 1 < 4294967296"
    using assms unat_u32_less [of n] by (simp add: word_less_nat_alt del: unat_u32_less)
  then show u: "unat (x + 1) = Suc (unat x)" by (simp add: unat_u32_plus)
  show "i < x + 1 \<longleftrightarrow> i \<le> x" "x + 1 \<le> n" "x < x + 1"
    using assms by (auto simp: word_less_nat_alt word_le_nat_alt u)
qed

lemma unat_u32_max: "unat (- 1 :: u32) = 4294967295"
  by (simp add: unsigned_minus_1_eq_mask mask_eq_exp_minus_1)

section \<open>Panics, errors and divergence\<close>

text \<open>
  A run-time panic ends the goroutine and, since no goroutine of the program recovers, the
  process. \<open>res\<close> is the outcome of code that always returns or panics; \<open>go\<close> adds
  \<open>None\<close> for code that never returns.
\<close>

datatype panic = NilDeref | IndexRange | SliceBounds | Explicit string

datatype 'a res = Ok 'a | Panic panic

type_synonym 'a go = "'a res option"

datatype error = Error string

fun res_bind :: "'a res \<Rightarrow> ('a \<Rightarrow> 'b res) \<Rightarrow> 'b res" where
  "res_bind (Ok x) f = f x"
| "res_bind (Panic p) f = Panic p"

definition ret :: "'a \<Rightarrow> 'a go" where
  "ret x = Some (Ok x)"

fun go_bind :: "'a go \<Rightarrow> ('a \<Rightarrow> 'b go) \<Rightarrow> 'b go" where
  "go_bind None f = None"
| "go_bind (Some (Panic p)) f = Some (Panic p)"
| "go_bind (Some (Ok x)) f = f x"

lemma res_bind_Ok_iff [res_simps]:
  "res_bind m f = Ok y \<longleftrightarrow> (\<exists>x. m = Ok x \<and> f x = Ok y)"
  by (cases m) auto

lemma res_bind_Panic_iff [res_simps]:
  "res_bind m f = Panic p \<longleftrightarrow> m = Panic p \<or> (\<exists>x. m = Ok x \<and> f x = Panic p)"
  by (cases m) auto

lemma res_bind_assoc: "res_bind (res_bind m f) g = res_bind m (\<lambda>x. res_bind (f x) g)"
  by (cases m) simp_all

lemma go_bind_ret [simp]: "go_bind (ret x) f = f x"
  by (simp add: ret_def)

lemma ret_inject [simp]: "ret x = ret y \<longleftrightarrow> x = y"
  by (simp add: ret_def)

lemma ret_not_Panic [simp]: "ret x \<noteq> Some (Panic p)" "Some (Panic p) \<noteq> ret x" "ret x \<noteq> None" "None \<noteq> ret x"
  by (simp_all add: ret_def)

lemma Some_ret [simp]: "Some m = ret y \<longleftrightarrow> m = Ok y" "ret y = Some m \<longleftrightarrow> m = Ok y"
  by (auto simp: ret_def)

lemma go_bind_ret_iff [res_simps]:
  "go_bind m f = ret y \<longleftrightarrow> (\<exists>x. m = ret x \<and> f x = ret y)"
  by (cases "(m, f)" rule: go_bind.cases) (auto simp: ret_def)

lemma go_bind_assoc: "go_bind (go_bind m f) g = go_bind m (\<lambda>x. go_bind (f x) g)"
  by (cases "(m, f)" rule: go_bind.cases) simp_all

section \<open>Slices\<close>

text \<open>
  A slice is \<open>nil\<close> or holds elements; ranging over \<open>nil\<close> does nothing, and \<open>append\<close> of
  nothing to \<open>nil\<close> stays \<open>nil\<close>. The two differ where a slice is marshalled or compared.
\<close>

type_synonym 'a slice = "'a list option"

definition elems :: "'a slice \<Rightarrow> 'a list" where
  "elems s = (case s of None \<Rightarrow> [] | Some xs \<Rightarrow> xs)"

definition append_slice :: "'a slice \<Rightarrow> 'a list \<Rightarrow> 'a slice" where
  "append_slice s xs =
     (case s of None \<Rightarrow> (if xs = [] then None else Some xs) | Some ys \<Rightarrow> Some (ys @ xs))"

lemma elems_simps [simp]: "elems None = []" "elems (Some xs) = xs"
  by (simp_all add: elems_def)

lemma elems_append_slice [simp]: "elems (append_slice s xs) = elems s @ xs"
  by (cases s) (simp_all add: append_slice_def)

section \<open>The search loop\<close>

text \<open>
  \<open>index := -1; for i, v := range xs { if v.Id == id { index = i; break } }\<close>, with the
  loop's counter as an argument.
\<close>

fun find_index_from :: "int \<Rightarrow> ('r \<Rightarrow> string) \<Rightarrow> string \<Rightarrow> 'r list \<Rightarrow> int" where
  "find_index_from i key k [] = -1"
| "find_index_from i key k (v # vs) =
     (if key v = k then i else find_index_from (i + 1) key k vs)"

lemma find_index_from_missing:
  "0 \<le> i \<Longrightarrow> find_index_from i key k xs = -1 \<longleftrightarrow> k \<notin> key ` set xs"
  by (induction xs arbitrary: i) auto

lemma find_index_from_found:
  assumes "k \<in> key ` set xs"
  shows "\<exists>n < length xs. find_index_from i key k xs = i + int n \<and> key (xs ! n) = k
    \<and> (\<forall>j < n. key (xs ! j) \<noteq> k)"
  using assms
proof (induction xs arbitrary: i)
  case Nil
  then show ?case by simp
next
  case (Cons v vs)
  show ?case
  proof (cases "key v = k")
    case True
    then show ?thesis by (intro exI [of _ 0]) simp
  next
    case False
    with Cons.prems obtain n where "n < length vs"
      "find_index_from (i + 1) key k vs = i + 1 + int n" "key (vs ! n) = k"
      "\<forall>j < n. key (vs ! j) \<noteq> k"
      using Cons.IH [of "i + 1"] by auto
    with False show ?thesis
      by (intro exI [of _ "Suc n"]) (auto simp: nth_Cons split: nat.splits)
  qed
qed

text \<open>What the loop finds is the first row with the key, as \<open>List.find\<close> does.\<close>

lemma find_index_cases:
  obtains (missing) "find_index_from 0 key k xs = -1" "List.find (\<lambda>r. key r = k) xs = None"
      "k \<notin> key ` set xs"
  | (found) n where "n < length xs" "find_index_from 0 key k xs = int n" "key (xs ! n) = k"
      "\<forall>j < n. key (xs ! j) \<noteq> k" "List.find (\<lambda>r. key r = k) xs = Some (xs ! n)"
proof (cases "k \<in> key ` set xs")
  case True
  then show ?thesis
    using find_index_from_found [OF True, of 0] found by (auto simp: find_Some_iff)
next
  case False
  then show ?thesis
    using missing by (auto simp: find_None_iff find_index_from_missing)
qed

lemma find_index_present: "-1 < find_index_from 0 key k xs \<longleftrightarrow> k \<in> key ` set xs"
proof (rule find_index_cases [of key k xs])
  fix n
  assume "n < length xs" "find_index_from 0 key k xs = int n" "key (xs ! n) = k"
  moreover from this have "k \<in> key ` set xs" by (metis image_eqI nth_mem)
  ultimately show ?thesis by simp
qed simp

lemma find_append:
  "List.find p (xs @ ys) = (case List.find p xs of None \<Rightarrow> List.find p ys | Some x \<Rightarrow> Some x)"
  by (induction xs) auto

lemma find_update_row:
  assumes "n < length xs" "key (xs ! n) = k" "\<forall>j < n. key (xs ! j) \<noteq> k" "key r = k"
  shows "List.find (\<lambda>x. key x = k') (xs[n := r]) =
    (if k' = k then Some r else List.find (\<lambda>x. key x = k') xs)"
  using assms
proof (induction xs arbitrary: n)
  case Nil
  then show ?case by simp
next
  case (Cons x xs)
  show ?case
  proof (cases n)
    case 0
    with Cons.prems show ?thesis by auto
  next
    case (Suc m)
    with Cons.prems have "key x \<noteq> k" "\<forall>j < m. key (xs ! j) \<noteq> k" by force+
    with Cons Suc show ?thesis by auto
  qed
qed

lemma length_neq: "length xs \<noteq> length ys \<Longrightarrow> xs \<noteq> ys"
  by auto

section \<open>Lists of machine numbers\<close>

definition nat_sum :: "u32 list \<Rightarrow> nat" where
  "nat_sum ws = sum_list (map unat ws)"

lemma nat_sum_simps [simp]:
  "nat_sum [] = 0" "nat_sum (w # ws) = unat w + nat_sum ws"
  "nat_sum (ws @ vs) = nat_sum ws + nat_sum vs"
  by (simp_all add: nat_sum_def)

lemma nat_sum_member: "w \<in> set ws \<Longrightarrow> unat w \<le> nat_sum ws"
  by (induction ws) auto

lemma nat_sum_nth: "i < length ws \<Longrightarrow> unat (ws ! i) \<le> nat_sum ws"
  by (rule nat_sum_member) simp

lemma nat_sum_update:
  "i < length ws \<Longrightarrow> nat_sum (ws[i := w]) + unat (ws ! i) = nat_sum ws + unat w"
proof (induction ws arbitrary: i)
  case Nil
  then show ?case by simp
next
  case (Cons v vs)
  then show ?case by (cases i) auto
qed

lemma unat_sum_list_u32:
  "nat_sum ws < 4294967296 \<Longrightarrow> unat (sum_list ws) = nat_sum ws"
  by (induction ws) (simp_all add: unat_u32_plus)

end
