(* ===== verification/GoText.thy ===== *)
theory GoText
  imports Prelude
begin

text \<open>
  The parts of Go's standard library that turn values into text, as the sources use them:
  \<open>strconv\<close>/\<open>fmt\<close> numbers, \<open>encoding/hex\<close>, \<open>encoding/base64\<close>, the RFC 3339 form of
  \<open>time.Time\<close>, and the compact output of \<open>encoding/json\<close> with its string escapes. A Go
  string and a byte slice are lists of bytes (\<open>char\<close> is one byte).
\<close>

section \<open>Numbers\<close>

definition hextable :: string where
  "hextable = ''0123456789abcdef''"

definition digit :: "nat \<Rightarrow> char" where
  "digit n = hextable ! n"

fun decimal :: "nat \<Rightarrow> string" where
  "decimal n = (if n < 10 then [digit n] else decimal (n div 10) @ [digit (n mod 10)])"

fun hexadecimal :: "nat \<Rightarrow> string" where
  "hexadecimal n =
     (if n < 16 then [digit n] else hexadecimal (n div 16) @ [digit (n mod 16)])"

declare decimal.simps [simp del] hexadecimal.simps [simp del]

definition decimal_int :: "int \<Rightarrow> string" where
  "decimal_int i = (if i < 0 then CHR ''-'' # decimal (nat (- i)) else decimal (nat i))"

definition hexadecimal_int :: "int \<Rightarrow> string" where
  "hexadecimal_int i =
     (if i < 0 then CHR ''-'' # hexadecimal (nat (- i)) else hexadecimal (nat i))"

text \<open>Fixed-width decimal fields, as in \<open>2006-01-02\<close>: zero-padded on the left.\<close>

definition padded :: "nat \<Rightarrow> nat \<Rightarrow> string" where
  "padded w n = (let s = decimal n in replicate (w - length s) (CHR ''0'') @ s)"

section \<open>Bytes as text\<close>

abbreviation byte :: "char \<Rightarrow> nat" where
  "byte c \<equiv> of_char c"

definition hex_encode :: "string \<Rightarrow> string" where
  "hex_encode bs = concat (map (\<lambda>b. [digit (byte b div 16), digit (byte b mod 16)]) bs)"

definition base64_char :: "nat \<Rightarrow> char" where
  "base64_char n = ''ABCDEFGHIJKLMNOPQRSTUVWXYZabcdefghijklmnopqrstuvwxyz0123456789+/'' ! n"

fun base64_encode :: "string \<Rightarrow> string" where
  "base64_encode [] = []"
| "base64_encode [a] =
     (let n = byte a * 65536
      in [base64_char (n div 262144), base64_char (n div 4096 mod 64), CHR ''='', CHR ''=''])"
| "base64_encode [a, b] =
     (let n = byte a * 65536 + byte b * 256
      in [base64_char (n div 262144), base64_char (n div 4096 mod 64),
          base64_char (n div 64 mod 64), CHR ''=''])"
| "base64_encode (a # b # c # bs) =
     (let n = byte a * 65536 + byte b * 256 + byte c
      in [base64_char (n div 262144), base64_char (n div 4096 mod 64),
          base64_char (n div 64 mod 64), base64_char (n mod 64)] @ base64_encode bs)"

text \<open>\<open>big.Int.SetBytes\<close>: big-endian.\<close>

definition set_bytes :: "string \<Rightarrow> int" where
  "set_bytes bs = int (foldl (\<lambda>n b. n * 256 + byte b) 0 bs)"

section \<open>JSON\<close>

datatype json = JNull | JInt int | JStr string | JArr "json list" | JObj "(string \<times> json) list"

text \<open>
  Escapes of \<open>encoding/json\<close> (Go 1.18): the two-character escapes, \<open>\u00xx\<close> for other
  control characters and for the three characters that HTML treats specially, the line
  separators U+2028 and U+2029, and U+FFFD for a byte that starts no valid UTF-8 sequence.
\<close>

definition backslash :: char where
  "backslash = CHR 0x5C"

definition escape_ascii :: "char \<Rightarrow> string" where
  "escape_ascii c =
     (if c = CHR 0x22 \<or> c = backslash then [backslash, c]
      else if c = CHR 0x0A then [backslash, CHR ''n'']
      else if c = CHR 0x0D then [backslash, CHR ''r'']
      else if c = CHR 0x09 then [backslash, CHR ''t'']
      else if byte c < 32 \<or> c = CHR ''<'' \<or> c = CHR ''>'' \<or> c = CHR ''&''
      then backslash # ''u00'' @ [digit (byte c div 16), digit (byte c mod 16)]
      else [c])"

definition continuation :: "nat \<Rightarrow> nat \<Rightarrow> nat \<Rightarrow> bool" where
  "continuation lo hi b \<longleftrightarrow> lo \<le> b \<and> b \<le> hi"

fun utf8_width :: "nat list \<Rightarrow> nat" where
  "utf8_width (a # b # c # d # bs) =
     (if a = 240 \<and> continuation 144 191 b \<and> continuation 128 191 c \<and> continuation 128 191 d
       \<or> 241 \<le> a \<and> a \<le> 243 \<and> continuation 128 191 b \<and> continuation 128 191 c
         \<and> continuation 128 191 d
       \<or> a = 244 \<and> continuation 128 143 b \<and> continuation 128 191 c \<and> continuation 128 191 d
      then 4 else utf8_width [a, b, c])"
| "utf8_width [a, b, c] =
     (if (a = 224 \<and> continuation 160 191 b
       \<or> 225 \<le> a \<and> a \<le> 239 \<and> a \<noteq> 237 \<and> continuation 128 191 b
       \<or> a = 237 \<and> continuation 128 159 b) \<and> continuation 128 191 c
      then 3 else utf8_width [a, b])"
| "utf8_width [a, b] = (if 194 \<le> a \<and> a \<le> 223 \<and> continuation 128 191 b then 2 else 0)"
| "utf8_width _ = 0"

definition line_separator :: "string \<Rightarrow> bool" where
  "line_separator cs \<longleftrightarrow> map byte (take 3 cs) \<in> {[226, 128, 168], [226, 128, 169 :: nat]}"

fun escape :: "string \<Rightarrow> string" where
  "escape [] = []"
| "escape (c # cs) =
     (if byte c < 128 then escape_ascii c @ escape cs
      else (let w = utf8_width (map byte (take 4 (c # cs)))
            in if w = 0 then backslash # ''ufffd'' @ escape cs
               else if line_separator (c # cs)
               then backslash # ''u202'' @ [digit (byte (cs ! 1) mod 16)] @ escape (drop 2 cs)
               else take w (c # cs) @ escape (drop (w - 1) cs)))"

definition quote :: "string \<Rightarrow> string" where
  "quote s = CHR 0x22 # escape s @ [CHR 0x22]"

fun commas :: "string list \<Rightarrow> string" where
  "commas [] = []"
| "commas [s] = s"
| "commas (s # t # ss) = s @ CHR '','' # commas (t # ss)"

fun render :: "json \<Rightarrow> string" where
  "render JNull = ''null''"
| "render (JInt i) = decimal_int i"
| "render (JStr s) = quote s"
| "render (JArr js) = CHR ''['' # commas (map render js) @ '']''"
| "render (JObj kvs) =
     CHR ''{'' # commas (map (\<lambda>(k, v). quote k @ CHR '':'' # render v) kvs) @ ''}''"

text \<open>The encodings of Go's built-in types: slices, byte slices, \<open>*big.Int\<close>, \<open>uint32\<close>.\<close>

definition json_slice :: "('a \<Rightarrow> json) \<Rightarrow> 'a slice \<Rightarrow> json" where
  "json_slice f s = (case s of None \<Rightarrow> JNull | Some xs \<Rightarrow> JArr (map f xs))"

definition json_bytes :: "string option \<Rightarrow> json" where
  "json_bytes s = (case s of None \<Rightarrow> JNull | Some bs \<Rightarrow> JStr (base64_encode bs))"

definition json_bigptr :: "int option \<Rightarrow> json" where
  "json_bigptr p = (case p of None \<Rightarrow> JNull | Some i \<Rightarrow> JInt i)"

definition json_u32 :: "u32 \<Rightarrow> json" where
  "json_u32 w = JInt (uint w)"

section \<open>Time\<close>

text \<open>
  \<open>time.Time\<close> as far as the program can observe it, which is its JSON form: the civil
  date and time and the zone's offset in minutes. Marshalling fails for a year outside
  0 to 9999; the fraction of a second loses its trailing zeros.
\<close>

record go_time =
  t_year :: int
  t_month :: nat
  t_day :: nat
  t_hour :: nat
  t_minute :: nat
  t_second :: nat
  t_nanosecond :: nat
  t_offset :: int

definition fraction :: "nat \<Rightarrow> string" where
  "fraction ns =
     (if ns = 0 then []
      else CHR ''.'' # rev (dropWhile (\<lambda>c. c = CHR ''0'') (rev (padded 9 ns))))"

definition zone :: "int \<Rightarrow> string" where
  "zone off =
     (if off = 0 then ''Z''
      else (if off < 0 then CHR ''-'' else CHR ''+'') #
           padded 2 (nat \<bar>off\<bar> div 60) @ CHR '':'' # padded 2 (nat \<bar>off\<bar> mod 60))"

definition rfc3339 :: "go_time \<Rightarrow> string" where
  "rfc3339 t = padded 4 (nat (t_year t)) @ ''-'' @ padded 2 (t_month t) @ ''-''
     @ padded 2 (t_day t) @ ''T'' @ padded 2 (t_hour t) @ '':'' @ padded 2 (t_minute t)
     @ '':'' @ padded 2 (t_second t) @ fraction (t_nanosecond t) @ zone (t_offset t)"

definition json_time :: "go_time \<Rightarrow> error + json" where
  "json_time t =
     (if t_year t < 0 \<or> 9999 < t_year t
      then Inl (Error ''Time.MarshalJSON: year outside of range [0,9999]'')
      else Inr (JStr (rfc3339 t)))"

section \<open>Hexadecimal text\<close>

definition plain :: "string \<Rightarrow> bool" where
  "plain s \<longleftrightarrow> set s \<subseteq> set hextable"

lemma plain_simps [simp]: "plain []" "plain (c # s) \<longleftrightarrow> c \<in> set hextable \<and> plain s"
  by (simp_all add: plain_def)

lemma hextable_chars:
  "c \<in> set hextable \<Longrightarrow> byte c < 128 \<and> escape_ascii c = [c] \<and> c \<noteq> CHR 0x22"
proof -
  have "list_all (\<lambda>c. byte c < 128 \<and> escape_ascii c = [c] \<and> c \<noteq> CHR 0x22) hextable"
    by (simp add: hextable_def escape_ascii_def backslash_def)
  then show "c \<in> set hextable \<Longrightarrow> byte c < 128 \<and> escape_ascii c = [c] \<and> c \<noteq> CHR 0x22"
    by (simp add: list_all_iff)
qed

lemma escape_plain: "plain s \<Longrightarrow> escape s = s"
  by (induction s) (simp_all add: hextable_chars)

lemma digit_hextable: "n < 16 \<Longrightarrow> digit n \<in> set hextable"
  unfolding digit_def by (rule nth_mem) (simp add: hextable_def)

lemma byte_div_16: "byte c div 16 < 16"
proof -
  have "byte c < 256" by simp
  then show ?thesis by (intro less_mult_imp_div_less) simp
qed

lemma hex_encode_simps [simp]:
  "hex_encode [] = []"
  "hex_encode (b # bs) = digit (byte b div 16) # digit (byte b mod 16) # hex_encode bs"
  by (simp_all add: hex_encode_def)

lemma hex_encode_plain: "plain (hex_encode s)"
  by (induction s) (simp_all add: digit_hextable byte_div_16)

lemma length_hex_encode [simp]: "length (hex_encode s) = 2 * length s"
  by (induction s) simp_all

lemma takeWhile_plain: "plain s \<Longrightarrow> takeWhile (\<lambda>c. c \<noteq> CHR 0x22) (s @ CHR 0x22 # r) = s"
  by (induction s) (simp_all add: hextable_chars)

end
