(* ===== verification/GoDecode.thy ===== *)
theory GoDecode
  imports GoJson
begin

text \<open>
  \<open>json.Unmarshal\<close> (Go 1.18) for the types the program decodes. A decoder takes the value read
  and the variable it is stored to, and gives the variable's new value or \<open>None\<close> for an error
  (every caller of the program drops the variable then, and none looks at the error beyond its
  being there, so errors carry no text of their own). \<open>null\<close> leaves a variable alone, except
  pointers and slices, which become \<open>nil\<close>.
\<close>

type_synonym 'a decoder = "jvalue \<Rightarrow> 'a \<Rightarrow> 'a option"

section \<open>Strings\<close>

definition hex_digit :: "char \<Rightarrow> nat" where
  "hex_digit c =
     (if digit_char c then byte c - 48 else if 97 \<le> byte c then byte c - 87 else byte c - 55)"

definition code_unit :: "string \<Rightarrow> nat" where
  "code_unit hs = foldl (\<lambda>n c. n * 16 + hex_digit c) 0 hs"

definition char_bytes :: "nat list \<Rightarrow> string" where
  "char_bytes ns = map char_of ns"

text \<open>\<open>utf8.EncodeRune\<close>; a surrogate becomes U+FFFD.\<close>

definition encode_rune :: "nat \<Rightarrow> string" where
  "encode_rune r = char_bytes
     (if r < 128 then [r]
      else if r < 2048 then [192 + r div 64, 128 + r mod 64]
      else if 55296 \<le> r \<and> r < 57344 then [239, 191, 189]
      else if r < 65536 then [224 + r div 4096, 128 + r div 64 mod 64, 128 + r mod 64]
      else [240 + r div 262144, 128 + r div 4096 mod 64, 128 + r div 64 mod 64, 128 + r mod 64])"

definition surrogate_pair :: "nat \<Rightarrow> nat \<Rightarrow> nat option" where
  "surrogate_pair r s =
     (if 55296 \<le> r \<and> r < 56320 \<and> 56320 \<le> s \<and> s < 57344
      then Some ((r - 55296) * 1024 + (s - 56320) + 65536) else None)"

definition unescape :: "char \<Rightarrow> char" where
  "unescape c =
     (if c = CHR ''b'' then CHR 0x08 else if c = CHR ''f'' then CHR 0x0C
      else if c = CHR ''n'' then CHR 0x0A else if c = CHR ''r'' then CHR 0x0D
      else if c = CHR ''t'' then CHR 0x09 else c)"

text \<open>
  The text of a string literal, which the scanner has passed: escapes, surrogate pairs, and U+FFFD
  for a byte that starts no valid UTF-8 sequence.
\<close>

definition unicode_escape :: "string \<Rightarrow> nat option" where
  "unicode_escape s =
     (if 6 \<le> length s \<and> s ! 0 = backslash \<and> s ! 1 = CHR ''u''
      then Some (code_unit (take 4 (drop 2 s))) else None)"

function unquote :: "string \<Rightarrow> string" where
  "unquote s =
     (case s of
        [] \<Rightarrow> []
      | c # cs \<Rightarrow>
          (case unicode_escape s of
             Some r \<Rightarrow>
               (case (case unicode_escape (drop 6 s) of None \<Rightarrow> None | Some r' \<Rightarrow> surrogate_pair r r') of
                  Some full \<Rightarrow> encode_rune full @ unquote (drop 12 s)
                | None \<Rightarrow> encode_rune r @ unquote (drop 6 s))
           | None \<Rightarrow>
               (if c = backslash then unescape (hd (cs @ [c])) # unquote (tl cs)
                else if byte c < 128 then c # unquote cs
                else (let w = utf8_width (map byte (take 4 s))
                      in if w = 0 then char_bytes [239, 191, 189] @ unquote cs
                         else take w s @ unquote (drop w s)))))"
  by pat_completeness auto

termination unquote
  by (relation "measure length") auto

declare unquote.simps [simp del]

definition decode_string :: "string decoder" where
  "decode_string v old =
     (case v of VNull \<Rightarrow> Some old | VStr s \<Rightarrow> Some (unquote s) | _ \<Rightarrow> None)"

section \<open>Numbers\<close>

definition digits_value :: "string \<Rightarrow> nat" where
  "digits_value s = foldl (\<lambda>n c. n * 10 + digit_value c) 0 s"

definition all_digits :: "string \<Rightarrow> bool" where
  "all_digits s \<longleftrightarrow> s \<noteq> [] \<and> list_all digit_char s"

text \<open>A literal with a fraction or an exponent is no integer, whatever its value.\<close>

definition integer_literal :: "string \<Rightarrow> int option" where
  "integer_literal s =
     (if all_digits s then Some (int (digits_value s))
      else if s \<noteq> [] \<and> hd s = CHR ''-'' \<and> all_digits (tl s) then Some (- int (digits_value (tl s)))
      else None)"

text \<open>\<open>uint32\<close> (through \<open>ParseUint\<close>), \<open>int\<close> (64 bits), \<open>big.Int\<close> and \<open>*big.Int\<close>.\<close>

definition decode_u32 :: "u32 decoder" where
  "decode_u32 v old =
     (case v of
        VNull \<Rightarrow> Some old
      | VNum s \<Rightarrow> (if all_digits s \<and> digits_value s < 2 ^ 32
                   then Some (of_nat (digits_value s)) else None)
      | _ \<Rightarrow> None)"

definition decode_int :: "int decoder" where
  "decode_int v old =
     (case v of
        VNull \<Rightarrow> Some old
      | VNum s \<Rightarrow> (case integer_literal s of
                     None \<Rightarrow> None
                   | Some i \<Rightarrow> if - (2 ^ 63) \<le> i \<and> i < 2 ^ 63 then Some i else None)
      | _ \<Rightarrow> None)"

definition decode_bigint :: "int decoder" where
  "decode_bigint v old =
     (case v of VNull \<Rightarrow> Some old | VNum s \<Rightarrow> integer_literal s | _ \<Rightarrow> None)"

definition decode_bigptr :: "int option decoder" where
  "decode_bigptr v old =
     (case v of VNull \<Rightarrow> Some None | VNum s \<Rightarrow> map_option Some (integer_literal s) | _ \<Rightarrow> None)"

section \<open>Slices and byte slices\<close>

text \<open>
  An array is decoded element by element over the elements the variable has; a variable that had
  none starts every element at its zero value.
\<close>

fun decode_elements :: "'a decoder \<Rightarrow> 'a \<Rightarrow> jvalue list \<Rightarrow> 'a list \<Rightarrow> 'a list option" where
  "decode_elements f z [] old = Some []"
| "decode_elements f z (v # vs) old =
     (case f v (case old of [] \<Rightarrow> z | x # xs \<Rightarrow> x) of
        None \<Rightarrow> None
      | Some y \<Rightarrow> map_option ((#) y) (decode_elements f z vs (tl old)))"

definition decode_slice :: "'a decoder \<Rightarrow> 'a \<Rightarrow> 'a slice decoder" where
  "decode_slice f z v old =
     (case v of
        VNull \<Rightarrow> Some None
      | VArr vs \<Rightarrow> map_option Some (decode_elements f z vs (elems old))
      | _ \<Rightarrow> None)"

definition base64_value :: "char \<Rightarrow> nat option" where
  "base64_value c =
     (if 65 \<le> byte c \<and> byte c \<le> 90 then Some (byte c - 65)
      else if 97 \<le> byte c \<and> byte c \<le> 122 then Some (byte c - 71)
      else if digit_char c then Some (byte c + 4)
      else if c = CHR ''+'' then Some 62 else if c = CHR ''/'' then Some 63 else None)"

definition sextets :: "string \<Rightarrow> nat option" where
  "sextets cs =
     foldl (\<lambda>n c. case (n, base64_value c) of (Some n, Some v) \<Rightarrow> Some (n * 64 + v) | _ \<Rightarrow> None) (Some 0) cs"

text \<open>\<open>base64.StdEncoding\<close>: groups of four, padded at the end; line breaks are skipped.\<close>

fun base64_groups :: "string \<Rightarrow> string option" where
  "base64_groups [] = Some []"
| "base64_groups (a # b # c # d # rest) =
     (if d = CHR ''='' then
        (if rest \<noteq> [] then None
         else if c = CHR ''='' then map_option (\<lambda>n. char_bytes [n div 16]) (sextets [a, b])
         else map_option (\<lambda>n. char_bytes [n div 1024, n div 4 mod 256]) (sextets [a, b, c]))
      else (case sextets [a, b, c, d] of
              None \<Rightarrow> None
            | Some n \<Rightarrow> map_option ((@) (char_bytes [n div 65536, n div 256 mod 256, n mod 256]))
                          (base64_groups rest)))"
| "base64_groups _ = None"

definition base64_decode :: "string \<Rightarrow> string option" where
  "base64_decode s = base64_groups (filter (\<lambda>c. c \<noteq> CHR 0x0A \<and> c \<noteq> CHR 0x0D) s)"

definition decode_byte :: "char decoder" where
  "decode_byte v old =
     (case v of
        VNull \<Rightarrow> Some old
      | VNum s \<Rightarrow> (if all_digits s \<and> digits_value s < 256 then Some (char_of (digits_value s)) else None)
      | _ \<Rightarrow> None)"

definition decode_bytes :: "string option decoder" where
  "decode_bytes v old =
     (case v of
        VStr s \<Rightarrow> map_option Some (base64_decode (unquote s))
      | _ \<Rightarrow> decode_slice decode_byte (CHR 0x00) v old)"

section \<open>Structs\<close>

text \<open>
  A member goes to the field of that name, or else to the first field whose name is the same but for
  the case of letters (the Kelvin sign and the long s count as K and S); other members are skipped.
\<close>

fun fold_name :: "string \<Rightarrow> string" where
  "fold_name (a # b # c # s) =
     (if [a, b, c] = char_bytes [226, 132, 170] then CHR ''k'' # fold_name s
      else if [a, b] = char_bytes [197, 191] then CHR ''s'' # fold_name (c # s)
      else (if 65 \<le> byte a \<and> byte a \<le> 90 then char_of (byte a + 32) else a) # fold_name (b # c # s))"
| "fold_name (a # s) =
     (if a # s = char_bytes [197, 191] then ''s''
      else (if 65 \<le> byte a \<and> byte a \<le> 90 then char_of (byte a + 32) else a) # fold_name s)"
| "fold_name [] = []"

type_synonym 'r field = "string \<times> 'r decoder"

definition find_field :: "'r field list \<Rightarrow> string \<Rightarrow> 'r decoder option" where
  "find_field members key =
     (case map_of members key of
        Some f \<Rightarrow> Some f
      | None \<Rightarrow> map_option snd (List.find (\<lambda>(n, f). fold_name n = fold_name key) members))"

fun decode_members :: "'r field list \<Rightarrow> (string \<times> jvalue) list \<Rightarrow> 'r \<Rightarrow> 'r option" where
  "decode_members members [] r = Some r"
| "decode_members members ((k, v) # kvs) r =
     (case find_field members (unquote k) of
        None \<Rightarrow> decode_members members kvs r
      | Some f \<Rightarrow> (case f v r of None \<Rightarrow> None | Some r' \<Rightarrow> decode_members members kvs r'))"

definition decode_struct :: "'r field list \<Rightarrow> 'r decoder" where
  "decode_struct members v old =
     (case v of VNull \<Rightarrow> Some old | VObj kvs \<Rightarrow> decode_members members kvs old | _ \<Rightarrow> None)"

text \<open>A field: its name, how to read it, how to store it.\<close>

definition field :: "string \<Rightarrow> 'a decoder \<Rightarrow> ('r \<Rightarrow> 'a) \<Rightarrow> ('a \<Rightarrow> 'r \<Rightarrow> 'r) \<Rightarrow> 'r field" where
  "field name f get put = (name, \<lambda>v r. map_option (\<lambda>x. put x r) (f v (get r)))"

section \<open>Time\<close>

text \<open>
  \<open>time.Time\<close> parses the literal itself with the RFC 3339 layout. As \<open>time.Parse\<close> does, the hour may
  have one digit, the fraction any number of digits after a point or a comma (nine count), and the
  zone's numbers a sign of their own; the day must exist in its month.
\<close>

definition expect :: "char \<Rightarrow> string \<Rightarrow> string option" where
  "expect c s = (if s \<noteq> [] \<and> hd s = c then Some (tl s) else None)"

definition getnum :: "bool \<Rightarrow> string \<Rightarrow> (nat \<times> string) option" where
  "getnum fixed s =
     (if s = [] \<or> \<not> digit_char (hd s) then None
      else if tl s \<noteq> [] \<and> digit_char (hd (tl s)) then Some (digits_value (take 2 s), drop 2 s)
      else if fixed then None else Some (digit_value (hd s), tl s))"

definition getyear :: "string \<Rightarrow> (nat \<times> string) option" where
  "getyear s =
     (if 4 \<le> length s \<and> list_all digit_char (take 4 s)
      then Some (digits_value (take 4 s), drop 4 s) else None)"

definition getfraction :: "string \<Rightarrow> nat \<times> string" where
  "getfraction s =
     (if 2 \<le> length s \<and> hd s \<in> set ''.,'' \<and> digit_char (s ! 1)
      then (let ds = takeWhile digit_char (tl s)
            in (digits_value (take 9 ds) * 10 ^ (9 - length ds), drop (length ds) (tl s)))
      else (0, s))"

text \<open>\<open>atoi\<close> of two characters.\<close>

definition signed_pair :: "string \<Rightarrow> int option" where
  "signed_pair s =
     (if all_digits s then Some (int (digits_value s))
      else if hd s = CHR ''+'' \<and> all_digits (tl s) then Some (int (digits_value (tl s)))
      else if hd s = CHR ''-'' \<and> all_digits (tl s) then Some (- int (digits_value (tl s)))
      else None)"

definition getzone :: "string \<Rightarrow> (int \<times> string) option" where
  "getzone s =
     (if s \<noteq> [] \<and> hd s = CHR ''Z'' then Some (0, tl s)
      else if 6 \<le> length s \<and> s ! 3 = CHR '':'' \<and> s ! 0 \<in> set ''+-''
      then (case (signed_pair (take 2 (drop 1 s)), signed_pair (take 2 (drop 4 s))) of
              (Some hr, Some mm) \<Rightarrow>
                Some ((if s ! 0 = CHR ''-'' then - (hr * 60 + mm) else hr * 60 + mm), drop 6 s)
            | _ \<Rightarrow> None)
      else None)"

definition leap_year :: "nat \<Rightarrow> bool" where
  "leap_year y \<longleftrightarrow> y mod 4 = 0 \<and> (y mod 100 \<noteq> 0 \<or> y mod 400 = 0)"

definition days_in :: "nat \<Rightarrow> nat \<Rightarrow> nat" where
  "days_in month y =
     (if month = 2 then (if leap_year y then 29 else 28) else if month \<in> {4, 6, 9, 11} then 30 else 31)"

definition obind :: "'a option \<Rightarrow> ('a \<Rightarrow> 'b option) \<Rightarrow> 'b option" where
  "obind x f = (case x of None \<Rightarrow> None | Some y \<Rightarrow> f y)"

definition parse_time :: "string \<Rightarrow> go_time option" where
  "parse_time s =
     obind (getyear s) (\<lambda>(year, s). obind (expect (CHR ''-'') s) (\<lambda>s.
     obind (getnum True s) (\<lambda>(month, s). obind (expect (CHR ''-'') s) (\<lambda>s.
     obind (getnum True s) (\<lambda>(day, s). obind (expect (CHR ''T'') s) (\<lambda>s.
     obind (getnum False s) (\<lambda>(hour, s). obind (expect (CHR '':'') s) (\<lambda>s.
     obind (getnum True s) (\<lambda>(minute, s). obind (expect (CHR '':'') s) (\<lambda>s.
     obind (getnum True s) (\<lambda>(second, s).
     (let (nanosecond, s) = getfraction s
      in obind (getzone s) (\<lambda>(offset, s).
           if s = [] \<and> 1 \<le> month \<and> month \<le> 12 \<and> 1 \<le> day \<and> day \<le> days_in month year
             \<and> hour < 24 \<and> minute < 60 \<and> second < 60
           then Some \<lparr>t_year = int year, t_month = month, t_day = day, t_hour = hour,
                      t_minute = minute, t_second = second, t_nanosecond = nanosecond,
                      t_offset = offset\<rparr>
           else None)))))))))))))"

definition decode_time :: "go_time decoder" where
  "decode_time v old =
     (case v of VNull \<Rightarrow> Some old | VStr s \<Rightarrow> parse_time s | _ \<Rightarrow> None)"

section \<open>Unmarshal\<close>

definition json_error :: error where
  "json_error = Error ''json''"

definition Unmarshal :: "'a decoder \<Rightarrow> 'a \<Rightarrow> string \<Rightarrow> error + 'a" where
  "Unmarshal f zero data =
     (case parse_json data of
        None \<Rightarrow> Inl json_error
      | Some v \<Rightarrow> (case f v zero of None \<Rightarrow> Inl json_error | Some x \<Rightarrow> Inr x))"

end
