(* ===== verification/Utils.thy ===== *)
theory Utils
  imports GoDecode
begin

text \<open>
  \<open>blockchain/utils.go\<close> and the constants of \<open>blockchain/blockchain.go\<close>. The primitives
  of \<open>crypto/sha256\<close> and \<open>crypto/rsa\<close> are the fields of a record \<open>crypto\<close> that every
  operation takes: all theorems hold for any hash and any signature scheme, and those that
  need a law of them (no collision between two inputs, a signature that verifies) name it. Signing may
  give a signature or an error, and may panic, as \<open>SignPKCS1v15\<close> does on a key that a JSON document
  left incomplete (no \<open>D\<close>, precomputed values without the primes).
\<close>

section \<open>Keys and primitives\<close>

record PublicKey =
  N :: "int option"
  E :: int

record CRTValue =
  CRT_Exp :: "int option"
  CRT_Coeff :: "int option"
  CRT_R :: "int option"

record PrecomputedValues =
  Dp :: "int option"
  Dq :: "int option"
  Qinv :: "int option"
  CRTValues :: "CRTValue slice"

record PrivateKey =
  Public :: PublicKey
  D :: "int option"
  Primes :: "int option slice"
  Precomputed :: PrecomputedValues

record crypto =
  Sum256 :: "string \<Rightarrow> string"
  SignPKCS1v15 :: "PrivateKey \<Rightarrow> string \<Rightarrow> (error + string) res"
  VerifyPKCS1v15 :: "int \<Rightarrow> int \<Rightarrow> string \<Rightarrow> string \<Rightarrow> bool"

text \<open>
  Whatever the key is otherwise, \<open>rsa.SignPKCS1v15\<close> reads the length of the modulus before it does
  anything else, so a key without one (\<open>nil\<close>) is a nil dereference.
\<close>

definition rsa_sign :: "crypto \<Rightarrow> PrivateKey \<Rightarrow> string \<Rightarrow> (error + string) res" where
  "rsa_sign H privKey hashed =
     (case N (Public privKey) of None \<Rightarrow> Panic NilDeref | Some n \<Rightarrow> SignPKCS1v15 H privKey hashed)"

section \<open>Constants\<close>

definition MISSING_BLOCK :: string where "MISSING_BLOCK = ''MISSING_BLOCK''"
definition POST_TRANSACTION :: string where "POST_TRANSACTION = ''POST_TRANSACTION''"
definition PROOF_FOUND :: string where "PROOF_FOUND = ''PROOF_FOUND''"
definition START_MINING :: string where "START_MINING = ''START_MINING''"

definition NUM_ROUNDS_MINING :: u32 where "NUM_ROUNDS_MINING = 2000"

definition POW_BASE_TARGET_STR :: string where
  "POW_BASE_TARGET_STR = ''ffffffffffffffffffffffffffffffffffffffffffffffffffffffffffffffff''"

definition POW_LEADING_ZEROES :: u32 where "POW_LEADING_ZEROES = 15"
definition COINBASE_AMT_ALLOWED :: u32 where "COINBASE_AMT_ALLOWED = 25"
definition DEFAULT_TX_FEE :: u32 where "DEFAULT_TX_FEE = 1"
definition CONFIRMED_DEPTH :: u32 where "CONFIRMED_DEPTH = 6"

section \<open>Operations\<close>

text \<open>\<open>rsa.GenerateKey\<close> draws from the system's entropy: its result is the argument.\<close>

definition GenerateKeypair :: "error + PrivateKey \<Rightarrow> error + (PrivateKey \<times> PublicKey)" where
  "GenerateKeypair generated =
     (case generated of Inl err \<Rightarrow> Inl err | Inr privKey \<Rightarrow> Inr (privKey, Public privKey))"

definition format_bigptr :: "int option \<Rightarrow> string" where
  "format_bigptr p = (case p of None \<Rightarrow> ''<nil>'' | Some i \<Rightarrow> hexadecimal_int i)"

definition GenerateAddress :: "crypto \<Rightarrow> PublicKey \<Rightarrow> string" where
  "GenerateAddress H pubKey =
     hex_encode (Sum256 H (format_bigptr (N pubKey) @ ''||'' @ hexadecimal_int (E pubKey)))"

text \<open>\<open>big.Int.SetString(s, 16)\<close> on digits \<open>0\<close>-\<open>9\<close>, \<open>a\<close>-\<open>f\<close>.\<close>

definition hex_value :: "char \<Rightarrow> nat" where
  "hex_value c = (if byte c < 58 then byte c - 48 else byte c - 87)"

definition parse_hex :: "string \<Rightarrow> int" where
  "parse_hex s = int (foldl (\<lambda>n c. n * 16 + hex_value c) 0 s)"

definition CalculateTarget :: "u32 \<Rightarrow> int" where
  "CalculateTarget leading_zeros =
     drop_bit (unat leading_zeros) (parse_hex POW_BASE_TARGET_STR)"

section \<open>The target\<close>

lemma parse_base_target: "parse_hex POW_BASE_TARGET_STR = 2 ^ 256 - 1"
  by (simp add: parse_hex_def POW_BASE_TARGET_STR_def hex_value_def)

lemma mask_shift: "n \<le> k \<Longrightarrow> (2 ^ k - 1 :: int) div 2 ^ n = 2 ^ (k - n) - 1"
proof -
  assume n: "n \<le> k"
  then have k: "(2 :: int) ^ k = 2 ^ (k - n) * 2 ^ n" by (simp flip: power_add)
  have "(2 ^ (k - n) * 2 ^ n - 1 :: int) div 2 ^ n = 2 ^ (k - n) - 1"
  proof (rule int_div_pos_eq)
    show "(2 ^ (k - n) * 2 ^ n - 1 :: int) = 2 ^ n * (2 ^ (k - n) - 1) + (2 ^ n - 1)"
      by (simp add: algebra_simps)
  qed simp_all
  then show ?thesis by (simp add: k)
qed

lemma CalculateTarget_eq:
  "CalculateTarget lz = (if unat lz \<le> 256 then 2 ^ (256 - unat lz) - 1 else 0)"
proof (cases "unat lz \<le> 256")
  case True
  then show ?thesis
    unfolding CalculateTarget_def parse_base_target drop_bit_eq_div by (simp only: mask_shift if_True)
next
  case False
  then have "(2 :: int) ^ 256 \<le> 2 ^ unat lz" by (intro power_increasing) simp_all
  then have "(2 ^ 256 - 1 :: int) < 2 ^ unat lz" by linarith
  then show ?thesis
    using False unfolding CalculateTarget_def parse_base_target drop_bit_eq_div
    by (simp add: div_pos_pos_trivial)
qed

lemma CalculateTarget_antimono:
  assumes "a \<le> b"
  shows "CalculateTarget b \<le> CalculateTarget a"
proof -
  have "256 - unat b \<le> 256 - unat a" using assms by (simp add: word_le_nat_alt diff_le_mono2)
  then have "(2 :: int) ^ (256 - unat b) \<le> 2 ^ (256 - unat a)" by (rule power_increasing) simp
  then show ?thesis using assms by (auto simp: CalculateTarget_eq word_le_nat_alt simp del: power_increasing_iff)
qed

end
