(* ===== verification/Transaction.thy ===== *)
theory Transaction
  imports Utils
begin

text \<open>
  \<open>blockchain/transaction.go\<close>: transactions, their JSON form, hash, signature and total. A
  byte slice that may be \<open>nil\<close> is a \<open>string option\<close>. Pointer arguments that every caller
  passes non-nil are values.
\<close>

section \<open>Data\<close>

record Output =
  Out_Address :: string
  Out_Amount :: u32

record TransactionInfo =
  From :: string
  Info_Nonce :: u32
  Pubkey :: PublicKey
  Fee :: u32
  Outputs :: "Output slice"
  Data :: "string option"

record Transaction =
  Info :: TransactionInfo
  Sig :: "string option"

abbreviation tx_outputs :: "Transaction \<Rightarrow> Output list" where
  "tx_outputs tx \<equiv> elems (Outputs (Info tx))"

section \<open>Construction\<close>

text \<open>
  \<open>make\<close> followed by \<open>copy\<close>: the new slices are never \<open>nil\<close>, whatever the arguments were.
\<close>

definition NewTransaction ::
  "string \<Rightarrow> u32 \<Rightarrow> PublicKey \<Rightarrow> string option \<Rightarrow> u32 \<Rightarrow> Output slice \<Rightarrow> string option
   \<Rightarrow> error + Transaction" where
  "NewTransaction from nonce pubkey sig fee outputs data =
     (if length (elems outputs) = 0 then Inl (Error ''outputs is empty'')
      else Inr \<lparr>Info = \<lparr>From = from, Info_Nonce = nonce, Pubkey = pubkey, Fee = fee,
                        Outputs = Some (elems outputs),
                        Data = Some (case data of None \<Rightarrow> [] | Some d \<Rightarrow> d)\<rparr>,
                Sig = Some (case sig of None \<Rightarrow> [] | Some s \<Rightarrow> s)\<rparr>)"

section \<open>Serialisation\<close>

definition json_pubkey :: "PublicKey \<Rightarrow> json" where
  "json_pubkey k = JObj [(''N'', json_bigptr (N k)), (''E'', JInt (E k))]"

definition json_output :: "Output \<Rightarrow> json" where
  "json_output v = JObj [(''Address'', JStr (Out_Address v)), (''Amount'', json_u32 (Out_Amount v))]"

definition json_info :: "TransactionInfo \<Rightarrow> json" where
  "json_info t = JObj
     [(''From'', JStr (From t)), (''Nonce'', json_u32 (Info_Nonce t)),
      (''Pubkey'', json_pubkey (Pubkey t)), (''Fee'', json_u32 (Fee t)),
      (''Outputs'', json_slice json_output (Outputs t)), (''Data'', json_bytes (Data t))]"

definition json_transaction :: "Transaction \<Rightarrow> json" where
  "json_transaction tx = JObj [(''Info'', json_info (Info tx)), (''Sig'', json_bytes (Sig tx))]"

text \<open>Marshalling these types cannot fail, so the error branch of the sources is dead.\<close>

definition TransactionToBytes :: "Transaction \<Rightarrow> error + string" where
  "TransactionToBytes tx = Inr (render (json_transaction tx))"

definition TransactionInfoToBytes :: "TransactionInfo \<Rightarrow> error + string" where
  "TransactionInfoToBytes t = Inr (render (json_info t))"

section \<open>Deserialisation\<close>

text \<open>A variable of each type starts at its zero value; a decoder stores the members it meets.\<close>

definition zero_pubkey :: PublicKey where
  "zero_pubkey = \<lparr>N = None, E = 0\<rparr>"

definition zero_output :: Output where
  "zero_output = \<lparr>Out_Address = [], Out_Amount = 0\<rparr>"

definition zero_info :: TransactionInfo where
  "zero_info = \<lparr>From = [], Info_Nonce = 0, Pubkey = zero_pubkey, Fee = 0, Outputs = None, Data = None\<rparr>"

definition zero_transaction :: Transaction where
  "zero_transaction = \<lparr>Info = zero_info, Sig = None\<rparr>"

definition decode_pubkey :: "PublicKey decoder" where
  "decode_pubkey = decode_struct
     [field ''N'' decode_bigptr N (\<lambda>x. N_update (\<lambda>_. x)), field ''E'' decode_int E (\<lambda>x. E_update (\<lambda>_. x))]"

definition decode_output :: "Output decoder" where
  "decode_output = decode_struct
     [field ''Address'' decode_string Out_Address (\<lambda>x. Out_Address_update (\<lambda>_. x)),
      field ''Amount'' decode_u32 Out_Amount (\<lambda>x. Out_Amount_update (\<lambda>_. x))]"

definition decode_info :: "TransactionInfo decoder" where
  "decode_info = decode_struct
     [field ''From'' decode_string From (\<lambda>x. From_update (\<lambda>_. x)),
      field ''Nonce'' decode_u32 Info_Nonce (\<lambda>x. Info_Nonce_update (\<lambda>_. x)),
      field ''Pubkey'' decode_pubkey Pubkey (\<lambda>x. Pubkey_update (\<lambda>_. x)),
      field ''Fee'' decode_u32 Fee (\<lambda>x. Fee_update (\<lambda>_. x)),
      field ''Outputs'' (decode_slice decode_output zero_output) Outputs (\<lambda>x. Outputs_update (\<lambda>_. x)),
      field ''Data'' decode_bytes Data (\<lambda>x. Data_update (\<lambda>_. x))]"

definition decode_transaction :: "Transaction decoder" where
  "decode_transaction = decode_struct
     [field ''Info'' decode_info Info (\<lambda>x. Info_update (\<lambda>_. x)),
      field ''Sig'' decode_bytes Sig (\<lambda>x. Sig_update (\<lambda>_. x))]"

definition BytesToTransaction :: "string \<Rightarrow> error + Transaction" where
  "BytesToTransaction data = Unmarshal decode_transaction zero_transaction data"

definition BytesToTransactionInfo :: "string \<Rightarrow> error + TransactionInfo" where
  "BytesToTransactionInfo data = Unmarshal decode_info zero_info data"

section \<open>Hash, identity, signature\<close>

definition Info_GetHash :: "crypto \<Rightarrow> TransactionInfo \<Rightarrow> string option" where
  "Info_GetHash H t =
     (case TransactionInfoToBytes t of Inl err \<Rightarrow> None | Inr data \<Rightarrow> Some (Sum256 H data))"

definition Tx_GetHashStr :: "crypto \<Rightarrow> Transaction \<Rightarrow> string" where
  "Tx_GetHashStr H tx =
     (let data = (case TransactionToBytes tx of Inl err \<Rightarrow> [] | Inr d \<Rightarrow> d)
      in hex_encode (Sum256 H data))"

definition Tx_Id :: "crypto \<Rightarrow> Transaction \<Rightarrow> string" where
  "Tx_Id H tx = Tx_GetHashStr H tx"

definition bytes_of :: "string option \<Rightarrow> string" where
  "bytes_of s = (case s of None \<Rightarrow> [] | Some bs \<Rightarrow> bs)"

text \<open>
  \<open>Sign\<close> changes the transaction it is called on: the model returns it beside the signature
  (\<open>nil\<close> when signing fails). A panic of the signing is one of \<open>Sign\<close>.
\<close>

definition Sign :: "crypto \<Rightarrow> Transaction \<Rightarrow> PrivateKey \<Rightarrow> (Transaction \<times> string option) res" where
  "Sign H tx privKey =
     (let hashed = Info_GetHash H (Info tx)
      in res_bind (rsa_sign H privKey (bytes_of hashed)) (\<lambda>signed.
           case signed of
             Inl err \<Rightarrow> Ok (tx, None)
           | Inr signature \<Rightarrow> Ok (tx\<lparr>Sig := Some signature\<rparr>, Some signature)))"

text \<open>
  \<open>rsa.VerifyPKCS1v15\<close> reads the modulus's length first: a \<open>nil\<close> modulus, which JSON's
  \<open>null\<close> or a missing field leaves, is a nil dereference.
\<close>

definition VerifySignature :: "crypto \<Rightarrow> Transaction \<Rightarrow> bool res" where
  "VerifySignature H tx =
     (let hashed = Info_GetHash H (Info tx); key = Pubkey (Info tx)
      in case N key of
           None \<Rightarrow> Panic NilDeref
         | Some n \<Rightarrow> Ok (VerifyPKCS1v15 H n (E key) (bytes_of hashed) (bytes_of (Sig tx))))"

section \<open>The total\<close>

definition TotalOutput :: "Transaction \<Rightarrow> u32" where
  "TotalOutput tx = foldl (\<lambda>amount v. amount + Out_Amount v) 0 (tx_outputs tx) + Fee (Info tx)"

text \<open>What the sender would pay without wrap-around.\<close>

definition total_nat :: "Transaction \<Rightarrow> nat" where
  "total_nat tx = nat_sum (map Out_Amount (tx_outputs tx)) + unat (Fee (Info tx))"

definition no_overflow :: "Transaction \<Rightarrow> bool" where
  "no_overflow tx \<longleftrightarrow> total_nat tx < 2 ^ 32"

lemma foldl_amount: "foldl (\<lambda>amount v. amount + Out_Amount v) a vs = a + sum_list (map Out_Amount vs)"
  by (induction vs arbitrary: a) (simp_all add: algebra_simps)

lemma TotalOutput_sum: "TotalOutput tx = sum_list (map Out_Amount (tx_outputs tx)) + Fee (Info tx)"
  by (simp add: TotalOutput_def foldl_amount)

lemma unat_sum_list_mod: "unat (sum_list (ws :: u32 list)) = nat_sum ws mod 2 ^ 32"
  by (induction ws) (simp_all add: unat_word_ariths mod_add_right_eq)

lemma unat_TotalOutput: "unat (TotalOutput tx) = total_nat tx mod 2 ^ 32"
  by (simp add: TotalOutput_sum total_nat_def unat_word_ariths unat_sum_list_mod mod_add_left_eq)

lemma unat_TotalOutput_exact: "no_overflow tx \<Longrightarrow> unat (TotalOutput tx) = total_nat tx"
  by (simp add: unat_TotalOutput no_overflow_def)

section \<open>Signing and verifying\<close>

lemma Sign_Info:
  assumes "Sign H tx k = Ok (tx', s)"
  shows "Info tx' = Info tx"
proof -
  obtain r :: "error + string" where "(case r of Inl err \<Rightarrow> Ok (tx, None) | Inr signature \<Rightarrow> Ok (tx\<lparr>Sig := Some signature\<rparr>, Some signature))
      = Ok (tx', s)"
    using assms unfolding Sign_def Let_def res_bind_Ok_iff by blast
  then show ?thesis by (cases r) auto
qed

lemma Sign_success:
  assumes "rsa_sign H k (bytes_of (Info_GetHash H (Info tx))) = Ok (Inr s)"
  shows "Sign H tx k = Ok (tx\<lparr>Sig := Some s\<rparr>, Some s)"
  using assms by (simp add: Sign_def)

lemma Sign_panics: "Sign H tx k = Panic p \<longleftrightarrow> rsa_sign H k (bytes_of (Info_GetHash H (Info tx))) = Panic p"
proof -
  have "(case r of Inl err \<Rightarrow> Ok (tx, None) | Inr signature \<Rightarrow> Ok (tx\<lparr>Sig := Some signature\<rparr>, Some signature)) \<noteq> Panic p"
    for r :: "error + string" by (cases r) simp_all
  then show ?thesis by (simp add: Sign_def Let_def res_simps)
qed

text \<open>The documented law of the signature scheme: what a key signs verifies with its public part.\<close>

definition signs :: "crypto \<Rightarrow> PrivateKey \<Rightarrow> bool" where
  "signs H k \<longleftrightarrow> (\<exists>n. N (Public k) = Some n \<and> (\<forall>d. \<exists>s. SignPKCS1v15 H k d = Ok (Inr s)
     \<and> VerifyPKCS1v15 H n (E (Public k)) d s))"

lemma Sign_verifies:
  assumes "signs H k" "Pubkey (Info tx) = Public k"
  obtains s where "Sign H tx k = Ok (tx\<lparr>Sig := Some s\<rparr>, Some s)" "VerifySignature H (tx\<lparr>Sig := Some s\<rparr>) = Ok True"
proof -
  let ?d = "bytes_of (Info_GetHash H (Info tx))"
  obtain n s where s: "N (Public k) = Some n" "SignPKCS1v15 H k ?d = Ok (Inr s)"
    "VerifyPKCS1v15 H n (E (Public k)) ?d s"
    using assms(1) unfolding signs_def by metis
  have "rsa_sign H k ?d = Ok (Inr s)" using s(1,2) by (simp add: rsa_sign_def)
  from Sign_success [OF this] show thesis
    by (rule that) (use s assms(2) in \<open>simp_all add: VerifySignature_def bytes_of_def\<close>)
qed

section \<open>Display\<close>

definition newline :: string where
  "newline = [CHR 0x0A]"

definition tab :: string where
  "tab = [CHR 0x09]"

text \<open>
  The signature is printed with \<open>%x\<close> on its hexadecimal string, so each of its bytes shows
  as four digits.
\<close>

definition Tx_ToString :: "Transaction \<Rightarrow> string" where
  "Tx_ToString tran =
     (let t = Info tran;
          info = ''from : '' @ From t @ newline @ ''nonce: '' @ decimal (unat (Info_Nonce t)) @ newline
            @ ''pubkey: '' @ newline @ tab @ ''N: '' @ format_bigptr (N (Pubkey t)) @ newline
            @ tab @ ''E: '' @ hexadecimal_int (E (Pubkey t)) @ newline
            @ ''fee: '' @ decimal (unat (Fee t)) @ newline;
          outputs = ''outputs: ['' @ newline
            @ concat (map (\<lambda>v. tab @ ''{address: '' @ Out_Address v @ '' amount: ''
                @ decimal (unat (Out_Amount v)) @ ''}'' @ newline) (elems (Outputs t)))
            @ '']'' @ newline;
          data = ''data: '' @ hex_encode (bytes_of (Data t)) @ newline
            @ ''sig:'' @ hex_encode (hex_encode (bytes_of (Sig tran)))
      in info @ outputs @ data)"

end
