(* ===== verification/Block.thy ===== *)
theory Block
  imports Transaction
begin

text \<open>
  \<open>blockchain/block.go\<close>: blocks, their tables of balances, nonces and transactions, the
  block hash and proof of work, and the two operations that change a block's ledger,
  \<open>AddTransaction\<close> and \<open>Rerun\<close>. Blocks are values: \<open>NewBlock\<close> and \<open>Rerun\<close> copy the slices
  they take from the previous block, and no operation changes a block another one holds.
\<close>

section \<open>Data\<close>

record TransactionType =
  Tx_id :: string
  Tx :: Transaction

record NextNonceType =
  Nonce_id :: string
  Nonce :: u32

record BalanceType =
  Balance_id :: string
  Balance :: u32

record Block =
  PrevBlockHash :: string
  Target :: int
  Proof :: u32
  Balances :: "BalanceType slice"
  NextNonce :: "NextNonceType slice"
  Transactions :: "TransactionType slice"
  ChainLength :: u32
  Timestamp :: go_time
  RewardAddr :: string
  CoinbaseReward :: u32

section \<open>Serialisation and hash\<close>

definition json_transaction_type :: "TransactionType \<Rightarrow> json" where
  "json_transaction_type v =
     JObj [(''Id'', JStr (Tx_id v)), (''Tx'', json_transaction (Tx v))]"

definition json_next_nonce :: "NextNonceType \<Rightarrow> json" where
  "json_next_nonce v = JObj [(''Id'', JStr (Nonce_id v)), (''Nonce'', json_u32 (Nonce v))]"

definition json_balance :: "BalanceType \<Rightarrow> json" where
  "json_balance v = JObj [(''Id'', JStr (Balance_id v)), (''Balance'', json_u32 (Balance v))]"

definition json_block :: "Block \<Rightarrow> error + json" where
  "json_block b =
     (case json_time (Timestamp b) of
        Inl err \<Rightarrow> Inl err
      | Inr stamp \<Rightarrow> Inr (JObj
          [(''PrevBlockHash'', JStr (PrevBlockHash b)), (''Target'', JInt (Target b)),
           (''Proof'', json_u32 (Proof b)),
           (''Balances'', json_slice json_balance (Balances b)),
           (''NextNonce'', json_slice json_next_nonce (NextNonce b)),
           (''Transactions'', json_slice json_transaction_type (Transactions b)),
           (''ChainLength'', json_u32 (ChainLength b)), (''Timestamp'', stamp),
           (''RewardAddr'', JStr (RewardAddr b)),
           (''CoinbaseReward'', json_u32 (CoinbaseReward b))]))"

definition BlockToBytes :: "Block \<Rightarrow> error + string" where
  "BlockToBytes block =
     (case json_block block of Inl err \<Rightarrow> Inl err | Inr data \<Rightarrow> Inr (render data))"

text \<open>The decoders, and the zero values they start from (the zero \<open>time.Time\<close> is in the year 1).\<close>

definition zero_transaction_type :: TransactionType where
  "zero_transaction_type = \<lparr>Tx_id = [], Tx = zero_transaction\<rparr>"

definition zero_next_nonce :: NextNonceType where
  "zero_next_nonce = \<lparr>Nonce_id = [], Nonce = 0\<rparr>"

definition zero_balance :: BalanceType where
  "zero_balance = \<lparr>Balance_id = [], Balance = 0\<rparr>"

definition zero_time :: go_time where
  "zero_time = \<lparr>t_year = 1, t_month = 1, t_day = 1, t_hour = 0, t_minute = 0, t_second = 0,
     t_nanosecond = 0, t_offset = 0\<rparr>"

definition zero_block :: Block where
  "zero_block = \<lparr>PrevBlockHash = [], Target = 0, Proof = 0, Balances = None, NextNonce = None,
     Transactions = None, ChainLength = 0, Timestamp = zero_time, RewardAddr = [], CoinbaseReward = 0\<rparr>"

definition decode_transaction_type :: "TransactionType decoder" where
  "decode_transaction_type = decode_struct
     [field ''Id'' decode_string Tx_id (\<lambda>x. Tx_id_update (\<lambda>_. x)),
      field ''Tx'' decode_transaction Tx (\<lambda>x. Tx_update (\<lambda>_. x))]"

definition decode_next_nonce :: "NextNonceType decoder" where
  "decode_next_nonce = decode_struct
     [field ''Id'' decode_string Nonce_id (\<lambda>x. Nonce_id_update (\<lambda>_. x)),
      field ''Nonce'' decode_u32 Nonce (\<lambda>x. Nonce_update (\<lambda>_. x))]"

definition decode_balance :: "BalanceType decoder" where
  "decode_balance = decode_struct
     [field ''Id'' decode_string Balance_id (\<lambda>x. Balance_id_update (\<lambda>_. x)),
      field ''Balance'' decode_u32 Balance (\<lambda>x. Balance_update (\<lambda>_. x))]"

definition decode_block :: "Block decoder" where
  "decode_block = decode_struct
     [field ''PrevBlockHash'' decode_string PrevBlockHash (\<lambda>x. PrevBlockHash_update (\<lambda>_. x)),
      field ''Target'' decode_bigint Target (\<lambda>x. Target_update (\<lambda>_. x)),
      field ''Proof'' decode_u32 Proof (\<lambda>x. Proof_update (\<lambda>_. x)),
      field ''Balances'' (decode_slice decode_balance zero_balance) Balances (\<lambda>x. Balances_update (\<lambda>_. x)),
      field ''NextNonce'' (decode_slice decode_next_nonce zero_next_nonce) NextNonce (\<lambda>x. NextNonce_update (\<lambda>_. x)),
      field ''Transactions'' (decode_slice decode_transaction_type zero_transaction_type) Transactions
        (\<lambda>x. Transactions_update (\<lambda>_. x)),
      field ''ChainLength'' decode_u32 ChainLength (\<lambda>x. ChainLength_update (\<lambda>_. x)),
      field ''Timestamp'' decode_time Timestamp (\<lambda>x. Timestamp_update (\<lambda>_. x)),
      field ''RewardAddr'' decode_string RewardAddr (\<lambda>x. RewardAddr_update (\<lambda>_. x)),
      field ''CoinbaseReward'' decode_u32 CoinbaseReward (\<lambda>x. CoinbaseReward_update (\<lambda>_. x))]"

definition BytesToBlock :: "string \<Rightarrow> error + Block" where
  "BytesToBlock data = Unmarshal decode_block zero_block data"

definition block4hash :: "Block \<Rightarrow> Block" where
  "block4hash block = block\<lparr>Balances := None, NextNonce := None\<rparr>"

definition GetHash :: "crypto \<Rightarrow> Block \<Rightarrow> error + string" where
  "GetHash H block =
     (case BlockToBytes (block4hash block) of
        Inl err \<Rightarrow> Inl err
      | Inr blockData \<Rightarrow> Inr (hex_encode (Sum256 H blockData)))"

definition GetHashStr :: "crypto \<Rightarrow> Block \<Rightarrow> string" where
  "GetHashStr H block =
     (case BlockToBytes (block4hash block) of
        Inl err \<Rightarrow> []
      | Inr blockData \<Rightarrow> hex_encode (Sum256 H blockData))"

definition IsGenesisBlock :: "Block \<Rightarrow> bool" where
  "IsGenesisBlock block \<longleftrightarrow> ChainLength block = 0"

definition hasValidProof :: "crypto \<Rightarrow> Block \<Rightarrow> bool" where
  "hasValidProof H block =
     (case BlockToBytes (block4hash block) of
        Inl err \<Rightarrow> False
      | Inr data \<Rightarrow> set_bytes (Sum256 H data) < Target block)"

section \<open>Searching the tables\<close>

definition FindTransactionIndex :: "Block \<Rightarrow> string \<Rightarrow> int" where
  "FindTransactionIndex block k = find_index_from 0 Tx_id k (elems (Transactions block))"

definition FindNextNonceIndex :: "Block \<Rightarrow> string \<Rightarrow> int" where
  "FindNextNonceIndex block k = find_index_from 0 Nonce_id k (elems (NextNonce block))"

definition FindBalanceIndex :: "Block \<Rightarrow> string \<Rightarrow> int" where
  "FindBalanceIndex block k = find_index_from 0 Balance_id k (elems (Balances block))"

definition BalanceOf :: "Block \<Rightarrow> string \<Rightarrow> u32" where
  "BalanceOf block address =
     (let index = FindBalanceIndex block address
      in if index > -1 then Balance (elems (Balances block) ! nat index) else 0)"

definition SufficientFund :: "Block \<Rightarrow> Transaction \<Rightarrow> bool" where
  "SufficientFund block tx \<longleftrightarrow> TotalOutput tx \<le> BalanceOf block (From (Info tx))"

definition Contains :: "crypto \<Rightarrow> Block \<Rightarrow> Transaction \<Rightarrow> bool" where
  "Contains H block tx \<longleftrightarrow> FindTransactionIndex block (Tx_Id H tx) > -1"

definition TotalRewards :: "Block \<Rightarrow> u32" where
  "TotalRewards block =
     foldl (\<lambda>total v. total + Fee (Info (Tx v))) 0 (elems (Transactions block))
     + CoinbaseReward block"

section \<open>Construction\<close>

definition copy_slice :: "'a slice \<Rightarrow> 'a slice" where
  "copy_slice s = append_slice (Some []) (elems s)"

text \<open>
  \<open>now\<close> is what \<open>time.Now()\<close> returns. The result is \<open>None\<close> (a nil pointer) when the
  previous block cannot be hashed.
\<close>

definition NewBlock ::
  "crypto \<Rightarrow> go_time \<Rightarrow> string \<Rightarrow> Block option \<Rightarrow> int \<Rightarrow> u32 \<Rightarrow> Block option" where
  "NewBlock H now rewardAddr prevBlock target coinbaseReward =
     (let block = (\<lambda>prevHash. \<lparr>PrevBlockHash = prevHash, Target = target, Proof = 0,
            Balances = (case prevBlock of None \<Rightarrow> Some [] | Some p \<Rightarrow> copy_slice (Balances p)),
            NextNonce = (case prevBlock of None \<Rightarrow> Some [] | Some p \<Rightarrow> copy_slice (NextNonce p)),
            Transactions = Some [],
            ChainLength = (case prevBlock of None \<Rightarrow> 0 | Some p \<Rightarrow> ChainLength p + 1),
            Timestamp = now, RewardAddr = rewardAddr, CoinbaseReward = coinbaseReward\<rparr>)
      in case prevBlock of
           None \<Rightarrow> Some (block [])
         | Some p \<Rightarrow> (case GetHash H p of Inl err \<Rightarrow> None | Inr h \<Rightarrow> Some (block h)))"

section \<open>Adding a transaction\<close>

definition set_balance :: "Block \<Rightarrow> int \<Rightarrow> u32 \<Rightarrow> Block res" where
  "set_balance block i v =
     (let rows = elems (Balances block)
      in if 0 \<le> i \<and> i < int (length rows)
         then Ok (block\<lparr>Balances := Some (rows[nat i := (rows ! nat i)\<lparr>Balance := v\<rparr>])\<rparr>)
         else Panic IndexRange)"

definition set_nonce :: "Block \<Rightarrow> int \<Rightarrow> u32 \<Rightarrow> Block res" where
  "set_nonce block i v =
     (let rows = elems (NextNonce block)
      in if 0 \<le> i \<and> i < int (length rows)
         then Ok (block\<lparr>NextNonce := Some (rows[nat i := (rows ! nat i)\<lparr>Nonce := v\<rparr>])\<rparr>)
         else Panic IndexRange)"

text \<open>The sender's row of the nonce table, appended with nonce 0 when there is none.\<close>

definition nonce_row :: "Block \<Rightarrow> string \<Rightarrow> Block \<times> int" where
  "nonce_row block from =
     (let nextNonceIndex = FindNextNonceIndex block from
      in if nextNonceIndex = -1
         then (let block' = block\<lparr>NextNonce :=
                 append_slice (NextNonce block) [\<lparr>Nonce_id = from, Nonce = 0\<rparr>]\<rparr>
               in (block', int (length (elems (NextNonce block'))) - 1))
         else (block, nextNonceIndex))"

definition credit :: "Block \<Rightarrow> Output \<Rightarrow> Block res" where
  "credit block output =
     (let oldBalance = BalanceOf block (Out_Address output);
          oldBalanceId = FindBalanceIndex block (Out_Address output)
      in if oldBalanceId = -1
         then Ok (block\<lparr>Balances := append_slice (Balances block)
                [\<lparr>Balance_id = Out_Address output,
                  Balance = oldBalance + Out_Amount output\<rparr>]\<rparr>)
         else set_balance block oldBalanceId (oldBalance + Out_Amount output))"

fun credit_all :: "Block \<Rightarrow> Output list \<Rightarrow> Block res" where
  "credit_all block [] = Ok block"
| "credit_all block (output # outputs) =
     res_bind (credit block output) (\<lambda>block'. credit_all block' outputs)"

text \<open>From the accepted nonce to the end of \<open>AddTransaction\<close>.\<close>

definition book :: "crypto \<Rightarrow> Block \<Rightarrow> int \<Rightarrow> u32 \<Rightarrow> Transaction \<Rightarrow> Block res" where
  "book H block nextNonceIndex expectedNonce tx =
     res_bind (set_nonce block nextNonceIndex (expectedNonce + 1)) (\<lambda>b1.
       let b2 = b1\<lparr>Transactions := append_slice (Transactions b1)
                     [\<lparr>Tx_id = Tx_Id H tx, Tx = tx\<rparr>]\<rparr>;
           senderBalance = BalanceOf b2 (From (Info tx));
           senderBalanceIndex = FindBalanceIndex b2 (From (Info tx))
       in res_bind (set_balance b2 senderBalanceIndex (senderBalance - TotalOutput tx))
            (\<lambda>b3. credit_all b3 (tx_outputs tx)))"

definition AddTransaction :: "crypto \<Rightarrow> Block \<Rightarrow> Transaction \<Rightarrow> (Block \<times> bool) res" where
  "AddTransaction H block tx =
     (if Contains H block tx then Ok (block, False)
      else if Sig tx = None then Ok (block, False)
      else res_bind (VerifySignature H tx) (\<lambda>verified.
        if \<not> verified then Ok (block, False)
        else if \<not> SufficientFund block tx then Ok (block, False)
        else
          (let (b, nextNonceIndex) = nonce_row block (From (Info tx));
               expectedNonce = Nonce (elems (NextNonce b) ! nat nextNonceIndex)
           in if expectedNonce > Info_Nonce (Info tx) then Ok (b, False)
              else if expectedNonce < Info_Nonce (Info tx) then Ok (b, False)
              else res_bind (book H b nextNonceIndex expectedNonce tx)
                     (\<lambda>b'. Ok (b', True)))))"

section \<open>Re-running a block on its predecessor\<close>

fun Rerun_loop :: "crypto \<Rightarrow> Block \<Rightarrow> TransactionType list \<Rightarrow> (Block \<times> bool) res" where
  "Rerun_loop H block [] = Ok (block, True)"
| "Rerun_loop H block (v # vs) =
     res_bind (AddTransaction H block (Tx v)) (\<lambda>(block', added).
       if \<not> added then Ok (block', False) else Rerun_loop H block' vs)"

text \<open>The reward of the previous block is paid when its successor is run.\<close>

definition pay_reward :: "Block \<Rightarrow> Block \<Rightarrow> Block res" where
  "pay_reward block prevBlock =
     (if RewardAddr prevBlock \<noteq> [] then
        (let winnerBalance = BalanceOf prevBlock (RewardAddr prevBlock);
             index = FindBalanceIndex block (RewardAddr prevBlock)
         in if index = -1
            then Ok (block\<lparr>Balances := append_slice (Balances block)
                   [\<lparr>Balance_id = RewardAddr prevBlock,
                     Balance = winnerBalance + CoinbaseReward prevBlock\<rparr>]\<rparr>)
            else set_balance block index (winnerBalance + CoinbaseReward prevBlock))
      else Ok block)"

definition Rerun :: "crypto \<Rightarrow> Block \<Rightarrow> Block option \<Rightarrow> (Block \<times> bool) res" where
  "Rerun H block prevBlock =
     (case prevBlock of
        None \<Rightarrow> Ok (block, False)
      | Some prev \<Rightarrow>
          res_bind (pay_reward (block\<lparr>Balances := copy_slice (Balances prev),
                                      NextNonce := copy_slice (NextNonce prev)\<rparr>) prev)
            (\<lambda>b. Rerun_loop H (b\<lparr>Transactions := Some []\<rparr>) (elems (Transactions block))))"

section \<open>When a block can be hashed\<close>

lemma BlockToBytes_defined:
  "json_time (Timestamp b) = Inr t \<Longrightarrow> \<exists>data. BlockToBytes (block4hash b) = Inr data"
  by (simp add: BlockToBytes_def json_block_def block4hash_def del: render.simps)

lemma GetHashStr_GetHash: "GetHash H b = Inr h \<Longrightarrow> GetHashStr H b = h"
  by (simp add: GetHash_def GetHashStr_def split: sum.splits)

end
