(* ===== verification/Ledger.thy ===== *)
theory Ledger
  imports Block
begin

text \<open>
  What a block's tables mean: an abstract ledger of balances, next nonces and transaction
  identities, its transition for an accepted transaction, and the refinement lemmas that
  \<open>AddTransaction\<close>, \<open>pay_reward\<close> and \<open>Rerun\<close> of \<open>blockchain/block.go\<close> compute it. The total
  gold of a block is followed beside the ledger.
\<close>

section \<open>The abstract ledger\<close>

record ledger =
  led_balance :: "string \<Rightarrow> u32"
  led_nonce :: "string \<Rightarrow> u32"
  led_ids :: "string set"

definition NonceOf :: "Block \<Rightarrow> string \<Rightarrow> u32" where
  "NonceOf b k =
     (case List.find (\<lambda>r. Nonce_id r = k) (elems (NextNonce b)) of None \<Rightarrow> 0 | Some r \<Rightarrow> Nonce r)"

definition ledger_of :: "Block \<Rightarrow> ledger" where
  "ledger_of b = \<lparr>led_balance = BalanceOf b, led_nonce = NonceOf b,
                  led_ids = Tx_id ` set (elems (Transactions b))\<rparr>"

definition gold :: "Block \<Rightarrow> nat" where
  "gold b = nat_sum (map Balance (elems (Balances b)))"

text \<open>Everything of a block but its three tables.\<close>

definition header :: "Block \<Rightarrow> Block" where
  "header b = b\<lparr>Balances := None, NextNonce := None, Transactions := None\<rparr>"

lemma header_fields:
  assumes "header b = header c"
  shows "PrevBlockHash b = PrevBlockHash c" "Target b = Target c" "Proof b = Proof c"
    "ChainLength b = ChainLength c" "Timestamp b = Timestamp c" "RewardAddr b = RewardAddr c"
    "CoinbaseReward b = CoinbaseReward c"
  using assms by (cases b; cases c; simp add: header_def)+

lemma header_update [simp]:
  "header (b\<lparr>Balances := x\<rparr>) = header b" "header (b\<lparr>NextNonce := y\<rparr>) = header b"
  "header (b\<lparr>Transactions := z\<rparr>) = header b"
  by (simp_all add: header_def)

text \<open>The meaning of an accepted transaction.\<close>

definition pay_to :: "(string \<Rightarrow> u32) \<Rightarrow> Output \<Rightarrow> string \<Rightarrow> u32" where
  "pay_to f v = f(Out_Address v := f (Out_Address v) + Out_Amount v)"

definition spec_accepts :: "crypto \<Rightarrow> ledger \<Rightarrow> Transaction \<Rightarrow> bool" where
  "spec_accepts H L tx \<longleftrightarrow>
     Tx_Id H tx \<notin> led_ids L \<and> Sig tx \<noteq> None \<and> VerifySignature H tx = Ok True
     \<and> TotalOutput tx \<le> led_balance L (From (Info tx))
     \<and> Info_Nonce (Info tx) = led_nonce L (From (Info tx))"

definition spec_apply :: "crypto \<Rightarrow> ledger \<Rightarrow> Transaction \<Rightarrow> ledger" where
  "spec_apply H L tx =
     (let from = From (Info tx)
      in \<lparr>led_balance = foldl pay_to
            ((led_balance L)(from := led_balance L from - TotalOutput tx)) (tx_outputs tx),
          led_nonce = (led_nonce L)(from := led_nonce L from + 1),
          led_ids = insert (Tx_Id H tx) (led_ids L)\<rparr>)"

lemma foldl_pay_to_other:
  "k \<notin> Out_Address ` set vs \<Longrightarrow> foldl pay_to f vs k = f k"
  by (induction vs arbitrary: f) (auto simp: pay_to_def)

section \<open>The tables\<close>

lemma BalanceOf_find:
  "BalanceOf b k =
     (case List.find (\<lambda>r. Balance_id r = k) (elems (Balances b)) of None \<Rightarrow> 0 | Some r \<Rightarrow> Balance r)"
  by (rule find_index_cases [of Balance_id k "elems (Balances b)"])
     (simp_all add: BalanceOf_def FindBalanceIndex_def)

lemma Contains_ids: "Contains H b tx \<longleftrightarrow> Tx_Id H tx \<in> Tx_id ` set (elems (Transactions b))"
  by (simp add: Contains_def FindTransactionIndex_def find_index_present)

lemma FindBalanceIndex_missing:
  "FindBalanceIndex b k = -1 \<longleftrightarrow> k \<notin> Balance_id ` set (elems (Balances b))"
  by (simp add: FindBalanceIndex_def find_index_from_missing)

lemma BalanceOf_Balances: "Balances b = Balances c \<Longrightarrow> BalanceOf b = BalanceOf c"
  by (simp add: BalanceOf_find fun_eq_iff)

lemma balance_le_gold: "unat (BalanceOf b k) \<le> gold b"
proof (cases "List.find (\<lambda>r. Balance_id r = k) (elems (Balances b))")
  case None
  then show ?thesis by (simp add: BalanceOf_find)
next
  case (Some r)
  then have "r \<in> set (elems (Balances b))" by (auto simp: find_Some_iff)
  then show ?thesis
    using Some nat_sum_member [of "Balance r"] by (simp add: BalanceOf_find gold_def)
qed

lemma two_balances_le_gold:
  assumes "j \<noteq> k"
  shows "unat (BalanceOf b j) + unat (BalanceOf b k) \<le> gold b"
proof -
  let ?v = "\<lambda>k rows. case List.find (\<lambda>r. Balance_id r = k) rows of None \<Rightarrow> 0 | Some r \<Rightarrow> unat (Balance r)"
  have one: "?v k rows \<le> nat_sum (map Balance rows)" for k rows
    by (induction rows) auto
  have "?v j rows + ?v k rows \<le> nat_sum (map Balance rows)" for rows
  proof (induction rows)
    case Nil
    then show ?case by simp
  next
    case (Cons r rows)
    then show ?case using assms one [of j rows] one [of k rows] by auto
  qed
  from this [of "elems (Balances b)"] show ?thesis
    by (simp add: BalanceOf_find gold_def split: option.splits)
qed

text \<open>Writing a balance at the index the search returned.\<close>

lemma set_balance_found:
  assumes "FindBalanceIndex b k \<noteq> -1"
  obtains b' where "set_balance b (FindBalanceIndex b k) v = Ok b'"
    "BalanceOf b' = (BalanceOf b)(k := v)"
    "gold b' + unat (BalanceOf b k) = gold b + unat v"
    "Balance_id ` set (elems (Balances b')) = Balance_id ` set (elems (Balances b))"
    "NextNonce b' = NextNonce b" "Transactions b' = Transactions b" "header b' = header b"
proof (rule find_index_cases [of Balance_id k "elems (Balances b)"])
  assume "find_index_from 0 Balance_id k (elems (Balances b)) = -1"
  then show thesis using assms by (simp add: FindBalanceIndex_def)
next
  fix n
  let ?rows = "elems (Balances b)" and ?r = "(elems (Balances b) ! n)\<lparr>Balance := v\<rparr>"
  let ?b = "b\<lparr>Balances := Some (?rows[n := ?r])\<rparr>"
  assume n: "n < length ?rows" "find_index_from 0 Balance_id k ?rows = int n"
    "Balance_id (?rows ! n) = k" "\<forall>j < n. Balance_id (?rows ! j) \<noteq> k"
    "List.find (\<lambda>r. Balance_id r = k) ?rows = Some (?rows ! n)"
  have "BalanceOf ?b = (BalanceOf b)(k := v)"
    using n find_update_row [of n ?rows Balance_id k ?r]
    by (simp add: BalanceOf_find fun_eq_iff)
  moreover have "gold ?b + unat (BalanceOf b k) = gold b + unat v"
    using n nat_sum_update [of n "map Balance ?rows" v]
    by (simp add: gold_def BalanceOf_find map_update)
  moreover have "map Balance_id (?rows[n := ?r]) = map Balance_id ?rows"
    using n by (simp add: map_update list_update_same_conv)
  then have "Balance_id ` set (?rows[n := ?r]) = Balance_id ` set ?rows"
    by (metis list.set_map)
  ultimately show thesis
    using that [of ?b] n by (simp add: set_balance_def FindBalanceIndex_def Let_def)
qed

lemma append_balance:
  assumes "FindBalanceIndex b k = -1"
  shows "BalanceOf (b\<lparr>Balances := append_slice (Balances b) [\<lparr>Balance_id = k, Balance = v\<rparr>]\<rparr>) =
      (BalanceOf b)(k := v)"
    and "BalanceOf b k = 0"
    and "gold (b\<lparr>Balances := append_slice (Balances b) [\<lparr>Balance_id = k, Balance = v\<rparr>]\<rparr>) =
      gold b + unat v"
proof -
  have "List.find (\<lambda>r. Balance_id r = k) (elems (Balances b)) = None"
    using assms by (auto simp: FindBalanceIndex_missing find_None_iff)
  then show "BalanceOf b k = 0"
    and "BalanceOf (b\<lparr>Balances := append_slice (Balances b) [\<lparr>Balance_id = k, Balance = v\<rparr>]\<rparr>) =
      (BalanceOf b)(k := v)"
    by (auto simp: BalanceOf_find find_append fun_eq_iff split: option.splits)
qed (simp add: gold_def)

section \<open>Crediting outputs\<close>

lemma credit_effect:
  obtains b' where "credit b v = Ok b'" "BalanceOf b' = pay_to (BalanceOf b) v"
    "gold b' + unat (BalanceOf b (Out_Address v)) =
       gold b + unat (BalanceOf b (Out_Address v) + Out_Amount v)"
    "Balance_id ` set (elems (Balances b')) =
       insert (Out_Address v) (Balance_id ` set (elems (Balances b)))"
    "NextNonce b' = NextNonce b" "Transactions b' = Transactions b" "header b' = header b"
proof (cases "FindBalanceIndex b (Out_Address v) = -1")
  case True
  show ?thesis
    by (rule that [of "b\<lparr>Balances := append_slice (Balances b) [\<lparr>Balance_id = Out_Address v,
          Balance = BalanceOf b (Out_Address v) + Out_Amount v\<rparr>]\<rparr>"])
       (use True in \<open>simp_all add: credit_def pay_to_def append_balance\<close>)
next
  case False
  have k: "Out_Address v \<in> Balance_id ` set (elems (Balances b))"
    using False by (simp add: FindBalanceIndex_missing)
  obtain b' where b': "set_balance b (FindBalanceIndex b (Out_Address v))
      (BalanceOf b (Out_Address v) + Out_Amount v) = Ok b'"
    "BalanceOf b' = (BalanceOf b)(Out_Address v := BalanceOf b (Out_Address v) + Out_Amount v)"
    "gold b' + unat (BalanceOf b (Out_Address v)) =
       gold b + unat (BalanceOf b (Out_Address v) + Out_Amount v)"
    "Balance_id ` set (elems (Balances b')) = Balance_id ` set (elems (Balances b))"
    "NextNonce b' = NextNonce b" "Transactions b' = Transactions b" "header b' = header b"
    by (rule set_balance_found [OF False])
  with False k show ?thesis
    by (intro that [of b']) (simp_all add: credit_def pay_to_def insert_absorb)
qed

lemma credit_all_effect:
  obtains b' where "credit_all b vs = Ok b'" "BalanceOf b' = foldl pay_to (BalanceOf b) vs"
    "Balance_id ` set (elems (Balances b')) =
       Balance_id ` set (elems (Balances b)) \<union> Out_Address ` set vs"
    "NextNonce b' = NextNonce b" "Transactions b' = Transactions b" "header b' = header b"
proof -
  have "\<exists>b'. credit_all b vs = Ok b' \<and> BalanceOf b' = foldl pay_to (BalanceOf b) vs
    \<and> Balance_id ` set (elems (Balances b')) =
       Balance_id ` set (elems (Balances b)) \<union> Out_Address ` set vs
    \<and> NextNonce b' = NextNonce b \<and> Transactions b' = Transactions b \<and> header b' = header b"
  proof (induction vs arbitrary: b)
    case Nil
    then show ?case by simp
  next
    case (Cons v vs)
    obtain b1 where b1: "credit b v = Ok b1" "BalanceOf b1 = pay_to (BalanceOf b) v"
      "Balance_id ` set (elems (Balances b1)) =
         insert (Out_Address v) (Balance_id ` set (elems (Balances b)))"
      "NextNonce b1 = NextNonce b" "Transactions b1 = Transactions b" "header b1 = header b"
      by (rule credit_effect)
    then show ?case using Cons.IH [of b1] by auto
  qed
  then show thesis using that by blast
qed

text \<open>While no balance reaches the width, crediting adds exactly the amounts.\<close>

definition received :: "string \<Rightarrow> Output list \<Rightarrow> nat" where
  "received k vs = nat_sum (map Out_Amount (filter (\<lambda>v. Out_Address v = k) vs))"

definition fits :: "(string \<Rightarrow> u32) \<Rightarrow> Output list \<Rightarrow> bool" where
  "fits f vs \<longleftrightarrow> (\<forall>k. unat (f k) + received k vs < 2 ^ 32)"

lemma received_le: "received k vs \<le> nat_sum (map Out_Amount vs)"
  by (induction vs) (auto simp: received_def)

lemma fits_Cons:
  assumes "fits f (v # vs)"
  shows "unat (f (Out_Address v)) + unat (Out_Amount v) < 2 ^ 32" "fits (pay_to f v) vs"
proof -
  have all: "unat (f k) + received k (v # vs) < 2 ^ 32" for k using assms by (simp add: fits_def)
  show one: "unat (f (Out_Address v)) + unat (Out_Amount v) < 2 ^ 32"
    using all [of "Out_Address v"] by (simp add: received_def)
  have "unat (pay_to f v k) + received k vs < 2 ^ 32" for k
    using all [of k] one by (simp add: received_def pay_to_def unat_u32_plus split: if_splits)
  then show "fits (pay_to f v) vs" by (simp add: fits_def)
qed

lemma credit_gold:
  assumes "credit b v = Ok b'" "unat (BalanceOf b (Out_Address v)) + unat (Out_Amount v) < 2 ^ 32"
  shows "gold b' = gold b + unat (Out_Amount v)"
proof -
  have "unat (BalanceOf b (Out_Address v) + Out_Amount v) =
      unat (BalanceOf b (Out_Address v)) + unat (Out_Amount v)"
    using assms(2) by (intro unat_u32_plus) simp
  moreover obtain b1 where "credit b v = Ok b1"
    "gold b1 + unat (BalanceOf b (Out_Address v)) =
       gold b + unat (BalanceOf b (Out_Address v) + Out_Amount v)"
    by (rule credit_effect)
  ultimately show ?thesis using assms(1) by simp
qed

lemma credit_all_gold:
  assumes "credit_all b vs = Ok b'" "fits (BalanceOf b) vs"
  shows "gold b' = gold b + nat_sum (map Out_Amount vs)"
  using assms
proof (induction vs arbitrary: b)
  case Nil
  then show ?case by simp
next
  case (Cons v vs)
  then obtain b1 where b1: "credit b v = Ok b1" "credit_all b1 vs = Ok b'"
    by (auto simp: res_simps)
  then have "gold b1 = gold b + unat (Out_Amount v)"
    using fits_Cons(1) [OF Cons.prems(2)] by (intro credit_gold)
  moreover have "BalanceOf b1 = pay_to (BalanceOf b) v" using credit_effect [of b v] b1(1) by (metis res.inject(1))
  ultimately show ?case using Cons.IH [OF b1(2)] fits_Cons(2) [OF Cons.prems(2)] by simp
qed

text \<open>The balances when the total has been taken from the sender.\<close>

definition debited :: "Block \<Rightarrow> Transaction \<Rightarrow> string \<Rightarrow> u32" where
  "debited b tx = (BalanceOf b)(From (Info tx) := BalanceOf b (From (Info tx)) - TotalOutput tx)"

lemma no_overflow_fits:
  assumes "gold b < 2 ^ 32" "no_overflow tx" "TotalOutput tx \<le> BalanceOf b (From (Info tx))"
  shows "fits (debited b tx) (tx_outputs tx)"
proof -
  let ?from = "From (Info tx)"
  have paid: "nat_sum (map Out_Amount (tx_outputs tx)) \<le> unat (TotalOutput tx)"
    using assms(2) by (simp add: unat_TotalOutput_exact total_nat_def)
  have le: "unat (TotalOutput tx) \<le> unat (BalanceOf b ?from)" using assms(3) by (simp add: word_le_nat_alt)
  have "unat (debited b tx k) + received k (tx_outputs tx) < 2 ^ 32" for k
  proof (cases "k = ?from")
    case True
    then show ?thesis
      using received_le [of k "tx_outputs tx"] paid le unat_u32_less [of "BalanceOf b ?from"] assms(3)
      by (simp add: debited_def unat_u32_minus del: unat_u32_less)
  next
    case False
    then show ?thesis
      using two_balances_le_gold [OF False, of b] received_le [of k "tx_outputs tx"] paid le assms(1)
      by (simp add: debited_def)
  qed
  then show ?thesis by (simp add: fits_def)
qed

section \<open>The nonce table\<close>

lemma NonceOf_NextNonce: "NextNonce b = NextNonce c \<Longrightarrow> NonceOf b = NonceOf c"
  by (simp add: NonceOf_def fun_eq_iff)

lemma nonce_row_effect:
  obtains b' n where "nonce_row b k = (b', int n)" "n < length (elems (NextNonce b'))"
    "Nonce_id (elems (NextNonce b') ! n) = k"
    "\<forall>j < n. Nonce_id (elems (NextNonce b') ! j) \<noteq> k"
    "Nonce (elems (NextNonce b') ! n) = NonceOf b k" "NonceOf b' = NonceOf b"
    "Balances b' = Balances b" "Transactions b' = Transactions b" "header b' = header b"
proof (rule find_index_cases [of Nonce_id k "elems (NextNonce b)"])
  let ?rows = "elems (NextNonce b)"
  let ?b = "b\<lparr>NextNonce := append_slice (NextNonce b) [\<lparr>Nonce_id = k, Nonce = 0\<rparr>]\<rparr>"
  assume m: "find_index_from 0 Nonce_id k ?rows = -1"
    "List.find (\<lambda>r. Nonce_id r = k) ?rows = None" "k \<notin> Nonce_id ` set ?rows"
  have "NonceOf ?b = NonceOf b"
    using m by (auto simp: NonceOf_def find_append fun_eq_iff split: option.splits)
  moreover have "\<forall>j < length ?rows. Nonce_id ((?rows @ [\<lparr>Nonce_id = k, Nonce = 0\<rparr>]) ! j) \<noteq> k"
    using m by (force simp: nth_append)
  ultimately show thesis
    using that [of ?b "length ?rows"] m
    by (simp add: nonce_row_def FindNextNonceIndex_def NonceOf_def)
next
  fix n
  assume "n < length (elems (NextNonce b))"
    "find_index_from 0 Nonce_id k (elems (NextNonce b)) = int n"
    "Nonce_id (elems (NextNonce b) ! n) = k"
    "\<forall>j < n. Nonce_id (elems (NextNonce b) ! j) \<noteq> k"
    "List.find (\<lambda>r. Nonce_id r = k) (elems (NextNonce b)) = Some (elems (NextNonce b) ! n)"
  then show thesis
    using that [of b n] by (simp add: nonce_row_def FindNextNonceIndex_def NonceOf_def)
qed

lemma set_nonce_effect:
  assumes "n < length (elems (NextNonce b))" "Nonce_id (elems (NextNonce b) ! n) = k"
    "\<forall>j < n. Nonce_id (elems (NextNonce b) ! j) \<noteq> k"
  obtains b' where "set_nonce b (int n) v = Ok b'" "NonceOf b' = (NonceOf b)(k := v)"
    "Balances b' = Balances b" "Transactions b' = Transactions b" "header b' = header b"
proof -
  let ?r = "(elems (NextNonce b) ! n)\<lparr>Nonce := v\<rparr>"
  let ?b = "b\<lparr>NextNonce := Some ((elems (NextNonce b))[n := ?r])\<rparr>"
  have "NonceOf ?b = (NonceOf b)(k := v)"
    using assms find_update_row [of n "elems (NextNonce b)" Nonce_id k ?r]
    by (simp add: NonceOf_def fun_eq_iff)
  then show thesis using that [of ?b] assms by (simp add: set_nonce_def Let_def)
qed

section \<open>Booking a transaction\<close>

lemma book_effect:
  assumes row: "n < length (elems (NextNonce b))" "Nonce_id (elems (NextNonce b) ! n) = k"
      "\<forall>j < n. Nonce_id (elems (NextNonce b) ! j) \<noteq> k"
    and k: "k = From (Info tx)" and account: "FindBalanceIndex b k \<noteq> -1"
  obtains b' where "book H b (int n) e tx = Ok b'"
    "BalanceOf b' = foldl pay_to ((BalanceOf b)(k := BalanceOf b k - TotalOutput tx)) (tx_outputs tx)"
    "NonceOf b' = (NonceOf b)(k := e + 1)"
    "elems (Transactions b') = elems (Transactions b) @ [\<lparr>Tx_id = Tx_Id H tx, Tx = tx\<rparr>]"
    "header b' = header b"
    "Balance_id ` set (elems (Balances b')) =
       Balance_id ` set (elems (Balances b)) \<union> Out_Address ` set (tx_outputs tx)"
    "TotalOutput tx \<le> BalanceOf b k \<Longrightarrow> fits (debited b tx) (tx_outputs tx) \<Longrightarrow>
       gold b' + unat (Fee (Info tx)) = gold b + 2 ^ 32 * (total_nat tx div 2 ^ 32)"
proof -
  obtain b1 where b1: "set_nonce b (int n) (e + 1) = Ok b1" "NonceOf b1 = (NonceOf b)(k := e + 1)"
      "Balances b1 = Balances b" "Transactions b1 = Transactions b" "header b1 = header b"
    using row by (rule set_nonce_effect)
  define b2 where "b2 = b1\<lparr>Transactions := append_slice (Transactions b1)
    [\<lparr>Tx_id = Tx_Id H tx, Tx = tx\<rparr>]\<rparr>"
  have Bal: "Balances b2 = Balances b" using b1(3) by (simp add: b2_def)
  have same: "BalanceOf b2 = BalanceOf b" "gold b2 = gold b"
    using BalanceOf_Balances [OF Bal] Bal by (simp_all add: gold_def)
  have same2: "NextNonce b2 = NextNonce b1" "header b2 = header b"
    "elems (Transactions b2) = elems (Transactions b) @ [\<lparr>Tx_id = Tx_Id H tx, Tx = tx\<rparr>]"
    using b1(4,5) by (simp_all add: b2_def)
  have "FindBalanceIndex b2 k \<noteq> -1" using account Bal by (simp add: FindBalanceIndex_def)
  then obtain b3 where b3: "set_balance b2 (FindBalanceIndex b2 k) (BalanceOf b2 k - TotalOutput tx) = Ok b3"
      "BalanceOf b3 = (BalanceOf b2)(k := BalanceOf b2 k - TotalOutput tx)"
      "gold b3 + unat (BalanceOf b2 k) = gold b2 + unat (BalanceOf b2 k - TotalOutput tx)"
      "Balance_id ` set (elems (Balances b3)) = Balance_id ` set (elems (Balances b2))"
      "NextNonce b3 = NextNonce b2" "Transactions b3 = Transactions b2" "header b3 = header b2"
    by (rule set_balance_found)
  obtain b4 where b4: "credit_all b3 (tx_outputs tx) = Ok b4"
      "BalanceOf b4 = foldl pay_to (BalanceOf b3) (tx_outputs tx)"
      "Balance_id ` set (elems (Balances b4)) =
         Balance_id ` set (elems (Balances b3)) \<union> Out_Address ` set (tx_outputs tx)"
      "NextNonce b4 = NextNonce b3" "Transactions b4 = Transactions b3" "header b4 = header b3"
    by (rule credit_all_effect)
  have gold: "gold b4 + unat (Fee (Info tx)) = gold b + 2 ^ 32 * (total_nat tx div 2 ^ 32)"
    if g: "TotalOutput tx \<le> BalanceOf b k" "fits (debited b tx) (tx_outputs tx)"
  proof -
    have "unat (TotalOutput tx) \<le> unat (BalanceOf b k)" using g(1) by (simp add: word_le_nat_alt)
    moreover have "gold b3 + unat (BalanceOf b k) = gold b + (unat (BalanceOf b k) - unat (TotalOutput tx))"
      using b3(3) same g(1) by (simp add: unat_u32_minus)
    ultimately have "gold b3 + total_nat tx mod 2 ^ 32 = gold b" by (simp add: unat_TotalOutput)
    moreover have "BalanceOf b3 = debited b tx" using b3(2) same by (simp add: debited_def k)
    then have "gold b4 = gold b3 + nat_sum (map Out_Amount (tx_outputs tx))"
      using credit_all_gold [OF b4(1)] g(2) by simp
    moreover have "total_nat tx mod 2 ^ 32 + 2 ^ 32 * (total_nat tx div 2 ^ 32) = total_nat tx" by simp
    ultimately show ?thesis unfolding total_nat_def by linarith
  qed
  have "book H b (int n) e tx = Ok b4"
    using b1(1) b3(1) b4(1) by (simp add: book_def Let_def k flip: b2_def)
  then show thesis
    using that [of b4] b1(2) b3(2,4-7) b4(2-6) Bal same same2 gold NonceOf_NextNonce [of b4 b1] by simp
qed

section \<open>AddTransaction refines the abstract transition\<close>

lemma spec_accepts_ledger_of:
  "spec_accepts H (ledger_of b) tx \<longleftrightarrow>
     \<not> Contains H b tx \<and> Sig tx \<noteq> None \<and> VerifySignature H tx = Ok True \<and> SufficientFund b tx
     \<and> Info_Nonce (Info tx) = NonceOf b (From (Info tx))"
  by (simp add: spec_accepts_def ledger_of_def Contains_ids SufficientFund_def)

text \<open>The outcomes of \<open>AddTransaction\<close>: refused, out of range, or booked.\<close>

lemma AddTransaction_outcome:
  obtains (nil) "AddTransaction H b tx = Panic NilDeref" "VerifySignature H tx = Panic NilDeref"
      "Sig tx \<noteq> None" "\<not> Contains H b tx"
  | (refused) b' where "AddTransaction H b tx = Ok (b', False)"
      "\<not> spec_accepts H (ledger_of b) tx" "NonceOf b' = NonceOf b" "Balances b' = Balances b"
      "Transactions b' = Transactions b" "header b' = header b"
  | (no_account) "AddTransaction H b tx = Panic IndexRange" "spec_accepts H (ledger_of b) tx"
      "FindBalanceIndex b (From (Info tx)) = -1"
  | (booked) b' where "AddTransaction H b tx = Ok (b', True)" "spec_accepts H (ledger_of b) tx"
      "ledger_of b' = spec_apply H (ledger_of b) tx"
      "elems (Transactions b') = elems (Transactions b) @ [\<lparr>Tx_id = Tx_Id H tx, Tx = tx\<rparr>]"
      "header b' = header b" "From (Info tx) \<in> Balance_id ` set (elems (Balances b))"
      "Balance_id ` set (elems (Balances b')) =
         Balance_id ` set (elems (Balances b)) \<union> Out_Address ` set (tx_outputs tx)"
      "fits (debited b tx) (tx_outputs tx) \<Longrightarrow>
         gold b' + unat (Fee (Info tx)) = gold b + 2 ^ 32 * (total_nat tx div 2 ^ 32)"
      "gold b < 2 ^ 32 \<Longrightarrow> no_overflow tx \<Longrightarrow> gold b' + unat (Fee (Info tx)) = gold b"
proof (cases "Contains H b tx \<or> Sig tx = None \<or> VerifySignature H tx = Ok False")
  case True
  then show thesis
    using refused [of b] by (auto simp: AddTransaction_def spec_accepts_ledger_of)
next
  case False
  note early = False
  show thesis
  proof (cases "VerifySignature H tx = Ok True \<and> SufficientFund b tx")
    case False
    with early have "(\<exists>p. VerifySignature H tx = Panic p) \<or> \<not> SufficientFund b tx \<and> VerifySignature H tx = Ok True"
      by (cases "VerifySignature H tx") auto
    then show thesis
    proof
      assume "\<exists>p. VerifySignature H tx = Panic p"
      then have "VerifySignature H tx = Panic NilDeref"
        by (auto simp: VerifySignature_def Let_def split: option.splits)
      then show thesis using nil early by (simp add: AddTransaction_def)
    next
      assume "\<not> SufficientFund b tx \<and> VerifySignature H tx = Ok True"
      then show thesis
        using refused [of b] early by (simp add: AddTransaction_def spec_accepts_ledger_of)
    qed
  next
    case True
    let ?k = "From (Info tx)"
    obtain b0 n where b0: "nonce_row b ?k = (b0, int n)" "n < length (elems (NextNonce b0))"
      "Nonce_id (elems (NextNonce b0) ! n) = ?k" "\<forall>j < n. Nonce_id (elems (NextNonce b0) ! j) \<noteq> ?k"
      "Nonce (elems (NextNonce b0) ! n) = NonceOf b ?k" "NonceOf b0 = NonceOf b"
      "Balances b0 = Balances b" "Transactions b0 = Transactions b" "header b0 = header b"
      by (rule nonce_row_effect)
    have unfold: "AddTransaction H b tx =
        (if NonceOf b ?k \<noteq> Info_Nonce (Info tx) then Ok (b0, False)
         else res_bind (book H b0 (int n) (NonceOf b ?k) tx) (\<lambda>b'. Ok (b', True)))"
      using early True b0(1,5) by (auto simp: AddTransaction_def Let_def)
    have bal: "BalanceOf b0 = BalanceOf b" "gold b0 = gold b"
      "FindBalanceIndex b0 = FindBalanceIndex b"
      using BalanceOf_Balances [OF b0(7)] b0(7) by (simp_all add: gold_def FindBalanceIndex_def fun_eq_iff)
    show thesis
    proof (cases "NonceOf b ?k = Info_Nonce (Info tx)")
      case False
      then show thesis
        using refused [of b0] unfold b0 by (auto simp: spec_accepts_ledger_of)
    next
      case nonce: True
      have acc: "spec_accepts H (ledger_of b) tx"
        using early True nonce by (simp add: spec_accepts_ledger_of)
      show thesis
      proof (cases "FindBalanceIndex b ?k = -1")
        case True
        obtain b1 where "set_nonce b0 (int n) (NonceOf b ?k + 1) = Ok b1" "Balances b1 = Balances b0"
          using b0(2-4) by (rule set_nonce_effect)
        then have "book H b0 (int n) (NonceOf b ?k) tx = Panic IndexRange"
          using True b0(7) by (simp add: book_def FindBalanceIndex_def set_balance_def)
        then show thesis using no_account unfold nonce acc True by simp
      next
        case account: False
        then have "FindBalanceIndex b0 ?k \<noteq> -1" by (simp add: bal)
        then obtain b' where b': "book H b0 (int n) (NonceOf b ?k) tx = Ok b'"
          "BalanceOf b' = foldl pay_to ((BalanceOf b0)(?k := BalanceOf b0 ?k - TotalOutput tx)) (tx_outputs tx)"
          "NonceOf b' = (NonceOf b0)(?k := NonceOf b ?k + 1)"
          "elems (Transactions b') = elems (Transactions b0) @ [\<lparr>Tx_id = Tx_Id H tx, Tx = tx\<rparr>]"
          "header b' = header b0"
          "Balance_id ` set (elems (Balances b')) =
             Balance_id ` set (elems (Balances b0)) \<union> Out_Address ` set (tx_outputs tx)"
          "TotalOutput tx \<le> BalanceOf b0 ?k \<Longrightarrow> fits (debited b0 tx) (tx_outputs tx) \<Longrightarrow>
             gold b' + unat (Fee (Info tx)) = gold b0 + 2 ^ 32 * (total_nat tx div 2 ^ 32)"
          using book_effect [OF b0(2-4) refl] by metis
        have "ledger_of b' = spec_apply H (ledger_of b) tx"
          using b' b0 bal by (simp add: ledger_of_def spec_apply_def Let_def)
        moreover have "?k \<in> Balance_id ` set (elems (Balances b))"
          using account by (simp add: FindBalanceIndex_missing)
        moreover have le: "TotalOutput tx \<le> BalanceOf b ?k" using True by (simp add: SufficientFund_def)
        then have gold: "fits (debited b tx) (tx_outputs tx) \<Longrightarrow>
            gold b' + unat (Fee (Info tx)) = gold b + 2 ^ 32 * (total_nat tx div 2 ^ 32)"
          using b'(7) by (simp add: debited_def bal)
        moreover have "gold b' + unat (Fee (Info tx)) = gold b" if "gold b < 2 ^ 32" "no_overflow tx"
          using gold [OF no_overflow_fits [OF that le]] that(2) by (simp add: no_overflow_def)
        ultimately show thesis
          using booked [of b'] unfold nonce acc b' b0 bal by simp
      qed
    qed
  qed
qed

end
