(* ===== verification/Replay.thy ===== *)
theory Replay
  imports Ledger
begin

text \<open>
  Running many transactions on a block. The locale \<open>ledger_invariant\<close> is the contract an
  invariant of \<open>AddTransaction\<close> keeps over every loop that calls it; it is interpreted for
  the header, for the total of gold and fees, and for the accounts. \<open>Rerun\<close> of
  \<open>blockchain/block.go\<close> is related to a run of the abstract ledger.
\<close>

section \<open>Loops over AddTransaction\<close>

text \<open>
  The loop of \<open>StartNewSearch\<close>: every transaction is tried, and the ones that
  \<open>AddTransaction\<close> refuses are passed over.
\<close>

fun add_transactions :: "crypto \<Rightarrow> Block \<Rightarrow> Transaction list \<Rightarrow> Block res" where
  "add_transactions H block [] = Ok block"
| "add_transactions H block (tx # txs) =
     res_bind (AddTransaction H block tx) (\<lambda>(block', added). add_transactions H block' txs)"

locale ledger_invariant =
  fixes H :: crypto
    and P :: "Transaction \<Rightarrow> bool"
    and I :: "Block \<Rightarrow> bool"
  assumes add_inv: "P tx \<Longrightarrow> I b \<Longrightarrow> AddTransaction H b tx = Ok (b', added) \<Longrightarrow> I b'"
begin

lemma rerun_inv:
  "\<forall>v \<in> set vs. P (Tx v) \<Longrightarrow> I b \<Longrightarrow> Rerun_loop H b vs = Ok (b', added) \<Longrightarrow> I b'"
proof (induction vs arbitrary: b)
  case Nil
  then show ?case by simp
next
  case (Cons v vs)
  then show ?case by (auto simp: res_simps dest: add_inv split: if_splits)
qed

lemma add_transactions_inv:
  "\<forall>tx \<in> set txs. P tx \<Longrightarrow> I b \<Longrightarrow> add_transactions H b txs = Ok b' \<Longrightarrow> I b'"
proof (induction txs arbitrary: b)
  case Nil
  then show ?case by simp
next
  case (Cons tx txs)
  then show ?case by (fastforce simp: res_simps dest: add_inv)
qed

end

definition fees :: "Block \<Rightarrow> nat" where
  "fees b = nat_sum (map (\<lambda>v. Fee (Info (Tx v))) (elems (Transactions b)))"

definition accounts :: "Block \<Rightarrow> string set" where
  "accounts b = Balance_id ` set (elems (Balances b))"

lemma fees_cong: "Transactions b = Transactions c \<Longrightarrow> fees b = fees c"
  by (simp add: fees_def)

lemma gold_cong: "Balances b = Balances c \<Longrightarrow> gold b = gold c"
  by (simp add: gold_def)

interpretation hdr: ledger_invariant H "\<lambda>tx. True" "\<lambda>b. header b = h" for H h
proof
  fix b b' tx added
  assume "header b = h" "AddTransaction H b tx = Ok (b', added)"
  then show "header b' = h" by (cases rule: AddTransaction_outcome [of H b tx]) auto
qed

interpretation coins: ledger_invariant H no_overflow "\<lambda>b. gold b + fees b = g \<and> g < 2 ^ 32" for H g
proof
  fix b b' tx added
  assume tx: "no_overflow tx" and b: "gold b + fees b = g \<and> g < 2 ^ 32"
    and add: "AddTransaction H b tx = Ok (b', added)"
  show "gold b' + fees b' = g \<and> g < 2 ^ 32"
  proof (cases rule: AddTransaction_outcome [of H b tx])
    case (refused c)
    then show ?thesis using add b by (simp add: fees_def gold_def)
  next
    case (booked c)
    then show ?thesis using add b tx by (simp add: fees_def)
  qed (use add in simp_all)
qed

interpretation accts: ledger_invariant H "\<lambda>tx. True" "\<lambda>b. A \<subseteq> accounts b" for H A
proof
  fix b b' tx added
  assume b: "A \<subseteq> accounts b" and add: "AddTransaction H b tx = Ok (b', added)"
  show "A \<subseteq> accounts b'"
    using b add by (cases rule: AddTransaction_outcome [of H b tx]) (auto simp: accounts_def)
qed

interpretation ids: ledger_invariant H "\<lambda>tx. True"
  "\<lambda>b. \<forall>v \<in> set (elems (Transactions b)). Tx_id v = Tx_Id H (Tx v)" for H
proof
  fix b b' tx added
  assume b: "\<forall>v \<in> set (elems (Transactions b)). Tx_id v = Tx_Id H (Tx v)"
    and add: "AddTransaction H b tx = Ok (b', added)"
  show "\<forall>v \<in> set (elems (Transactions b')). Tx_id v = Tx_Id H (Tx v)"
    using b add by (cases rule: AddTransaction_outcome [of H b tx]) auto
qed

interpretation nonnil: ledger_invariant H "\<lambda>tx. True" "\<lambda>b. Transactions b \<noteq> None" for H
proof
  fix b b' tx added
  assume b: "Transactions b \<noteq> None" and add: "AddTransaction H b tx = Ok (b', added)"
  show "Transactions b' \<noteq> None"
    using b add by (cases rule: AddTransaction_outcome [of H b tx]) (auto simp: elems_def split: option.splits)
qed

section \<open>When AddTransaction panics\<close>

definition safe_tx :: "Transaction \<Rightarrow> bool" where
  "safe_tx tx \<longleftrightarrow> N (Pubkey (Info tx)) \<noteq> None \<and> TotalOutput tx \<noteq> 0"

lemma AddTransaction_safe:
  assumes "safe_tx tx"
  obtains b' added where "AddTransaction H b tx = Ok (b', added)"
proof (cases rule: AddTransaction_outcome [of H b tx])
  case nil
  then show thesis using assms
    by (auto simp: safe_tx_def VerifySignature_def Let_def split: option.splits)
next
  case no_account
  then have "BalanceOf b (From (Info tx)) = 0" using append_balance(2) by blast
  then show thesis using no_account assms by (simp add: safe_tx_def spec_accepts_def ledger_of_def)
qed (use that in blast)+

lemma AddTransaction_accepts:
  assumes "safe_tx tx" "spec_accepts H (ledger_of b) tx"
  obtains b' where "AddTransaction H b tx = Ok (b', True)"
proof -
  obtain b' added where "AddTransaction H b tx = Ok (b', added)"
    using assms(1) by (rule AddTransaction_safe)
  then show thesis
    using that assms(2) by (cases rule: AddTransaction_outcome [of H b tx]) auto
qed

lemma add_transactions_safe:
  assumes "\<forall>tx \<in> set txs. safe_tx tx"
  obtains b' where "add_transactions H b txs = Ok b'"
proof -
  have "\<exists>b'. add_transactions H b txs = Ok b'"
    using assms
  proof (induction txs arbitrary: b)
    case Nil
    then show ?case by simp
  next
    case (Cons tx txs)
    obtain b1 added where "AddTransaction H b tx = Ok (b1, added)"
      by (metis AddTransaction_safe Cons.prems list.set_intros(1))
    then show ?case using Cons by simp
  qed
  then show thesis using that by blast
qed

section \<open>The abstract run\<close>

fun spec_run :: "crypto \<Rightarrow> ledger \<Rightarrow> Transaction list \<Rightarrow> ledger option" where
  "spec_run H L [] = Some L"
| "spec_run H L (tx # txs) = (if spec_accepts H L tx then spec_run H (spec_apply H L tx) txs else None)"

definition rewarded :: "Block \<Rightarrow> string \<Rightarrow> u32" where
  "rewarded prev =
     (if RewardAddr prev = [] then BalanceOf prev
      else (BalanceOf prev)(RewardAddr prev := BalanceOf prev (RewardAddr prev) + CoinbaseReward prev))"

definition spec_start :: "Block \<Rightarrow> ledger" where
  "spec_start prev = \<lparr>led_balance = rewarded prev, led_nonce = NonceOf prev, led_ids = {}\<rparr>"

definition reward_of :: "Block \<Rightarrow> nat" where
  "reward_of prev = (if RewardAddr prev = [] then 0 else unat (CoinbaseReward prev))"

lemma Rerun_loop_refines:
  assumes "Rerun_loop H b vs = Ok (b', added)"
  shows "added \<longleftrightarrow> spec_run H (ledger_of b) (map Tx vs) \<noteq> None"
    and "added \<Longrightarrow> spec_run H (ledger_of b) (map Tx vs) = Some (ledger_of b')"
    and "added \<Longrightarrow> elems (Transactions b') =
           elems (Transactions b) @ map (\<lambda>v. v\<lparr>Tx_id := Tx_Id H (Tx v)\<rparr>) vs"
proof -
  have "(added \<longleftrightarrow> spec_run H (ledger_of b) (map Tx vs) \<noteq> None)
    \<and> (added \<longrightarrow> spec_run H (ledger_of b) (map Tx vs) = Some (ledger_of b')
      \<and> elems (Transactions b') =
          elems (Transactions b) @ map (\<lambda>v. v\<lparr>Tx_id := Tx_Id H (Tx v)\<rparr>) vs)"
    using assms
  proof (induction vs arbitrary: b)
    case Nil
    then show ?case by simp
  next
    case (Cons v vs)
    show ?case
    proof (cases rule: AddTransaction_outcome [of H b "Tx v"])
      case (booked c)
      then have "Rerun_loop H c vs = Ok (b', added)" using Cons.prems by simp
      moreover have "\<lparr>Tx_id = Tx_Id H (Tx v), Tx = Tx v\<rparr> = v\<lparr>Tx_id := Tx_Id H (Tx v)\<rparr>"
        by simp
      ultimately show ?thesis using Cons.IH [of c] booked by simp
    qed (use Cons.prems in auto)
  qed
  then show "added \<longleftrightarrow> spec_run H (ledger_of b) (map Tx vs) \<noteq> None"
    and "added \<Longrightarrow> spec_run H (ledger_of b) (map Tx vs) = Some (ledger_of b')"
    and "added \<Longrightarrow> elems (Transactions b') =
           elems (Transactions b) @ map (\<lambda>v. v\<lparr>Tx_id := Tx_Id H (Tx v)\<rparr>) vs"
    by auto
qed

section \<open>The start of a re-run\<close>

lemma elems_copy_slice [simp]: "elems (copy_slice s) = elems s"
  by (simp add: copy_slice_def)

lemma pay_reward_effect:
  assumes "elems (Balances b) = elems (Balances prev)"
  obtains b' where "pay_reward b prev = Ok b'" "BalanceOf b' = rewarded prev"
    "NextNonce b' = NextNonce b" "Transactions b' = Transactions b" "header b' = header b"
    "accounts b' = (if RewardAddr prev = [] then accounts prev else insert (RewardAddr prev) (accounts prev))"
    "gold prev + reward_of prev < 2 ^ 32 \<Longrightarrow> gold b' = gold prev + reward_of prev"
proof (cases "RewardAddr prev = []")
  case True
  then show thesis
    using that [of b] assms
    by (simp add: pay_reward_def rewarded_def reward_of_def gold_def accounts_def BalanceOf_find fun_eq_iff)
next
  case False
  let ?o = "\<lparr>Out_Address = RewardAddr prev, Out_Amount = CoinbaseReward prev\<rparr>"
  have bal: "BalanceOf b = BalanceOf prev" "gold b = gold prev" "accounts b = accounts prev"
    using assms by (simp_all add: BalanceOf_find fun_eq_iff gold_def accounts_def)
  obtain b' where b': "credit b ?o = Ok b'" "BalanceOf b' = pay_to (BalanceOf b) ?o"
    "Balance_id ` set (elems (Balances b')) =
       insert (RewardAddr prev) (Balance_id ` set (elems (Balances b)))"
    "NextNonce b' = NextNonce b" "Transactions b' = Transactions b" "header b' = header b"
    by (rule credit_effect [of b ?o]) simp
  have "pay_reward b prev = credit b ?o"
    using False bal by (simp add: pay_reward_def credit_def Let_def)
  moreover have "gold b' = gold prev + reward_of prev" if "gold prev + reward_of prev < 2 ^ 32"
    using that balance_le_gold [of prev "RewardAddr prev"] credit_gold [OF b'(1)] False bal by (simp add: reward_of_def)
  ultimately show thesis
    using that [of b'] b' False bal by (simp add: rewarded_def pay_to_def accounts_def)
qed

text \<open>The block \<open>Rerun\<close> starts its loop from.\<close>

lemma Rerun_start:
  obtains s where "Rerun H b (Some prev) = Rerun_loop H s (elems (Transactions b))"
    "ledger_of s = spec_start prev" "header s = header b" "Transactions s = Some []"
    "accounts prev \<subseteq> accounts s"
    "gold prev + reward_of prev < 2 ^ 32 \<Longrightarrow> gold s = gold prev + reward_of prev"
proof -
  let ?b = "b\<lparr>Balances := copy_slice (Balances prev), NextNonce := copy_slice (NextNonce prev)\<rparr>"
  obtain c where c: "pay_reward ?b prev = Ok c" "BalanceOf c = rewarded prev"
    "NextNonce c = NextNonce ?b" "Transactions c = Transactions ?b" "header c = header ?b"
    "accounts c = (if RewardAddr prev = [] then accounts prev else insert (RewardAddr prev) (accounts prev))"
    "gold prev + reward_of prev < 2 ^ 32 \<Longrightarrow> gold c = gold prev + reward_of prev"
    by (rule pay_reward_effect [of ?b prev]) simp_all
  let ?s = "c\<lparr>Transactions := Some []\<rparr>"
  have "BalanceOf ?s = rewarded prev" "NonceOf ?s = NonceOf prev"
    using c(2,3) by (simp_all add: BalanceOf_find NonceOf_def fun_eq_iff)
  then have "ledger_of ?s = spec_start prev" by (simp add: ledger_of_def spec_start_def)
  then show thesis
    using that [of ?s] c by (simp add: Rerun_def accounts_def gold_def subset_insertI)
qed

text \<open>Re-running depends on the block's header and transactions only.\<close>

lemma Rerun_loop_map_Tx:
  "map Tx vs = map Tx ws \<Longrightarrow> Rerun_loop H b vs = Rerun_loop H b ws"
proof (induction vs arbitrary: b ws)
  case Nil
  then show ?case by simp
next
  case (Cons v vs)
  then obtain w ws' where "ws = w # ws'" "Tx v = Tx w" "map Tx vs = map Tx ws'"
    by (cases ws) auto
  then show ?case using Cons.IH [of ws'] by (simp add: split_def cong: if_cong)
qed

lemma Rerun_cong:
  assumes "header b = header c" "map Tx (elems (Transactions b)) = map Tx (elems (Transactions c))"
  shows "Rerun H b (Some prev) = Rerun H c (Some prev)"
proof -
  let ?f = "\<lambda>b. b\<lparr>Balances := copy_slice (Balances prev), NextNonce := copy_slice (NextNonce prev)\<rparr>"
  let ?g = "\<lambda>b. (?f b)\<lparr>Transactions := Some []\<rparr>"
  have g: "?g b = ?g c" using assms(1) by (cases b; cases c) (simp add: header_def)
  have p: "res_bind (pay_reward (?f b) prev) (\<lambda>s. F (s\<lparr>Transactions := Some []\<rparr>)) =
      res_bind (pay_reward (?g b) prev) F" for b and F :: "Block \<Rightarrow> (Block \<times> bool) res"
    by (cases b) (simp add: pay_reward_def set_balance_def FindBalanceIndex_def Let_def)
  let ?F = "\<lambda>s. Rerun_loop H s (elems (Transactions c))"
  have "Rerun H b (Some prev) = res_bind (pay_reward (?f b) prev) (\<lambda>s. ?F (s\<lparr>Transactions := Some []\<rparr>))"
    unfolding Rerun_def Rerun_loop_map_Tx [OF assms(2)] by simp
  also have "\<dots> = res_bind (pay_reward (?f c) prev) (\<lambda>s. ?F (s\<lparr>Transactions := Some []\<rparr>))"
    unfolding p [of b ?F] p [of c ?F] g by (rule refl)
  finally show ?thesis by (simp add: Rerun_def)
qed

section \<open>Nonces along a run\<close>

definition sent_by :: "string \<Rightarrow> Transaction list \<Rightarrow> Transaction list" where
  "sent_by k txs = filter (\<lambda>tx. From (Info tx) = k) txs"

lemma spec_run_nonces:
  "spec_run H L txs = Some L' \<Longrightarrow>
   led_nonce L' k = led_nonce L k + of_nat (length (sent_by k txs))
   \<and> map (\<lambda>tx. Info_Nonce (Info tx)) (sent_by k txs) =
       map (\<lambda>i. led_nonce L k + of_nat i) [0 ..< length (sent_by k txs)]"
proof (induction txs arbitrary: L)
  case Nil
  then show ?case by (simp add: sent_by_def)
next
  case (Cons tx txs)
  let ?L = "spec_apply H L tx" and ?n = "length (sent_by k txs)"
  have acc: "spec_accepts H L tx" and run: "spec_run H ?L txs = Some L'"
    using Cons.prems by (simp_all split: if_splits)
  note IH = Cons.IH [OF run]
  show ?case
  proof (cases "From (Info tx) = k")
    case False
    then have "led_nonce ?L k = led_nonce L k" by (auto simp: spec_apply_def Let_def)
    then show ?thesis using IH False by (simp add: sent_by_def)
  next
    case True
    then have step: "led_nonce ?L k = led_nonce L k + 1" by (simp add: spec_apply_def Let_def)
    have "sent_by k (tx # txs) = tx # sent_by k txs" using True by (simp add: sent_by_def)
    moreover have "[0 ..< Suc ?n] = 0 # map Suc [0 ..< ?n]"
      by (simp add: upt_conv_Cons map_Suc_upt del: upt_Suc)
    ultimately show ?thesis
      using IH step acc True by (simp add: spec_accepts_def o_def algebra_simps del: upt_Suc)
  qed
qed

text \<open>An account that neither pays nor is paid keeps its balance.\<close>

lemma spec_run_untouched:
  "spec_run H L txs = Some L' \<Longrightarrow> \<forall>tx \<in> set txs. From (Info tx) \<noteq> k \<and> k \<notin> Out_Address ` set (tx_outputs tx) \<Longrightarrow>
   led_balance L' k = led_balance L k"
proof (induction txs arbitrary: L)
  case (Cons tx txs)
  have "led_balance (spec_apply H L tx) k = led_balance L k"
    using Cons.prems(2) by (auto simp: spec_apply_def Let_def foldl_pay_to_other)
  then show ?case using Cons.IH [of "spec_apply H L tx"] Cons.prems by (simp split: if_splits)
qed simp

section \<open>A larger balance accepts the same transactions\<close>

text \<open>The ledger in which one account holds \<open>w\<close> more.\<close>

definition plus_at :: "string \<Rightarrow> u32 \<Rightarrow> (string \<Rightarrow> u32) \<Rightarrow> string \<Rightarrow> u32" where
  "plus_at r w f = f(r := f r + w)"

definition enriched :: "string \<Rightarrow> u32 \<Rightarrow> ledger \<Rightarrow> ledger" where
  "enriched r w L = L\<lparr>led_balance := plus_at r w (led_balance L)\<rparr>"

lemma pay_to_plus_at: "pay_to (plus_at r w f) v = plus_at r w (pay_to f v)"
  by (auto simp: pay_to_def plus_at_def fun_eq_iff algebra_simps)

lemma foldl_pay_to_plus_at: "foldl pay_to (plus_at r w f) vs = plus_at r w (foldl pay_to f vs)"
  by (induction vs arbitrary: f) (simp_all add: pay_to_plus_at)

lemma spec_apply_enriched: "spec_apply H (enriched r w L) tx = enriched r w (spec_apply H L tx)"
proof -
  let ?k = "From (Info tx)" and ?f = "led_balance L"
  have "(plus_at r w ?f)(?k := plus_at r w ?f ?k - TotalOutput tx) =
      plus_at r w (?f(?k := ?f ?k - TotalOutput tx))"
    by (auto simp: plus_at_def fun_eq_iff algebra_simps)
  then show ?thesis by (simp add: spec_apply_def enriched_def Let_def foldl_pay_to_plus_at)
qed

lemma spec_accepts_enriched:
  assumes "spec_accepts H L tx" "unat (led_balance L r) + unat w < 2 ^ 32"
  shows "spec_accepts H (enriched r w L) tx"
proof -
  have "led_balance L r \<le> led_balance L r + w"
    using assms(2) by (simp add: word_le_nat_alt unat_u32_plus)
  then show ?thesis
    using assms(1) by (auto simp: spec_accepts_def enriched_def plus_at_def intro: order.trans)
qed

text \<open>
  The simulation behind the acceptance of honestly mined blocks: \<open>m\<close> is the block a miner
  fills, \<open>s\<close> the block a peer re-runs, in which the account \<open>r\<close> holds \<open>w\<close> more.
\<close>

definition tracks :: "string \<Rightarrow> u32 \<Rightarrow> Block \<Rightarrow> Block \<Rightarrow> bool" where
  "tracks r w m s \<longleftrightarrow> ledger_of s = enriched r w (ledger_of m) \<and> accounts m \<subseteq> accounts s"

lemma tracks_same_ledger:
  "tracks r w m s \<Longrightarrow> NonceOf m' = NonceOf m \<Longrightarrow> Balances m' = Balances m \<Longrightarrow>
   Transactions m' = Transactions m \<Longrightarrow> tracks r w m' s"
  using BalanceOf_Balances [of m' m] by (simp add: tracks_def ledger_of_def accounts_def)

lemma tracks_add:
  assumes add: "AddTransaction H m tx = Ok (m', True)" and rel: "tracks r w m s"
    and room: "gold m + unat w < 2 ^ 32"
  obtains s' where "AddTransaction H s tx = Ok (s', True)" "tracks r w m' s'"
    "elems (Transactions m') = elems (Transactions m) @ [\<lparr>Tx_id = Tx_Id H tx, Tx = tx\<rparr>]"
proof (cases rule: AddTransaction_outcome [of H m tx])
  case (booked c)
  note m = booked
  have "unat (BalanceOf m r) + unat w < 2 ^ 32" using room balance_le_gold [of m r] by linarith
  then have acc: "spec_accepts H (ledger_of s) tx"
    using m(2) rel by (simp add: tracks_def spec_accepts_enriched ledger_of_def)
  have sender: "From (Info tx) \<in> accounts s" using m(6) rel by (auto simp: tracks_def accounts_def)
  show thesis
  proof (cases rule: AddTransaction_outcome [of H s tx])
    case (booked d)
    have "ledger_of d = enriched r w (ledger_of c)"
      using booked(3) m(3) rel by (simp add: tracks_def spec_apply_enriched)
    moreover have "accounts c \<subseteq> accounts d"
      using booked(7) m(7) rel by (auto simp: tracks_def accounts_def)
    ultimately show thesis using that [of d] booked(1) m add by (simp add: tracks_def)
  next
    case nil
    then show thesis using acc by (simp add: spec_accepts_def)
  next
    case no_account
    then show thesis using sender by (simp add: FindBalanceIndex_missing accounts_def)
  next
    case (refused d)
    then show thesis using acc by simp
  qed
qed (use add in simp_all)

lemma tracks_run:
  assumes "add_transactions H m txs = Ok b" "tracks r w m s" "\<forall>tx \<in> set txs. no_overflow tx"
    "gold m + fees m + unat w < 2 ^ 32"
  obtains new s' where "elems (Transactions b) = elems (Transactions m) @ new"
    "Rerun_loop H s new = Ok (s', True)"
proof -
  have "\<exists>new s'. elems (Transactions b) = elems (Transactions m) @ new \<and> Rerun_loop H s new = Ok (s', True)"
    using assms
  proof (induction txs arbitrary: m s)
    case Nil
    then show ?case by simp
  next
    case (Cons tx txs)
    then obtain m' added where add: "AddTransaction H m tx = Ok (m', added)"
        and run: "add_transactions H m' txs = Ok b" by (auto simp: res_simps)
    have room: "gold m' + fees m' + unat w < 2 ^ 32"
      using coins.add_inv [of tx m "gold m + fees m" H m' added] add Cons.prems(3,4) by simp
    show ?case
    proof (cases added)
      case True
      obtain s' where s': "AddTransaction H s tx = Ok (s', True)" "tracks r w m' s'"
        "elems (Transactions m') = elems (Transactions m) @ [\<lparr>Tx_id = Tx_Id H tx, Tx = tx\<rparr>]"
        using add True Cons.prems(2,4) by (auto elim: tracks_add)
      then obtain new s'' where "elems (Transactions b) = elems (Transactions m') @ new"
          "Rerun_loop H s' new = Ok (s'', True)"
        using Cons.IH [OF run s'(2) _ room] Cons.prems(3) by auto
      then show ?thesis
        using s' by (intro exI [of _ "\<lparr>Tx_id = Tx_Id H tx, Tx = tx\<rparr> # new"]) simp
    next
      case False
      then have "NonceOf m' = NonceOf m" "Balances m' = Balances m" and
          T: "Transactions m' = Transactions m"
        using add by (cases rule: AddTransaction_outcome [of H m tx]; simp)+
      then have tr: "tracks r w m' s" using Cons.prems(2) tracks_same_ledger by blast
      have "\<forall>tx \<in> set txs. no_overflow tx" using Cons.prems(3) by simp
      from Cons.IH [OF run tr this room] T show ?thesis by metis
    qed
  qed
  then show thesis using that by blast
qed

lemma Rerun_safe:
  assumes "\<forall>v \<in> set (elems (Transactions b)). safe_tx (Tx v)"
  obtains b' added where "Rerun H b (Some prev) = Ok (b', added)"
proof -
  have loop: "\<exists>b' added. Rerun_loop H s vs = Ok (b', added)"
    if "\<forall>v \<in> set vs. safe_tx (Tx v)" for s vs
    using that
  proof (induction vs arbitrary: s)
    case Nil
    then show ?case by auto
  next
    case (Cons v vs)
    obtain c added where "AddTransaction H s (Tx v) = Ok (c, added)"
      by (metis AddTransaction_safe Cons.prems list.set_intros(1))
    then show ?case using Cons by (cases added) auto
  qed
  obtain s where "Rerun H b (Some prev) = Rerun_loop H s (elems (Transactions b))"
    by (rule Rerun_start)
  then show thesis using that loop [OF assms] by metis
qed

section \<open>The identity of a re-run block\<close>

text \<open>The block a re-run returns, from any block its loop starts with.\<close>

lemma block4hash_cong:
  assumes "header b = header c" "Transactions b = Transactions c"
  shows "block4hash b = block4hash c"
  using assms by (cases b; cases c) (simp add: block4hash_def header_def)

lemma same_hash:
  assumes "header b = header c" "Transactions b = Transactions c"
  shows "GetHash H b = GetHash H c" "GetHashStr H b = GetHashStr H c"
    "hasValidProof H b = hasValidProof H c"
  using block4hash_cong [OF assms] header_fields(2) [OF assms(1)]
  by (simp_all add: GetHash_def GetHashStr_def hasValidProof_def split: sum.split)

text \<open>A block as \<open>NewBlock\<close> and \<open>AddTransaction\<close> build it: its transactions carry their own ids.\<close>

definition honest :: "crypto \<Rightarrow> Block \<Rightarrow> bool" where
  "honest H b \<longleftrightarrow> Transactions b \<noteq> None
     \<and> (\<forall>v \<in> set (elems (Transactions b)). Tx_id v = Tx_Id H (Tx v))"

lemma Rerun_header:
  assumes "Rerun H b (Some prev) = Ok (b', ok)"
  shows "header b' = header b"
proof -
  obtain s where s: "Rerun H b (Some prev) = Rerun_loop H s (elems (Transactions b))"
    "header s = header b"
    by (rule Rerun_start)
  then show ?thesis using hdr.rerun_inv [of "elems (Transactions b)" s "header b" H b' ok] assms by simp
qed

lemma Rerun_transactions:
  assumes "Rerun H b (Some prev) = Ok (b', True)" "honest H b"
  shows "Transactions b' = Transactions b"
proof -
  obtain s where s: "Rerun H b (Some prev) = Rerun_loop H s (elems (Transactions b))"
    "Transactions s = Some []"
    by (rule Rerun_start)
  have loop: "Rerun_loop H s (elems (Transactions b)) = Ok (b', True)" using assms(1) s(1) by simp
  have "Transactions b' \<noteq> None" using nonnil.rerun_inv [OF _ _ loop] s(2) by simp
  moreover have "elems (Transactions b') = elems (Transactions b)"
    using Rerun_loop_refines(3) [OF loop] s(2) assms(2) by (simp add: honest_def map_idI)
  ultimately show ?thesis using assms(2) by (auto simp: honest_def)
qed

lemmas Rerun_same_hash = same_hash [OF Rerun_header Rerun_transactions]

section \<open>A new block\<close>

lemma NewBlock_child:
  assumes "NewBlock H now addr (Some prev) target reward = Some b"
  shows "GetHash H prev = Inr (PrevBlockHash b)" "ChainLength b = ChainLength prev + 1"
    "Proof b = 0" "Target b = target" "RewardAddr b = addr" "CoinbaseReward b = reward"
    "Timestamp b = now" "Transactions b = Some []" "accounts b = accounts prev"
    "gold b = gold prev" "fees b = 0"
    "ledger_of b = \<lparr>led_balance = BalanceOf prev, led_nonce = NonceOf prev, led_ids = {}\<rparr>"
  using assms
  by (auto simp: NewBlock_def Let_def accounts_def gold_def fees_def ledger_of_def BalanceOf_find
      NonceOf_def fun_eq_iff split: sum.splits)

lemma spec_start_enriched:
  assumes "ledger_of b = \<lparr>led_balance = BalanceOf prev, led_nonce = NonceOf prev, led_ids = {}\<rparr>"
  shows "spec_start prev = enriched (RewardAddr prev)
    (if RewardAddr prev = [] then 0 else CoinbaseReward prev) (ledger_of b)"
  by (simp add: assms spec_start_def rewarded_def enriched_def plus_at_def fun_eq_iff)

text \<open>A block built on a predecessor re-runs on it, and stays the same.\<close>

lemma mined_reruns:
  assumes "NewBlock H now addr (Some prev) target reward = Some b0"
    and "add_transactions H b0 txs = Ok b"
    and "\<forall>tx \<in> set txs. no_overflow tx" and "gold prev + reward_of prev < 2 ^ 32"
  shows "\<exists>b'. Rerun H (b\<lparr>Proof := p\<rparr>) (Some prev) = Ok (b', True)
    \<and> Transactions b' = Transactions b \<and> GetHash H b' = GetHash H (b\<lparr>Proof := p\<rparr>)"
proof -
  let ?w = "if RewardAddr prev = [] then 0 else CoinbaseReward prev" and ?b = "b\<lparr>Proof := p\<rparr>"
  note new = NewBlock_child [OF assms(1)]
  obtain s where s: "Rerun H ?b (Some prev) = Rerun_loop H s (elems (Transactions ?b))"
    "ledger_of s = spec_start prev" "header s = header ?b" "Transactions s = Some []"
    "accounts prev \<subseteq> accounts s"
    by (rule Rerun_start)
  have "tracks (RewardAddr prev) ?w b0 s"
    using s(2,5) new(9) spec_start_enriched [OF new(12)] by (simp add: tracks_def)
  moreover have "gold b0 + fees b0 + unat ?w < 2 ^ 32"
    using assms(4) new(10,11) by (simp add: reward_of_def split: if_splits)
  ultimately obtain vs s' where vs: "elems (Transactions b) = elems (Transactions b0) @ vs"
      "Rerun_loop H s vs = Ok (s', True)"
    using assms(2,3) by (meson tracks_run)
  have run: "Rerun H ?b (Some prev) = Ok (s', True)" using s(1) vs new(8) by simp
  have all: "\<forall>tx \<in> set txs. True" by simp
  have ids: "\<forall>v \<in> set (elems (Transactions b)). Tx_id v = Tx_Id H (Tx v)"
    using ids.add_transactions_inv [OF all _ assms(2)] new(8) by simp
  have T: "Transactions b \<noteq> None"
    using nonnil.add_transactions_inv [OF all _ assms(2)] new(8) by simp
  have "honest H ?b" using ids T by (simp add: honest_def)
  then have "Transactions s' = Transactions ?b" "GetHash H s' = GetHash H ?b"
    using Rerun_transactions [OF run] Rerun_same_hash(1) [OF run run] by simp_all
  then show ?thesis using run by simp
qed

end
