(* ===== verification/GoMap.thy ===== *)
theory GoMap
  imports Prelude
begin

text \<open>
  Go's built-in \<open>map[string]V\<close>, used by every stateful component. A map value is an
  association list with at most one entry per key; the order of the entries stands for
  nothing, since Go leaves the iteration order open (operations that iterate take the order
  as an argument). The locale states what the clients rely on; the interpretation shows the
  model provides it.
\<close>

section \<open>The interface\<close>

locale string_map =
  fixes empty :: "'m"
    and get :: "'m \<Rightarrow> string \<Rightarrow> 'v option"
    and put :: "string \<Rightarrow> 'v \<Rightarrow> 'm \<Rightarrow> 'm"
    and del :: "string \<Rightarrow> 'm \<Rightarrow> 'm"
    and size_of :: "'m \<Rightarrow> nat"
    and ok :: "'m \<Rightarrow> bool"
  assumes get_empty: "get empty k = None"
    and get_put: "get (put k v m) k' = (if k' = k then Some v else get m k')"
    and get_del: "get (del k m) k' = (if k' = k then None else get m k')"
    and ok_empty: "ok empty"
    and ok_put: "ok m \<Longrightarrow> ok (put k v m)"
    and ok_del: "ok m \<Longrightarrow> ok (del k m)"
    and size_dom: "ok m \<Longrightarrow> size_of m = card (dom (get m))"
    and finite_dom: "finite (dom (get m))"
begin

lemma dom_put: "dom (get (put k v m)) = insert k (dom (get m))"
  by (auto simp: get_put split: if_splits)

lemma dom_del: "dom (get (del k m)) = dom (get m) - {k}"
  by (auto simp: get_del split: if_splits)

lemma size_put:
  assumes "ok m"
  shows "size_of (put k v m) = (if get m k = None then Suc (size_of m) else size_of m)"
proof -
  have "size_of (put k v m) = card (insert k (dom (get m)))"
    using assms by (simp add: size_dom ok_put dom_put)
  then show ?thesis
    using assms by (auto simp: size_dom finite_dom card_insert_if)
qed

lemma size_del:
  assumes "ok m"
  shows "size_of (del k m) = (if get m k = None then size_of m else size_of m - 1)"
  using assms by (auto simp: size_dom ok_del dom_del card_Diff_singleton_if)

lemma size_pos: "ok m \<Longrightarrow> get m k = Some v \<Longrightarrow> 0 < size_of m"
  by (auto simp: size_dom card_gt_0_iff finite_dom)

lemma put_put_same: "get (put k v (put k w m)) = get (put k v m)"
  by (auto simp: get_put fun_eq_iff)

end

section \<open>The model\<close>

type_synonym 'v gomap = "(string \<times> 'v) list"

definition map_get :: "'v gomap \<Rightarrow> string \<Rightarrow> 'v option" where
  "map_get m = map_of m"

definition map_put :: "string \<Rightarrow> 'v \<Rightarrow> 'v gomap \<Rightarrow> 'v gomap" where
  "map_put k v m = AList.update k v m"

definition map_del :: "string \<Rightarrow> 'v gomap \<Rightarrow> 'v gomap" where
  "map_del k m = AList.delete k m"

definition map_len :: "'v gomap \<Rightarrow> nat" where
  "map_len m = length m"

definition map_values :: "'v gomap \<Rightarrow> 'v list" where
  "map_values m = map snd m"

definition map_ok :: "'v gomap \<Rightarrow> bool" where
  "map_ok m = distinct (map fst m)"

interpretation gm: string_map "[]" map_get map_put map_del map_len map_ok
proof
  fix m :: "'v gomap" and k k' :: string and v :: 'v
  show "map_get [] k = (None :: 'v option)" by (simp add: map_get_def)
  show "map_get (map_put k v m) k' = (if k' = k then Some v else map_get m k')"
    by (simp add: map_get_def map_put_def update_conv')
  show "map_get (map_del k m) k' = (if k' = k then None else map_get m k')"
    by (simp add: map_get_def map_del_def delete_conv')
  show "map_ok ([] :: 'v gomap)" by (simp add: map_ok_def)
  show "map_ok m \<Longrightarrow> map_ok (map_put k v m)"
    by (simp add: map_ok_def map_put_def distinct_update)
  show "map_ok m \<Longrightarrow> map_ok (map_del k m)"
    by (simp add: map_ok_def map_del_def distinct_delete)
  show "finite (dom (map_get m))" by (simp add: map_get_def finite_dom_map_of)
  show "map_ok m \<Longrightarrow> map_len m = card (dom (map_get m))"
    by (metis distinct_card dom_map_of_conv_image_fst length_map list.set_map map_get_def
        map_len_def map_ok_def)
qed

lemmas map_simps [simp] = gm.get_empty gm.get_put gm.get_del gm.ok_empty gm.ok_put gm.ok_del

lemma map_get_Cons [simp]: "map_get ((k, v) # m) k' = (if k' = k then Some v else map_get m k')"
  by (simp add: map_get_def)

text \<open>The values of a map are the images of its keys.\<close>

lemma set_map_values: "map_ok m \<Longrightarrow> set (map_values m) = ran (map_get m)"
  by (simp add: map_ok_def map_values_def map_get_def ran_distinct)

lemma map_get_member: "map_get m k = Some v \<Longrightarrow> (k, v) \<in> set m"
  by (simp add: map_get_def map_of_SomeD)

lemma map_get_iff: "map_ok m \<Longrightarrow> map_get m k = Some v \<longleftrightarrow> (k, v) \<in> set m"
  by (simp add: map_get_def map_ok_def)

text \<open>
  \<open>for k, v := range m { if p(v) { delete(m, k) } }\<close>: whatever the order, the entries
  whose value satisfies \<open>p\<close> go and the others stay.
\<close>

definition map_drop :: "('v \<Rightarrow> bool) \<Rightarrow> 'v gomap \<Rightarrow> 'v gomap" where
  "map_drop p m = filter (\<lambda>(k, v). \<not> p v) m"

lemma map_ok_drop [simp]: "map_ok m \<Longrightarrow> map_ok (map_drop p m)"
  by (simp add: map_ok_def map_drop_def distinct_map_filter)

lemma map_get_drop:
  "map_ok m \<Longrightarrow> map_get (map_drop p m) k = Some v \<longleftrightarrow> map_get m k = Some v \<and> \<not> p v"
  by (simp add: map_get_iff) (auto simp: map_drop_def)

text \<open>A fresh key is stored without moving the entries there are.\<close>

lemma map_put_fresh: "map_get m k = None \<Longrightarrow> map_put k v m = m @ [(k, v)]"
  unfolding map_get_def map_put_def by (induction m) (auto split: if_splits)

end
