(* ===== verification/GoSet.thy ===== *)
theory GoSet
  imports GoMap "HOL-Library.Multiset"
begin

text \<open>
  \<open>blockchain/set.go\<close>: a set of items keyed by the string their \<open>GetHashStr\<close> returns. The
  type parameter's method is an argument \<open>hash\<close>; for pointer items it reads the store, so
  a set of pointers may hold an item under a key that is no longer its hash. Each operation
  runs under the set's own mutex, so it is one step. \<open>ToArray\<close> ranges over a Go map: the
  order of the result is an argument \<open>ord\<close>, any function that permutes its list.
\<close>

section \<open>The model\<close>

record 'a goset =
  items :: "'a gomap"

definition is_order :: "('a list \<Rightarrow> 'a list) \<Rightarrow> bool" where
  "is_order ord \<longleftrightarrow> (\<forall>xs. mset (ord xs) = mset xs)"

definition NewSet :: "'a goset" where
  "NewSet = \<lparr>items = []\<rparr>"

definition Set_Contains :: "('a \<Rightarrow> string) \<Rightarrow> 'a goset \<Rightarrow> 'a \<Rightarrow> bool" where
  "Set_Contains hash s value = (map_get (items s) (hash value) \<noteq> None)"

definition Set_Add :: "('a \<Rightarrow> string) \<Rightarrow> 'a goset \<Rightarrow> 'a \<Rightarrow> 'a goset" where
  "Set_Add hash s value =
     (if \<not> Set_Contains hash s value
      then s\<lparr>items := map_put (hash value) value (items s)\<rparr> else s)"

definition Set_Remove :: "('a \<Rightarrow> string) \<Rightarrow> 'a goset \<Rightarrow> 'a \<Rightarrow> 'a goset" where
  "Set_Remove hash s value =
     (if Set_Contains hash s value
      then s\<lparr>items := map_del (hash value) (items s)\<rparr> else s)"

definition Set_Size :: "'a goset \<Rightarrow> nat" where
  "Set_Size s = map_len (items s)"

definition Set_ToArray :: "('a list \<Rightarrow> 'a list) \<Rightarrow> 'a goset \<Rightarrow> 'a list" where
  "Set_ToArray ord s = ord (map_values (items s))"

definition Set_Clear :: "'a goset \<Rightarrow> 'a goset" where
  "Set_Clear s = s\<lparr>items := []\<rparr>"

definition set_ok :: "'a goset \<Rightarrow> bool" where
  "set_ok s = map_ok (items s)"

definition set_view :: "'a goset \<Rightarrow> string \<Rightarrow> 'a option" where
  "set_view s = map_get (items s)"

section \<open>The interface its clients rely on\<close>

locale keyed_set =
  fixes hash :: "'a \<Rightarrow> string"
    and empty :: "'s"
    and contains :: "'s \<Rightarrow> 'a \<Rightarrow> bool"
    and add :: "'s \<Rightarrow> 'a \<Rightarrow> 's"
    and remove :: "'s \<Rightarrow> 'a \<Rightarrow> 's"
    and clear :: "'s \<Rightarrow> 's"
    and size_of :: "'s \<Rightarrow> nat"
    and to_array :: "('a list \<Rightarrow> 'a list) \<Rightarrow> 's \<Rightarrow> 'a list"
    and view :: "'s \<Rightarrow> string \<Rightarrow> 'a option"
    and ok :: "'s \<Rightarrow> bool"
  assumes view_empty: "view empty = (\<lambda>k. None)"
    and contains_view: "contains s v \<longleftrightarrow> view s (hash v) \<noteq> None"
    and view_add: "view (add s v) =
      (if view s (hash v) = None then (view s)(hash v \<mapsto> v) else view s)"
    and view_remove: "view (remove s v) = (view s)(hash v := None)"
    and view_clear: "view (clear s) = (\<lambda>k. None)"
    and ok_empty: "ok empty"
    and ok_add: "ok s \<Longrightarrow> ok (add s v)"
    and ok_remove: "ok s \<Longrightarrow> ok (remove s v)"
    and ok_clear: "ok (clear s)"
    and size_view: "ok s \<Longrightarrow> size_of s = card (dom (view s))"
    and array_view: "ok s \<Longrightarrow> is_order ord \<Longrightarrow> set (to_array ord s) = ran (view s)"
    and array_length: "ok s \<Longrightarrow> is_order ord \<Longrightarrow> length (to_array ord s) = size_of s"
begin

definition keyed :: "'s \<Rightarrow> bool" where
  "keyed s \<longleftrightarrow> (\<forall>k v. view s k = Some v \<longrightarrow> hash v = k)"

definition add_all :: "'s \<Rightarrow> 'a list \<Rightarrow> 's" where
  "add_all s vs = foldl add s vs"

lemma keyed_empty: "keyed empty"
  by (simp add: keyed_def view_empty)

lemma keyed_add: "keyed s \<Longrightarrow> keyed (add s v)"
  by (auto simp: keyed_def view_add)

lemma keyed_remove: "keyed s \<Longrightarrow> keyed (remove s v)"
  by (auto simp: keyed_def view_remove)

lemma contains_add: "contains (add s v) w \<longleftrightarrow> hash w = hash v \<or> contains s w"
  by (auto simp: contains_view view_add)

lemma contains_remove: "contains (remove s v) w \<longleftrightarrow> hash w \<noteq> hash v \<and> contains s w"
  by (auto simp: contains_view view_remove)

lemma add_present: "contains s v \<Longrightarrow> view (add s v) = view s"
  by (auto simp: contains_view view_add)

lemma remove_add_absent: "\<not> contains s v \<Longrightarrow> view (remove (add s v) v) = view s"
  by (auto simp: contains_view view_remove view_add fun_eq_iff)

lemma ok_add_all: "ok s \<Longrightarrow> ok (add_all s vs)"
  by (induction vs arbitrary: s) (auto simp: add_all_def ok_add)

lemma keyed_add_all: "keyed s \<Longrightarrow> keyed (add_all s vs)"
  by (induction vs arbitrary: s) (auto simp: add_all_def keyed_add)

lemma dom_add_all: "dom (view (add_all s vs)) = dom (view s) \<union> hash ` set vs"
proof (induction vs arbitrary: s)
  case Nil
  then show ?case by (simp add: add_all_def)
next
  case (Cons v vs)
  have "dom (view (add s v)) = insert (hash v) (dom (view s))"
    by (auto simp: view_add)
  then show ?case using Cons.IH [of "add s v"] by (auto simp: add_all_def)
qed

lemma ran_add_all: "ran (view (add_all s vs)) \<subseteq> ran (view s) \<union> set vs"
proof (induction vs arbitrary: s)
  case Nil
  then show ?case by (simp add: add_all_def)
next
  case (Cons v vs)
  have "ran (view (add s v)) \<subseteq> insert v (ran (view s))"
    by (auto simp: view_add ran_def split: if_splits)
  then show ?case using Cons.IH [of "add s v"] by (auto simp: add_all_def)
qed

text \<open>When the hash tells the items apart, the array of a keyed set has no duplicates.\<close>

lemma keyed_array_hashes:
  assumes "ok s" "keyed s" "is_order ord"
  shows "hash ` set (to_array ord s) = dom (view s)"
  using assms by (force simp: array_view keyed_def ran_def dom_def image_def)

end

section \<open>The model provides it\<close>

lemma set_ToArray_mset: "is_order ord \<Longrightarrow> mset (Set_ToArray ord s) = mset (map_values (items s))"
  by (simp add: Set_ToArray_def is_order_def)

interpretation gs: keyed_set hash NewSet "Set_Contains hash" "Set_Add hash" "Set_Remove hash"
  Set_Clear Set_Size Set_ToArray set_view set_ok for hash :: "'a \<Rightarrow> string"
proof
  fix s :: "'a goset" and v :: 'a and ord :: "'a list \<Rightarrow> 'a list"
  show "set_view NewSet = (\<lambda>k. None :: 'a option)"
    by (simp add: set_view_def NewSet_def fun_eq_iff)
  show "Set_Contains hash s v \<longleftrightarrow> set_view s (hash v) \<noteq> None"
    by (simp add: Set_Contains_def set_view_def)
  show "set_view (Set_Add hash s v) =
      (if set_view s (hash v) = None then (set_view s)(hash v \<mapsto> v) else set_view s)"
    by (auto simp: set_view_def Set_Add_def Set_Contains_def fun_eq_iff)
  show "set_view (Set_Remove hash s v) = (set_view s)(hash v := None)"
    by (auto simp: set_view_def Set_Remove_def Set_Contains_def fun_eq_iff)
  show "set_view (Set_Clear s) = (\<lambda>k. None)"
    by (simp add: set_view_def Set_Clear_def fun_eq_iff)
  show "set_ok (NewSet :: 'a goset)" by (simp add: set_ok_def NewSet_def)
  show "set_ok s \<Longrightarrow> set_ok (Set_Add hash s v)" by (simp add: set_ok_def Set_Add_def)
  show "set_ok s \<Longrightarrow> set_ok (Set_Remove hash s v)" by (simp add: set_ok_def Set_Remove_def)
  show "set_ok (Set_Clear s)" by (simp add: set_ok_def Set_Clear_def)
  show "set_ok s \<Longrightarrow> Set_Size s = card (dom (set_view s))"
    by (simp add: set_ok_def Set_Size_def set_view_def gm.size_dom)
  show "set_ok s \<Longrightarrow> is_order ord \<Longrightarrow> set (Set_ToArray ord s) = ran (set_view s)"
    using mset_eq_setD [OF set_ToArray_mset [of ord s]]
    by (simp add: set_ok_def set_view_def set_map_values)
  show "set_ok s \<Longrightarrow> is_order ord \<Longrightarrow> length (Set_ToArray ord s) = Set_Size s"
    using mset_eq_length [OF set_ToArray_mset [of ord s]]
    by (simp add: Set_Size_def map_len_def map_values_def)
qed

lemmas set_intros = gs.ok_empty gs.ok_add gs.ok_remove gs.ok_clear gs.ok_add_all
  gs.keyed_empty gs.keyed_add gs.keyed_remove gs.keyed_add_all

end
