(* ===== verification/Blockchain.thy ===== *)
theory Blockchain
  imports Replay GoSet
begin

text \<open>
  \<open>blockchain/blockchain.go\<close>: the configuration and the genesis block. The starting balances
  are a Go map that may be \<open>nil\<close>; \<open>ord\<close> is the order its iteration takes, \<open>now\<close> the clock.
\<close>

record BlockchainConfig =
  coinbaseAmount :: u32
  defaultTxFee :: u32
  confirmedDepth :: u32

definition MakeGenesis ::
  "crypto \<Rightarrow> go_time \<Rightarrow> ((string \<times> u32) list \<Rightarrow> (string \<times> u32) list) \<Rightarrow> u32 \<Rightarrow> u32 \<Rightarrow> u32 \<Rightarrow> u32
   \<Rightarrow> u32 gomap option \<Rightarrow> (error + Block option) \<times> BlockchainConfig" where
  "MakeGenesis H now ord leading_zeros coinbase_amt tx_fee confirmed_depth starting_balances =
     (let newconfig = \<lparr>coinbaseAmount = coinbase_amt, defaultTxFee = tx_fee,
                       confirmedDepth = confirmed_depth\<rparr>
      in case starting_balances of
           None \<Rightarrow> (Inl (Error ''makeGenesis(...): starting_balances cannot be nil''), newconfig)
         | Some m \<Rightarrow>
             (let target = CalculateTarget leading_zeros;
                  newblock = NewBlock H now [] None target coinbase_amt
              in (Inr (map_option (\<lambda>b. foldl (\<lambda>b (k, v).
                     b\<lparr>Balances := append_slice (Balances b)
                          [\<lparr>Balance_id = k, Balance = v\<rparr>]\<rparr>) b (ord m)) newblock), newconfig)))"

definition MakeGenesisDefault ::
  "crypto \<Rightarrow> go_time \<Rightarrow> ((string \<times> u32) list \<Rightarrow> (string \<times> u32) list) \<Rightarrow> u32 gomap option
   \<Rightarrow> (error + Block option) \<times> BlockchainConfig" where
  "MakeGenesisDefault H now ord startingBalances =
     MakeGenesis H now ord POW_LEADING_ZEROES COINBASE_AMT_ALLOWED DEFAULT_TX_FEE CONFIRMED_DEPTH
       startingBalances"

section \<open>The genesis block\<close>

lemma append_balances:
  "foldl (\<lambda>b (k, v). b\<lparr>Balances := append_slice (Balances b) [\<lparr>Balance_id = k, Balance = v\<rparr>]\<rparr>)
     (b\<lparr>Balances := Some rows\<rparr>) kvs =
   b\<lparr>Balances := Some (rows @ map (\<lambda>(k, v). \<lparr>Balance_id = k, Balance = v\<rparr>) kvs)\<rparr>"
  by (induction kvs arbitrary: rows) (auto simp: append_slice_def)

lemma MakeGenesis_Some:
  "MakeGenesis H now ord lz amt fee depth (Some m) =
     (Inr (Some \<lparr>PrevBlockHash = [], Target = CalculateTarget lz, Proof = 0,
        Balances = Some (map (\<lambda>(k, v). \<lparr>Balance_id = k, Balance = v\<rparr>) (ord m)),
        NextNonce = Some [], Transactions = Some [], ChainLength = 0, Timestamp = now,
        RewardAddr = [], CoinbaseReward = amt\<rparr>),
      \<lparr>coinbaseAmount = amt, defaultTxFee = fee, confirmedDepth = depth\<rparr>)"
  using append_balances [where rows = "[]" and kvs = "ord m" and b = "\<lparr>PrevBlockHash = [], Target = CalculateTarget lz, Proof = 0,
        Balances = Some [], NextNonce = Some [], Transactions = Some [], ChainLength = 0,
        Timestamp = now, RewardAddr = [], CoinbaseReward = amt\<rparr>"]
  by (simp add: MakeGenesis_def NewBlock_def Let_def)

lemma find_balance_row:
  "distinct (map fst kvs) \<Longrightarrow>
   (case List.find (\<lambda>r. Balance_id r = k) (map (\<lambda>(k, v). \<lparr>Balance_id = k, Balance = v\<rparr>) kvs) of
      None \<Rightarrow> 0 | Some r \<Rightarrow> Balance r) = (case map_of kvs k of None \<Rightarrow> 0 | Some v \<Rightarrow> v)"
  by (induction kvs) auto

lemma order_map:
  assumes "is_order ord" "map_ok m"
  shows "distinct (map fst (ord m))" "map_of (ord m) = map_get m" "set (ord m) = set m"
proof -
  have ms: "mset (ord m) = mset m" using assms(1) by (simp add: is_order_def)
  then have "mset (map fst (ord m)) = mset (map fst m)" by simp
  then show d: "distinct (map fst (ord m))"
    using assms(2) by (metis map_ok_def mset_eq_imp_distinct_iff)
  show s: "set (ord m) = set m" using ms by (rule mset_eq_setD)
  show "map_of (ord m) = map_get m"
    using d s assms(2) by (simp add: map_get_def map_ok_def map_of_inject_set)
qed

end
