(* ===== verification/Demo.thy ===== *)
theory Demo
  imports Blockchain
begin

text \<open>
  Concrete values on which the witnesses run the operations: a signature scheme with one
  signature, and a hash of at most 32 bytes that reads the first string field after byte 18 of its
  input, which is the previous block's hash for a block. It tells the blocks of a chain apart and is
  small enough for any target.
\<close>

definition demo_crypto :: crypto where
  "demo_crypto = \<lparr>Sum256 = (\<lambda>d. CHR ''a'' # take 31 (takeWhile (\<lambda>c. c \<noteq> CHR 0x22) (drop 18 d))),
     SignPKCS1v15 = (\<lambda>k d. Ok (Inr ''7'')), VerifyPKCS1v15 = (\<lambda>n e d s. s = ''7'')\<rparr>"

definition demo_key :: PrivateKey where
  "demo_key = \<lparr>Public = \<lparr>N = Some 7, E = 3\<rparr>, D = Some 7, Primes = None,
     Precomputed = \<lparr>Dp = None, Dq = None, Qinv = None, CRTValues = None\<rparr>\<rparr>"

definition demo_time :: go_time where
  "demo_time = \<lparr>t_year = 2022, t_month = 5, t_day = 9, t_hour = 10, t_minute = 30, t_second = 0,
     t_nanosecond = 0, t_offset = 0\<rparr>"

definition demo_genesis :: Block where
  "demo_genesis = \<lparr>PrevBlockHash = [], Target = 2 ^ 200, Proof = 0,
     Balances = Some [\<lparr>Balance_id = ''alice'', Balance = 100\<rparr>, \<lparr>Balance_id = ''bob'', Balance = 50\<rparr>],
     NextNonce = Some [], Transactions = Some [], ChainLength = 0, Timestamp = demo_time,
     RewardAddr = [], CoinbaseReward = 25\<rparr>"

definition demo_pay :: "string \<Rightarrow> u32 \<Rightarrow> u32 \<Rightarrow> Output list \<Rightarrow> Transaction" where
  "demo_pay from nonce fee outputs =
     \<lparr>Info = \<lparr>From = from, Info_Nonce = nonce, Pubkey = Public demo_key, Fee = fee,
              Outputs = Some outputs, Data = Some []\<rparr>,
      Sig = Some ''7''\<rparr>"

abbreviation demo_out :: "string \<Rightarrow> u32 \<Rightarrow> Output" where
  "demo_out a v \<equiv> \<lparr>Out_Address = a, Out_Amount = v\<rparr>"

lemmas demo_defs = demo_crypto_def demo_key_def demo_genesis_def demo_pay_def

lemma demo_verifies [simp]: "VerifySignature demo_crypto (demo_pay a n f vs) = Ok True"
  by (simp add: VerifySignature_def demo_defs Let_def bytes_of_def)

lemma demo_signs: "rsa_sign demo_crypto demo_key d = Ok (Inr ''7'')"
  by (simp add: rsa_sign_def demo_defs)

lemma demo_genesis_ledger [simp]:
  "BalanceOf demo_genesis ''alice'' = 100" "BalanceOf demo_genesis ''bob'' = 50"
  "NonceOf demo_genesis k = 0" "elems (Transactions demo_genesis) = []" "gold demo_genesis = 150"
  "fees demo_genesis = 0"
  by (simp_all add: BalanceOf_find NonceOf_def demo_genesis_def gold_def fees_def)

lemma demo_no_account: "BalanceOf demo_genesis ''dave'' = 0" "BalanceOf demo_genesis ''erin'' = 0"
  by (simp_all add: BalanceOf_find demo_genesis_def)

lemma demo_pay_fields [simp]:
  "From (Info (demo_pay a n f vs)) = a" "Info_Nonce (Info (demo_pay a n f vs)) = n"
  "Fee (Info (demo_pay a n f vs)) = f" "tx_outputs (demo_pay a n f vs) = vs"
  "Sig (demo_pay a n f vs) = Some ''7''" "N (Pubkey (Info (demo_pay a n f vs))) = Some 7"
  by (simp_all add: demo_defs)

lemma demo_total [simp]:
  "TotalOutput (demo_pay a n f vs) = sum_list (map Out_Amount vs) + f"
  "total_nat (demo_pay a n f vs) = nat_sum (map Out_Amount vs) + unat f"
  by (simp_all add: TotalOutput_sum total_nat_def)

text \<open>On the genesis block a payment is accepted when it has nonce 0 and is covered.\<close>

lemma demo_accepts:
  "spec_accepts demo_crypto (ledger_of demo_genesis) (demo_pay a n f vs) \<longleftrightarrow>
     sum_list (map Out_Amount vs) + f \<le> BalanceOf demo_genesis a \<and> n = 0"
  by (simp add: spec_accepts_def ledger_of_def)

section \<open>The demo hash of a block\<close>

lemma demo_sum_block:
  assumes "plain (PrevBlockHash b)" "json_time (Timestamp b) = Inr t" "length (PrevBlockHash b) < 32"
  obtains data where "BlockToBytes (block4hash b) = Inr data"
    "Sum256 demo_crypto data = CHR ''a'' # PrevBlockHash b"
proof -
  let ?p = "PrevBlockHash b"
  obtain r where "BlockToBytes (block4hash b) =
      Inr (CHR ''{'' # CHR 0x22 # ''PrevBlockHash'' @ CHR 0x22 # CHR '':'' # CHR 0x22 # ?p @ CHR 0x22 # r)"
    using assms by (simp add: BlockToBytes_def json_block_def block4hash_def quote_def escape_plain
        escape_ascii_def backslash_def)
  then show thesis
    using that assms(3) by (simp add: demo_crypto_def takeWhile_plain assms(1))
qed

text \<open>The hash of a block whose predecessor's hash is short, as a function of the latter.\<close>

definition demo_hash :: "string \<Rightarrow> string" where
  "demo_hash prev = hex_encode (CHR ''a'' # prev)"

lemma demo_hash_plain [simp]: "plain (demo_hash s)"
  unfolding demo_hash_def by (rule hex_encode_plain)

lemma length_demo_hash [simp]: "length (demo_hash s) = 2 * length s + 2"
  by (simp add: demo_hash_def length_hex_encode)

lemma demo_hash_longer [simp]: "demo_hash s \<noteq> s" "s \<noteq> demo_hash s" "demo_hash s \<noteq> []" "[] \<noteq> demo_hash s"
  by (rule length_neq; simp)+

lemma demo_hash_block:
  assumes "plain (PrevBlockHash b)" "json_time (Timestamp b) = Inr t" "length (PrevBlockHash b) < 32"
  shows "GetHash demo_crypto b = Inr (demo_hash (PrevBlockHash b))"
    "GetHashStr demo_crypto b = demo_hash (PrevBlockHash b)"
  using assms by (auto elim!: demo_sum_block simp: GetHash_def GetHashStr_def demo_hash_def)

lemma set_bytes_less: "set_bytes bs < 256 ^ length bs"
proof -
  have "foldl (\<lambda>n b. n * 256 + byte b) 0 bs < 256 ^ length bs"
  proof (induction bs rule: rev_induct)
    case Nil
    then show ?case by simp
  next
    case (snoc b bs)
    have step: "(x :: nat) < m \<Longrightarrow> y < 256 \<Longrightarrow> x * 256 + y < 256 * m" for x y m by linarith
    show ?case using step [OF snoc nat_of_char_less_256 [of b]] by simp
  qed
  then have "int (foldl (\<lambda>n b. n * 256 + byte b) 0 bs) < int (256 ^ length bs)" by linarith
  then show ?thesis by (simp add: set_bytes_def)
qed

lemma demo_sum_bound: "set_bytes (Sum256 demo_crypto d) < 2 ^ 256"
proof -
  have "length (Sum256 demo_crypto d) \<le> 32" by (simp add: demo_crypto_def)
  then have "(256 :: int) ^ length (Sum256 demo_crypto d) \<le> 256 ^ 32" by (intro power_increasing) simp_all
  also have "(256 :: int) ^ 32 = 2 ^ 256" by simp
  finally show ?thesis using set_bytes_less [of "Sum256 demo_crypto d"] by linarith
qed

lemma demo_json_time: "json_time demo_time = Inr (JStr (rfc3339 demo_time))"
  by (simp add: json_time_def demo_time_def)

text \<open>A short enough predecessor hash gives a valid proof for a target of at least \<open>2 ^ 200\<close>.\<close>

lemma demo_proof:
  assumes "plain (PrevBlockHash b)" "Timestamp b = demo_time" "2 ^ 200 \<le> Target b"
    "length (PrevBlockHash b) \<le> 20"
  shows "hasValidProof demo_crypto b"
proof -
  obtain data where data: "BlockToBytes (block4hash b) = Inr data"
    "Sum256 demo_crypto data = CHR ''a'' # PrevBlockHash b"
    using demo_sum_block [of b "JStr (rfc3339 demo_time)"] assms demo_json_time by auto
  have "set_bytes (Sum256 demo_crypto data) < 256 ^ length (CHR ''a'' # PrevBlockHash b)"
    unfolding data(2) by (rule set_bytes_less)
  also have "\<dots> \<le> (256 :: int) ^ 21" using assms(4) by (intro power_increasing) simp_all
  also have "\<dots> \<le> 2 ^ 200" by simp
  also have "\<dots> \<le> Target b" by (rule assms(3))
  finally show ?thesis using data(1) by (simp add: hasValidProof_def)
qed

section \<open>A block on the demo genesis\<close>

definition demo_child :: "Block \<Rightarrow> Transaction list \<Rightarrow> Block" where
  "demo_child prev txs = \<lparr>PrevBlockHash = GetHashStr demo_crypto prev, Target = 2 ^ 200, Proof = 0,
     Balances = Some [], NextNonce = Some [],
     Transactions = Some (map (\<lambda>tx. \<lparr>Tx_id = Tx_Id demo_crypto tx, Tx = tx\<rparr>) txs),
     ChainLength = ChainLength prev + 1, Timestamp = demo_time, RewardAddr = ''miner'',
     CoinbaseReward = 25\<rparr>"

lemma demo_child_fields [simp]:
  "PrevBlockHash (demo_child p txs) = GetHashStr demo_crypto p"
  "elems (Transactions (demo_child p txs)) = map (\<lambda>tx. \<lparr>Tx_id = Tx_Id demo_crypto tx, Tx = tx\<rparr>) txs"
  "map Tx (elems (Transactions (demo_child p txs))) = txs"
  "Transactions (demo_child p txs) \<noteq> None" "ChainLength (demo_child p txs) = ChainLength p + 1"
  by (simp_all add: demo_child_def o_def)

lemma demo_spec_start:
  "spec_start demo_genesis = ledger_of demo_genesis"
  by (simp add: spec_start_def rewarded_def ledger_of_def) (simp add: demo_genesis_def)

lemma demo_reward [simp]: "reward_of demo_genesis = 0"
  by (simp add: reward_of_def demo_genesis_def)

text \<open>A child of the genesis block with one covered payment re-runs.\<close>

lemma demo_rerun:
  assumes "sum_list (map Out_Amount vs) + f \<le> BalanceOf demo_genesis a"
    "sum_list (map Out_Amount vs) + f \<noteq> 0"
  obtains b' where "Rerun demo_crypto (demo_child demo_genesis [demo_pay a 0 f vs]) (Some demo_genesis)
    = Ok (b', True)"
proof -
  let ?tx = "demo_pay a 0 f vs"
  let ?b = "demo_child demo_genesis [?tx]"
  have safe: "safe_tx ?tx" using assms(2) by (simp add: safe_tx_def)
  obtain s where s: "Rerun demo_crypto ?b (Some demo_genesis) =
      Rerun_loop demo_crypto s (elems (Transactions ?b))" "ledger_of s = spec_start demo_genesis"
    by (rule Rerun_start)
  have "spec_accepts demo_crypto (ledger_of s) ?tx"
    unfolding s(2) demo_spec_start using assms(1) by (simp add: demo_accepts)
  with safe obtain c where "AddTransaction demo_crypto s ?tx = Ok (c, True)"
    by (rule AddTransaction_accepts)
  then show thesis using that [of c] s(1) by simp
qed

end
