(* ===== verification/BlockProps.thy ===== *)
theory BlockProps
  imports Demo
begin

text \<open>
  The properties of blocks: the ledger transition, what it keeps of the gold in circulation,
  when it panics, replay protection, the block hash, and the places where the checks of
  \<open>blockchain/block.go\<close> do not give what the ledger needs.
\<close>

section \<open>The ledger transition\<close>

text \<open>C4: AddTransaction computes the abstract ledger transition. Whenever it returns, it reports
  true exactly for the transactions the specification accepts (not yet in the block, signed,
  signature valid, total covered by the sender's balance, nonce the expected one); the balances,
  nonces and transaction identities after it are then the specified ones, and on a refusal the
  ledger is unchanged. No field of the header changes.\<close>

theorem AddTransaction_refines:
  assumes "AddTransaction H b tx = Ok (b', added)"
  shows "added = spec_accepts H (ledger_of b) tx
    \<and> ledger_of b' = (if added then spec_apply H (ledger_of b) tx else ledger_of b)
    \<and> header b' = header b"
proof (cases rule: AddTransaction_outcome [of H b tx])
  case (refused c)
  then show ?thesis
    using assms BalanceOf_Balances [of c b] by (simp add: ledger_of_def)
qed (use assms in auto)

theorem AddTransaction_refines_witness:
  "\<exists>b'. AddTransaction demo_crypto demo_genesis (demo_pay ''alice'' 0 1 [demo_out ''bob'' 30]) = Ok (b', True)
     \<and> BalanceOf b' ''alice'' = 69 \<and> BalanceOf b' ''bob'' = 80 \<and> NonceOf b' ''alice'' = 1"
proof -
  let ?tx = "demo_pay ''alice'' 0 1 [demo_out ''bob'' 30]"
  have "safe_tx ?tx" "spec_accepts demo_crypto (ledger_of demo_genesis) ?tx"
    by (simp_all add: safe_tx_def demo_accepts)
  then obtain b' where b': "AddTransaction demo_crypto demo_genesis ?tx = Ok (b', True)"
    by (rule AddTransaction_accepts)
  have led: "ledger_of b' = spec_apply demo_crypto (ledger_of demo_genesis) ?tx"
    using AddTransaction_refines [OF b'] by simp
  have "BalanceOf b' = led_balance (ledger_of b')" "NonceOf b' = led_nonce (ledger_of b')"
    by (simp_all add: ledger_of_def)
  then show ?thesis
    using b' unfolding led by (simp add: ledger_of_def spec_apply_def pay_to_def Let_def)
qed

text \<open>C13: No gold is made: when the total of a transaction does not wrap around and the gold in
  circulation is below \<open>2 ^ 32\<close>, an accepted transaction moves its amounts between accounts and
  takes its fee out of circulation, and a refused one changes no balance.\<close>

theorem AddTransaction_conserves_gold:
  assumes "AddTransaction H b tx = Ok (b', added)" "no_overflow tx" "gold b < 2 ^ 32"
  shows "gold b' + (if added then unat (Fee (Info tx)) else 0) = gold b"
proof (cases rule: AddTransaction_outcome [of H b tx])
  case (refused c)
  then show ?thesis using assms gold_cong [of c b] by simp
qed (use assms in simp_all)

theorem AddTransaction_conserves_gold_witness:
  "\<exists>b'. AddTransaction demo_crypto demo_genesis (demo_pay ''alice'' 0 1 [demo_out ''carol'' 30]) = Ok (b', True)
     \<and> gold b' + 1 = 150"
proof -
  let ?tx = "demo_pay ''alice'' 0 1 [demo_out ''carol'' 30]"
  have "safe_tx ?tx" "spec_accepts demo_crypto (ledger_of demo_genesis) ?tx" "no_overflow ?tx"
    by (simp_all add: safe_tx_def demo_accepts no_overflow_def)
  moreover from this obtain b' where "AddTransaction demo_crypto demo_genesis ?tx = Ok (b', True)"
    by (metis AddTransaction_accepts)
  ultimately show ?thesis
    using AddTransaction_conserves_gold [of demo_crypto demo_genesis ?tx b' True] by auto
qed

text \<open>C14: AddTransaction panics in exactly two cases: a signed transaction that is not yet in the
  block carries a key without a modulus (nil dereference in the verification), or an otherwise
  acceptable transaction names a sender that has no account, which passes the funds check when its
  total is 0 and is then looked up at index -1 (index out of range).\<close>

theorem AddTransaction_panics_iff:
  "AddTransaction H b tx = Panic p \<longleftrightarrow>
     (\<not> Contains H b tx \<and> Sig tx \<noteq> None \<and> N (Pubkey (Info tx)) = None \<and> p = NilDeref)
     \<or> (spec_accepts H (ledger_of b) tx \<and> From (Info tx) \<notin> accounts b \<and> p = IndexRange)"
proof -
  have nil: "VerifySignature H tx = Panic NilDeref \<longleftrightarrow> N (Pubkey (Info tx)) = None"
    by (simp add: VerifySignature_def Let_def split: option.splits)
  have acc: "spec_accepts H (ledger_of b) tx \<Longrightarrow> N (Pubkey (Info tx)) \<noteq> None"
    using nil by (auto simp: spec_accepts_def)
  have early: "AddTransaction H b tx = Panic NilDeref"
    if "\<not> Contains H b tx" "Sig tx \<noteq> None" "N (Pubkey (Info tx)) = None"
    using that nil by (simp add: AddTransaction_def)
  show ?thesis
    by (cases rule: AddTransaction_outcome [of H b tx])
       (use nil acc early in \<open>auto simp: FindBalanceIndex_missing accounts_def spec_accepts_ledger_of\<close>)
qed

text \<open>C32: What wrap-around makes: the funds check compares the total modulo \<open>2 ^ 32\<close>, so a transaction
  whose amounts and fee add up to more is accepted from an account that holds only the remainder. For
  every block, key and accepted transaction whose credits fit into the balances, the gold in
  circulation, with the fee, grows by exactly the multiple of \<open>2 ^ 32\<close> that the total loses: nothing is
  made exactly when the total does not wrap around.\<close>

theorem overflow_makes_gold:
  assumes "AddTransaction H b tx = Ok (b', True)"
    and "\<And>k. unat (if k = From (Info tx) then BalanceOf b k - TotalOutput tx else BalanceOf b k)
      + nat_sum (map Out_Amount (filter (\<lambda>v. Out_Address v = k) (tx_outputs tx))) < 2 ^ 32"
  shows "total_nat tx mod 2 ^ 32 \<le> unat (BalanceOf b (From (Info tx)))
    \<and> gold b' + unat (Fee (Info tx)) = gold b + 2 ^ 32 * (total_nat tx div 2 ^ 32)
    \<and> (gold b' + unat (Fee (Info tx)) = gold b \<longleftrightarrow> no_overflow tx)"
proof -
  have "unat (debited b tx k) + received k (tx_outputs tx) < 2 ^ 32" for k
    using assms(2) [of k] by (cases "k = From (Info tx)") (simp_all add: debited_def received_def)
  then have "fits (debited b tx) (tx_outputs tx)" by (simp add: fits_def)
  then have gold: "gold b' + unat (Fee (Info tx)) = gold b + 2 ^ 32 * (total_nat tx div 2 ^ 32)"
    using assms(1) by (cases rule: AddTransaction_outcome [of H b tx]) auto
  have "TotalOutput tx \<le> BalanceOf b (From (Info tx))"
    using assms(1) by (cases rule: AddTransaction_outcome [of H b tx]) (auto simp: spec_accepts_def ledger_of_def)
  then have "total_nat tx mod 2 ^ 32 \<le> unat (BalanceOf b (From (Info tx)))"
    by (simp add: word_le_nat_alt unat_TotalOutput)
  then show ?thesis using gold by (auto simp: no_overflow_def)
qed

theorem overflow_makes_gold_witness:
  "\<exists>b'. AddTransaction demo_crypto demo_genesis
       (demo_pay ''alice'' 0 1 [demo_out ''dave'' 2147483648, demo_out ''erin'' 2147483648]) = Ok (b', True)
     \<and> gold demo_genesis = 150 \<and> gold b' + 1 = 150 + 2 ^ 32"
proof -
  let ?tx = "demo_pay ''alice'' 0 1 [demo_out ''dave'' 2147483648, demo_out ''erin'' 2147483648]"
  have "safe_tx ?tx" "spec_accepts demo_crypto (ledger_of demo_genesis) ?tx"
    by (simp_all add: safe_tx_def demo_accepts)
  then obtain b' where b': "AddTransaction demo_crypto demo_genesis ?tx = Ok (b', True)"
    by (rule AddTransaction_accepts)
  have small: "unat (BalanceOf demo_genesis k) \<le> 150" for k
    using balance_le_gold [of demo_genesis k] by simp
  have "unat (if k = From (Info ?tx) then BalanceOf demo_genesis k - TotalOutput ?tx else BalanceOf demo_genesis k)
      + nat_sum (map Out_Amount (filter (\<lambda>v. Out_Address v = k) (tx_outputs ?tx))) < 2 ^ 32" for k
    using small [of k] by auto
  then show ?thesis using overflow_makes_gold [OF b'] b' by simp
qed

text \<open>C33: Nothing ties the sender to the key: in every block, whoever has a key that signs takes all the
  gold of any account at another address than the key's own: the transaction that names the account
  as sender, carries the foreign key, is signed with it and pays the balance less the fee to the key's
  address is accepted (unless the block contains it already), the account is left with nothing and
  its nonce advances.\<close>

theorem signer_need_not_own_account:
  assumes "signs H k" and "thief = GenerateAddress H (Public k)" and "thief \<noteq> victim" and "BalanceOf b victim \<noteq> 0"
    and "NewTransaction victim (NonceOf b victim) (Public k) None fee
      (Some [\<lparr>Out_Address = thief, Out_Amount = BalanceOf b victim - fee\<rparr>]) None = Inr bare"
    and "Sign H bare k = Ok (tx, signature)" and "\<not> Contains H b tx"
  shows "\<exists>b'. AddTransaction H b tx = Ok (b', True) \<and> BalanceOf b' victim = 0
    \<and> BalanceOf b' thief = BalanceOf b thief + (BalanceOf b victim - fee) \<and> NonceOf b' victim = NonceOf b victim + 1"
proof -
  have bare: "Pubkey (Info bare) = Public k" "From (Info bare) = victim" "Info_Nonce (Info bare) = NonceOf b victim"
    "Fee (Info bare) = fee" "tx_outputs bare = [\<lparr>Out_Address = thief, Out_Amount = BalanceOf b victim - fee\<rparr>]"
    using assms(5) by (auto simp: NewTransaction_def)
  obtain s where s: "Sign H bare k = Ok (bare\<lparr>Sig := Some s\<rparr>, Some s)" "VerifySignature H (bare\<lparr>Sig := Some s\<rparr>) = Ok True"
    by (rule Sign_verifies [OF assms(1) bare(1)])
  have tx: "tx = bare\<lparr>Sig := Some s\<rparr>" using s(1) assms(6) by simp
  have total: "TotalOutput tx = BalanceOf b victim" using bare by (simp add: tx TotalOutput_sum)
  have "safe_tx tx" using assms(1,4) bare(1) total by (auto simp: safe_tx_def tx signs_def)
  moreover have "spec_accepts H (ledger_of b) tx"
    using s(2) assms(7) bare total by (simp add: spec_accepts_def ledger_of_def Contains_ids tx)
  ultimately obtain b' where b': "AddTransaction H b tx = Ok (b', True)" by (rule AddTransaction_accepts)
  then have led: "ledger_of b' = spec_apply H (ledger_of b) tx"
    by (cases rule: AddTransaction_outcome [of H b tx]) auto
  have "BalanceOf b' = led_balance (ledger_of b')" "NonceOf b' = led_nonce (ledger_of b')" by (simp_all add: ledger_of_def)
  then show ?thesis
    using b' bare total assms(3) unfolding led by (simp add: spec_apply_def Let_def ledger_of_def pay_to_def tx)
qed

text \<open>Two keys, and a hash under which their addresses differ and have 64 digits.\<close>

theorem signer_need_not_own_account_witness:
  "\<exists>H owner thief b tx b'. length owner = 64 \<and> length thief = 64
     \<and> owner = GenerateAddress H \<lparr>N = Some 11, E = 3\<rparr> \<and> thief = GenerateAddress H (Pubkey (Info tx)) \<and> From (Info tx) = owner
     \<and> BalanceOf b owner = 100 \<and> AddTransaction H b tx = Ok (b', True) \<and> BalanceOf b' owner = 0 \<and> BalanceOf b' thief = 99"
proof -
  define H where "H = demo_crypto\<lparr>Sum256 := \<lambda>d. take 32 (d @ replicate 32 CHR ''0'')\<rparr>"
  define owner thief where "owner = GenerateAddress H \<lparr>N = Some 11, E = 3\<rparr>" and "thief = GenerateAddress H (Public demo_key)"
  define b where "b = demo_genesis\<lparr>Balances := Some [\<lparr>Balance_id = owner, Balance = 100\<rparr>]\<rparr>"
  let ?bare = "demo_pay owner 0 1 [demo_out thief 99]\<lparr>Sig := Some []\<rparr>"
  have printed: "format_bigptr (Some 11) = ''b''" "format_bigptr (N (Public demo_key)) = ''7''"
    "hexadecimal_int 3 = ''3''" "E (Public demo_key) = 3"
    by (simp_all add: format_bigptr_def hexadecimal_int_def hexadecimal.simps digit_def hextable_def demo_key_def)
  then have len: "length owner = 64" "length thief = 64"
    by (simp_all add: owner_def thief_def GenerateAddress_def length_hex_encode H_def)
  have "hd (drop 1 owner) \<noteq> hd (drop 1 thief)"
    by (simp add: owner_def thief_def GenerateAddress_def H_def printed hex_encode_def digit_def hextable_def)
  then have ne: "thief \<noteq> owner" by auto
  have signs: "signs H demo_key" by (simp add: signs_def H_def demo_defs)
  have bal: "BalanceOf b owner = 100" "NonceOf b owner = 0" "BalanceOf b thief = 0" "\<not> Contains H b tx" for tx
    using ne by (auto simp: b_def BalanceOf_find NonceOf_def Contains_ids demo_genesis_def)
  then have bare: "BalanceOf b owner \<noteq> 0" "NewTransaction owner (NonceOf b owner) (Public demo_key) None 1
      (Some [\<lparr>Out_Address = thief, Out_Amount = BalanceOf b owner - 1\<rparr>]) None = Inr ?bare"
    by (simp_all add: NewTransaction_def demo_pay_def)
  have "rsa_sign H demo_key d = Ok (Inr ''7'')" for d by (simp add: rsa_sign_def H_def demo_defs)
  then have "Sign H ?bare demo_key = Ok (?bare\<lparr>Sig := Some ''7''\<rparr>, Some ''7'')" by (rule Sign_success)
  then have sign: "Sign H ?bare demo_key = Ok (demo_pay owner 0 1 [demo_out thief 99], Some ''7'')"
    by (simp add: demo_pay_def)
  from signer_need_not_own_account [OF signs thief_def ne bare sign bal(4)]
  obtain b' where "AddTransaction H b (demo_pay owner 0 1 [demo_out thief 99]) = Ok (b', True)"
    "BalanceOf b' owner = 0" "BalanceOf b' thief = 99"
    by (auto simp: bal)
  then show ?thesis using len bal(1) owner_def thief_def
    by (intro exI [of _ H] exI [of _ owner] exI [of _ thief] exI [of _ b] exI [of _ "demo_pay owner 0 1 [demo_out thief 99]"]
        exI [of _ b']) (simp add: demo_pay_def)
qed

section \<open>Re-running a block\<close>

text \<open>C5: Rerun replays the block's transactions on the previous block's ledger with its reward
  paid: it reports true exactly when the specification accepts them one after the other from there,
  the ledger is then the one the specification reaches, the transactions are the same ones in the
  same order, and the header is unchanged.\<close>

theorem Rerun_refines:
  assumes "Rerun H b (Some prev) = Ok (b', ok)"
  defines "run \<equiv> spec_run H (spec_start prev) (map Tx (elems (Transactions b)))"
  shows "(ok \<longleftrightarrow> run \<noteq> None) \<and> header b' = header b
    \<and> (ok \<longrightarrow> run = Some (ledger_of b')
         \<and> map Tx (elems (Transactions b')) = map Tx (elems (Transactions b)))"
proof -
  obtain s where s: "Rerun H b (Some prev) = Rerun_loop H s (elems (Transactions b))"
    "ledger_of s = spec_start prev" "header s = header b" "Transactions s = Some []"
    by (rule Rerun_start)
  have loop: "Rerun_loop H s (elems (Transactions b)) = Ok (b', ok)" using assms(1) s(1) by simp
  have "header b' = header b" using hdr.rerun_inv [OF _ s(3) loop] by simp
  then show ?thesis
    using Rerun_loop_refines [OF loop] s(2,4) by (auto simp: run_def o_def)
qed

theorem Rerun_refines_witness:
  "\<exists>b'. Rerun demo_crypto (demo_child demo_genesis [demo_pay ''alice'' 0 1 [demo_out ''bob'' 30]])
       (Some demo_genesis) = Ok (b', True)
     \<and> BalanceOf b' ''alice'' = 69 \<and> BalanceOf b' ''bob'' = 80"
proof -
  let ?tx = "demo_pay ''alice'' 0 1 [demo_out ''bob'' 30]"
  obtain b' where b': "Rerun demo_crypto (demo_child demo_genesis [?tx]) (Some demo_genesis) = Ok (b', True)"
    by (rule demo_rerun [of "[demo_out ''bob'' 30]" 1 "''alice''"]) simp_all
  have "led_balance (ledger_of b') = led_balance (spec_apply demo_crypto (ledger_of demo_genesis) ?tx)"
    using Rerun_refines [OF b'] by (auto simp: demo_spec_start split: if_splits)
  then have bal: "BalanceOf b' = led_balance (spec_apply demo_crypto (ledger_of demo_genesis) ?tx)"
    by (simp add: ledger_of_def)
  have "BalanceOf b' ''alice'' = 69" "BalanceOf b' ''bob'' = 80"
    unfolding bal by (simp_all add: ledger_of_def spec_apply_def pay_to_def Let_def)
  then show ?thesis using b' by blast
qed

text \<open>C12: The gold of a chain is its genesis gold plus the rewards less the fees: a successful
  Rerun on a predecessor leaves exactly the predecessor's gold, plus its coinbase reward when it
  names a winner, minus the fees of the block's transactions, provided no transaction's total wraps
  around and the sum stays below \<open>2 ^ 32\<close>. (The fees go to nobody.)\<close>

theorem Rerun_conserves_gold:
  assumes "Rerun H b (Some prev) = Ok (b', ok)"
    and "\<forall>v \<in> set (elems (Transactions b)). no_overflow (Tx v)"
    and "gold prev + reward_of prev < 2 ^ 32"
  shows "gold b' + fees b' = gold prev + reward_of prev"
proof -
  obtain s where s: "Rerun H b (Some prev) = Rerun_loop H s (elems (Transactions b))"
    "Transactions s = Some []" "gold s = gold prev + reward_of prev"
    using Rerun_start [of H b prev] assms(3) by metis
  have "gold s + fees s = gold prev + reward_of prev" using s by (simp add: fees_def)
  then show ?thesis
    using coins.rerun_inv [OF assms(2), of s "gold prev + reward_of prev" H b' ok] assms(1,3) s(1) by simp
qed

theorem Rerun_conserves_gold_witness:
  "\<exists>b'. Rerun demo_crypto (demo_child demo_genesis [demo_pay ''alice'' 0 1 [demo_out ''carol'' 30]])
       (Some demo_genesis) = Ok (b', True) \<and> gold b' + fees b' = 150"
proof -
  let ?tx = "demo_pay ''alice'' 0 1 [demo_out ''carol'' 30]"
  obtain b' where b': "Rerun demo_crypto (demo_child demo_genesis [?tx]) (Some demo_genesis) = Ok (b', True)"
    by (rule demo_rerun [of "[demo_out ''carol'' 30]" 1 "''alice''"]) simp_all
  then show ?thesis using Rerun_conserves_gold [OF b'] by (simp add: no_overflow_def)
qed

text \<open>C21: Rerun keeps the identity of an honest block: when each transaction carries its own hash as
  its id and the transaction slice is not nil, the block hash and the validity of the proof are the
  same after a successful Rerun as before.\<close>

theorem Rerun_keeps_hash:
  assumes "Rerun H b (Some prev) = Ok (b', True)" and "Transactions b \<noteq> None"
    and "\<forall>v \<in> set (elems (Transactions b)). Tx_id v = Tx_Id H (Tx v)"
  shows "GetHash H b' = GetHash H b \<and> hasValidProof H b' = hasValidProof H b"
proof -
  have "honest H b" using assms(2,3) by (simp add: honest_def)
  then show ?thesis using Rerun_same_hash [OF assms(1) assms(1)] by simp
qed

theorem Rerun_keeps_hash_witness:
  "\<exists>b'. Rerun demo_crypto (demo_child demo_genesis [demo_pay ''alice'' 0 1 [demo_out ''bob'' 30]])
       (Some demo_genesis) = Ok (b', True)
     \<and> GetHash demo_crypto b' =
         GetHash demo_crypto (demo_child demo_genesis [demo_pay ''alice'' 0 1 [demo_out ''bob'' 30]])"
proof -
  let ?b = "demo_child demo_genesis [demo_pay ''alice'' 0 1 [demo_out ''bob'' 30]]"
  obtain b' where b': "Rerun demo_crypto ?b (Some demo_genesis) = Ok (b', True)"
    by (rule demo_rerun [of "[demo_out ''bob'' 30]" 1 "''alice''"]) simp_all
  then show ?thesis using Rerun_keeps_hash [OF b'] by simp
qed

text \<open>C20: No replay across blocks: in a block that re-runs on its predecessor, the transactions of
  every sender carry consecutive nonces starting at the predecessor's next nonce; so, below the
  wrap-around, no transaction whose nonce the predecessor has already passed is among them.\<close>

theorem Rerun_nonces_consecutive:
  fixes k :: string
  assumes "Rerun H b (Some prev) = Ok (b', True)"
  defines "sent \<equiv> sent_by k (map Tx (elems (Transactions b)))"
  assumes "unat (NonceOf prev k) + length sent < 2 ^ 32"
  shows "map (\<lambda>tx. unat (Info_Nonce (Info tx))) sent =
      [unat (NonceOf prev k) ..< unat (NonceOf prev k) + length sent]
    \<and> NonceOf b' k = NonceOf prev k + of_nat (length sent)"
proof -
  obtain s where s: "Rerun H b (Some prev) = Rerun_loop H s (elems (Transactions b))"
    "ledger_of s = spec_start prev"
    by (rule Rerun_start)
  have loop: "Rerun_loop H s (elems (Transactions b)) = Ok (b', True)" using assms(1) s(1) by simp
  have "spec_run H (spec_start prev) (map Tx (elems (Transactions b))) = Some (ledger_of b')"
    using Rerun_loop_refines(2) [OF loop] s(2) by simp
  note run = spec_run_nonces [OF this, of k, folded sent_def]
  have "unat (NonceOf prev k + of_nat i) = unat (NonceOf prev k) + i" if "i < length sent" for i
    using that assms(3) by (simp add: unat_word_ariths unat_of_nat)
  then have "map (\<lambda>i. unat (NonceOf prev k + of_nat i)) [0 ..< length sent] =
      map (\<lambda>i. unat (NonceOf prev k) + i) [0 ..< length sent]" by simp
  moreover have "map (\<lambda>tx. unat (Info_Nonce (Info tx))) sent =
      map (\<lambda>i. unat (NonceOf prev k + of_nat i)) [0 ..< length sent]"
    using arg_cong [OF conjunct2 [OF run], of "map unat"] by (simp add: spec_start_def o_def)
  ultimately show ?thesis
    using run by (simp add: spec_start_def ledger_of_def map_add_upt add.commute)
qed

theorem Rerun_nonces_consecutive_witness:
  "\<exists>b'. Rerun demo_crypto (demo_child demo_genesis [demo_pay ''alice'' 0 1 [demo_out ''bob'' 30]])
       (Some demo_genesis) = Ok (b', True) \<and> NonceOf b' ''alice'' = 1"
proof -
  let ?b = "demo_child demo_genesis [demo_pay ''alice'' 0 1 [demo_out ''bob'' 30]]"
  obtain b' where b': "Rerun demo_crypto ?b (Some demo_genesis) = Ok (b', True)"
    by (rule demo_rerun [of "[demo_out ''bob'' 30]" 1 "''alice''"]) simp_all
  then show ?thesis
    using Rerun_nonces_consecutive [OF b', of "''alice''"] by (simp add: sent_by_def)
qed

section \<open>Mining and proof of work\<close>

text \<open>C11: An honestly built block is accepted by its peers: a block made on a predecessor by
  NewBlock, filled by trying transactions in any order and given any proof, re-runs on that
  predecessor, with the same transactions and the same hash, although the peer first pays the
  predecessor's reward, which the miner did not. The transactions' totals must not wrap around and
  the gold must stay below \<open>2 ^ 32\<close>.\<close>

theorem mined_block_reruns:
  assumes "NewBlock H now addr (Some prev) target reward = Some b0"
    and "add_transactions H b0 txs = Ok b"
    and "\<forall>tx \<in> set txs. no_overflow tx" and "gold prev + reward_of prev < 2 ^ 32"
  shows "\<exists>b'. Rerun H (b\<lparr>Proof := p\<rparr>) (Some prev) = Ok (b', True)
    \<and> Transactions b' = Transactions b \<and> GetHash H b' = GetHash H (b\<lparr>Proof := p\<rparr>)"
  using assms by (rule mined_reruns)

theorem mined_block_reruns_witness:
  "\<exists>b0 b b'. NewBlock demo_crypto demo_time ''miner'' (Some demo_genesis) (2 ^ 200) 25 = Some b0
     \<and> add_transactions demo_crypto b0 [demo_pay ''alice'' 0 1 [demo_out ''bob'' 30]] = Ok b
     \<and> Rerun demo_crypto (b\<lparr>Proof := 17\<rparr>) (Some demo_genesis) = Ok (b', True)"
proof -
  let ?tx = "demo_pay ''alice'' 0 1 [demo_out ''bob'' 30]"
  have "GetHash demo_crypto demo_genesis = Inr (demo_hash [])"
    using demo_hash_block(1) [of demo_genesis] by (simp add: demo_genesis_def demo_time_def json_time_def)
  then obtain b0 where b0: "NewBlock demo_crypto demo_time ''miner'' (Some demo_genesis) (2 ^ 200) 25 = Some b0"
    by (auto simp: NewBlock_def Let_def)
  have "\<forall>tx \<in> set [?tx]. safe_tx tx" by (simp add: safe_tx_def)
  then obtain b where b: "add_transactions demo_crypto b0 [?tx] = Ok b"
    by (rule add_transactions_safe)
  show ?thesis using mined_block_reruns [OF b0 b, of 17] b0 b by (auto simp: no_overflow_def)
qed

text \<open>Proof of work: with the target CalculateTarget gives for n leading zeroes, a block whose
  hash is defined has a valid proof exactly when its hash, read as a big-endian number, is below
  \<open>2 ^ (256 - n) - 1\<close>; beyond 256 no proof is valid.\<close>

lemma hasValidProof_leading_zeroes:
  assumes "Target b = CalculateTarget n" and "BlockToBytes (block4hash b) = Inr data"
  shows "hasValidProof H b \<longleftrightarrow>
    unat n \<le> 256 \<and> set_bytes (Sum256 H data) < 2 ^ (256 - unat n) - 1"
  using assms by (simp add: hasValidProof_def CalculateTarget_eq set_bytes_def)

section \<open>The genesis block\<close>

text \<open>C22: MakeGenesis: with a nil map it fails; otherwise, for every order in which the map is
  iterated, the block is a genesis block with no transactions that gives each address exactly its
  starting balance (0 to the others), so its gold is the sum of the starting balances.\<close>

theorem MakeGenesis_balances:
  assumes "is_order ord" and "map_ok m"
  shows "fst (MakeGenesis H now ord lz amt fee depth None) =
      Inl (Error ''makeGenesis(...): starting_balances cannot be nil'')
    \<and> (\<exists>b. fst (MakeGenesis H now ord lz amt fee depth (Some m)) = Inr (Some b)
      \<and> IsGenesisBlock b \<and> Transactions b = Some [] \<and> PrevBlockHash b = []
      \<and> (\<forall>k. BalanceOf b k = (case map_get m k of None \<Rightarrow> 0 | Some v \<Rightarrow> v))
      \<and> gold b = nat_sum (map_values m))"
proof -
  note o = order_map [OF assms]
  have "mset (map snd (ord m)) = mset (map snd m)"
    using assms(1) unfolding is_order_def by (metis mset_map)
  then have "sum_mset (image_mset unat (mset (map snd (ord m)))) = sum_mset (image_mset unat (mset (map snd m)))"
    by simp
  then have "sum_list (map unat (map snd (ord m))) = sum_list (map unat (map snd m))"
    by (metis mset_map sum_mset_sum_list)
  then have "nat_sum (map snd (ord m)) = nat_sum (map_values m)"
    by (simp add: nat_sum_def map_values_def)
  moreover have "fst (MakeGenesis H now ord lz amt fee depth None) =
      Inl (Error ''makeGenesis(...): starting_balances cannot be nil'')"
    by (simp add: MakeGenesis_def)
  ultimately show ?thesis
    using find_balance_row [OF o(1)] o(2)
    by (simp add: MakeGenesis_Some IsGenesisBlock_def BalanceOf_find gold_def o_def split_def)
qed

theorem MakeGenesis_balances_witness:
  "\<exists>b. fst (MakeGenesis demo_crypto demo_time rev 15 25 1 6 (Some [(''alice'', 100), (''bob'', 50)])) =
       Inr (Some b) \<and> BalanceOf b ''bob'' = 50 \<and> gold b = 150"
proof -
  have "is_order (rev :: (string \<times> u32) list \<Rightarrow> _)" by (simp add: is_order_def)
  moreover have "map_ok [(''alice'', 100 :: u32), (''bob'', 50)]" by (simp add: map_ok_def)
  ultimately show ?thesis
    using MakeGenesis_balances [of rev "[(''alice'', 100 :: u32), (''bob'', 50)]" demo_crypto demo_time 15 25 1 6]
    by (auto simp: map_get_def map_values_def)
qed

end
