(* ===== verification/Client.thy ===== *)
theory Client
  imports Blockchain
begin

text \<open>
  \<open>blockchain/client.go\<close>: a node that follows the chain and posts transactions. The record
  holds the fields of the struct; the network and the emitter are shared objects outside it, so
  an operation returns what it asks of them as a list of effects (a \<open>go\<close> statement is an effect
  too: the goroutine runs some time later). Every operation that takes the node's mutex is one
  step. \<open>miner\<close> and \<open>tcp_miner\<close> extend the record, as their structs repeat its fields.
\<close>

section \<open>State and effects\<close>

text \<open>The methods a node registers with its emitter.\<close>

datatype handler =
  ReceiveBlockBytes_handler | ProvideMissingBlock_handler | FindProof_handler
  | AddTransactionBytes_handler

datatype effect =
  Broadcast string string
| SendMessage string string string
| GoReceiveBlock Block
| GoEmit string bool

record client =
  Name :: string
  Address :: string
  PrivKey :: PrivateKey
  PubKey :: PublicKey
  Blocks :: "Block gomap"
  PendingOutgoingTransactions :: "Transaction gomap"
  PendingReceivedTransactions :: "Transaction gomap"
  PendingBlocks :: "Block goset gomap"
  LastBlock :: "Block option"
  LastConfirmedBlock :: "Block option"
  ReceivedBlock :: "Block option"
  Config :: BlockchainConfig
  Client_Nonce :: u32
  Emitter :: "(string \<times> handler) list"

record Message =
  Msg_Address :: string
  Msg_PrevBlockHash :: string

definition json_message :: "Message \<Rightarrow> json" where
  "json_message m =
     JObj [(''Address'', JStr (Msg_Address m)), (''PrevBlockHash'', JStr (Msg_PrevBlockHash m))]"

definition decode_message :: "Message decoder" where
  "decode_message = decode_struct
     [field ''Address'' decode_string Msg_Address (\<lambda>x. Msg_Address_update (\<lambda>_. x)),
      field ''PrevBlockHash'' decode_string Msg_PrevBlockHash (\<lambda>x. Msg_PrevBlockHash_update (\<lambda>_. x))]"

definition BytesToMessage :: "string \<Rightarrow> error + Message" where
  "BytesToMessage data = Unmarshal decode_message \<lparr>Msg_Address = [], Msg_PrevBlockHash = []\<rparr> data"

text \<open>
  \<open>Log\<close> slices the first ten bytes of the address before it looks at the name, so it panics
  on a shorter address; its output is not modelled.
\<close>

definition Log :: "'a client_scheme \<Rightarrow> unit go" where
  "Log c = (if length (Address c) < 10 then Some (Panic SliceBounds) else ret ())"

section \<open>Genesis and balances\<close>

definition SetGenesisBlock :: "crypto \<Rightarrow> 'a client_scheme \<Rightarrow> Block \<Rightarrow> 'a client_scheme res" where
  "SetGenesisBlock H c startingBlock =
     (case GetHash H startingBlock of
        Inl err \<Rightarrow> Panic (Explicit ''Failed to get block hash'')
      | Inr blockId \<Rightarrow>
          Ok (c\<lparr>LastConfirmedBlock := Some startingBlock, LastBlock := Some startingBlock,
                Blocks := map_put blockId startingBlock (Blocks c)\<rparr>))"

definition ConfirmedBalance :: "'a client_scheme \<Rightarrow> u32 res" where
  "ConfirmedBalance c =
     (case LastConfirmedBlock c of
        None \<Rightarrow> Panic NilDeref
      | Some block \<Rightarrow> Ok (BalanceOf block (Address c)))"

definition pendingSpent :: "'a client_scheme \<Rightarrow> u32" where
  "pendingSpent c =
     foldl (\<lambda>spent tx. spent + TotalOutput tx) 0 (map_values (PendingOutgoingTransactions c))"

definition AvailableGold :: "'a client_scheme \<Rightarrow> u32 res" where
  "AvailableGold c = res_bind (ConfirmedBalance c) (\<lambda>balance. Ok (balance - pendingSpent c))"

section \<open>Posting transactions\<close>

definition PostTransaction ::
  "crypto \<Rightarrow> 'a client_scheme \<Rightarrow> Output slice \<Rightarrow> u32
   \<Rightarrow> ('a client_scheme \<times> Transaction \<times> effect list) res" where
  "PostTransaction H c outputs fee =
     (let total = foldl (\<lambda>total output. total + Out_Amount output) fee (elems outputs)
      in res_bind (AvailableGold c) (\<lambda>available.
        if total > available
        then Panic (Explicit ''Account doesn't have enough balance for transaction'')
        else
          (case NewTransaction (Address c) (Client_Nonce c) (PubKey c) None fee outputs None of
             Inl err \<Rightarrow> Panic NilDeref
           | Inr newTx \<Rightarrow>
               res_bind (Sign H newTx (PrivKey c)) (\<lambda>(tx, signature).
                let data = (case TransactionToBytes tx of Inl err \<Rightarrow> [] | Inr d \<Rightarrow> d)
                in Ok (c\<lparr>PendingOutgoingTransactions :=
                           map_put (Tx_Id H tx) tx (PendingOutgoingTransactions c),
                         Client_Nonce := Client_Nonce c + 1\<rparr>,
                       tx, [Broadcast POST_TRANSACTION data])))))"

definition ResendPendingTransactions ::
  "(Transaction list \<Rightarrow> Transaction list) \<Rightarrow> 'a client_scheme \<Rightarrow> effect list" where
  "ResendPendingTransactions ord c =
     map (\<lambda>tx. Broadcast POST_TRANSACTION (render (json_transaction tx)))
       (ord (map_values (PendingOutgoingTransactions c)))"

section \<open>Confirming\<close>

text \<open>
  \<open>for block.ChainLength > height { block = c.Blocks[block.PrevBlockHash] }\<close>: a missing
  block is a nil pointer, dereferenced by the loop's next test; a cycle runs forever.
\<close>

partial_function (option) confirm_walk :: "Block gomap \<Rightarrow> u32 \<Rightarrow> Block \<Rightarrow> Block go" where
  "confirm_walk blocks height block =
     (if ChainLength block > height
      then (case map_get blocks (PrevBlockHash block) of
              None \<Rightarrow> Some (Panic NilDeref)
            | Some prev \<Rightarrow> confirm_walk blocks height prev)
      else Some (Ok block))"

definition confirmedBlockHeight :: "Block \<Rightarrow> u32" where
  "confirmedBlockHeight block =
     (if ChainLength block > CONFIRMED_DEPTH then ChainLength block - CONFIRMED_DEPTH else 0)"

definition SetLastConfirmed :: "crypto \<Rightarrow> 'a client_scheme \<Rightarrow> 'a client_scheme go" where
  "SetLastConfirmed H c =
     (case LastBlock c of
        None \<Rightarrow> Some (Panic NilDeref)
      | Some lastBlock \<Rightarrow>
          go_bind (confirm_walk (Blocks c) (confirmedBlockHeight lastBlock) lastBlock) (\<lambda>block.
            ret (c\<lparr>LastConfirmedBlock := Some block,
                   PendingOutgoingTransactions :=
                     map_drop (Contains H block) (PendingOutgoingTransactions c)\<rparr>)))"

section \<open>Receiving blocks\<close>

definition RequestMissingBlock :: "'a client_scheme \<Rightarrow> Block \<Rightarrow> effect list go" where
  "RequestMissingBlock c block =
     go_bind (Log c) (\<lambda>_.
       ret [Broadcast MISSING_BLOCK (render (json_message
              \<lparr>Msg_Address = Address c, Msg_PrevBlockHash = PrevBlockHash block\<rparr>))])"

text \<open>A block whose predecessor is unknown waits under the predecessor's hash.\<close>

definition hold_block ::
  "crypto \<Rightarrow> 'a client_scheme \<Rightarrow> Block \<Rightarrow> ('a client_scheme \<times> Block option \<times> effect list) go" where
  "hold_block H c block =
     (case map_get (PendingBlocks c) (PrevBlockHash block) of
        None \<Rightarrow>
          go_bind (RequestMissingBlock c block) (\<lambda>effs.
            ret (c\<lparr>PendingBlocks := map_put (PrevBlockHash block)
                     (Set_Add (GetHashStr H) NewSet block) (PendingBlocks c)\<rparr>, None, effs))
      | Some stuckBlocks \<Rightarrow>
          ret (c\<lparr>PendingBlocks := map_put (PrevBlockHash block)
                   (Set_Add (GetHashStr H) stuckBlocks block) (PendingBlocks c)\<rparr>, None, []))"

text \<open>
  A block that passed: it is stored under its hash as it is now, may become the head, and the
  blocks that waited for it are received again, each in a goroutine of its own.
\<close>

definition accept_block ::
  "crypto \<Rightarrow> (Block list \<Rightarrow> Block list) \<Rightarrow> 'a client_scheme \<Rightarrow> Block
   \<Rightarrow> ('a client_scheme \<times> Block option \<times> effect list) go" where
  "accept_block H ord c block =
     (let blockId = GetHashStr H block;
          c1 = c\<lparr>Blocks := map_put blockId block (Blocks c)\<rparr>
      in case LastBlock c1 of
           None \<Rightarrow> Some (Panic NilDeref)
         | Some lastBlock \<Rightarrow>
             go_bind (if ChainLength lastBlock < ChainLength block
                      then SetLastConfirmed H (c1\<lparr>LastBlock := Some block\<rparr>) else ret c1)
               (\<lambda>c2.
                 let unstuckBlocksArr = (case map_get (PendingBlocks c2) blockId of
                       None \<Rightarrow> [] | Some unstuckBlocks \<Rightarrow> Set_ToArray ord unstuckBlocks);
                     c3 = c2\<lparr>PendingBlocks := map_del blockId (PendingBlocks c2)\<rparr>
                 in go_bind (Log c3) (\<lambda>_.
                      ret (c3, Some block, map GoReceiveBlock unstuckBlocksArr))))"

definition ReceiveBlock ::
  "crypto \<Rightarrow> (Block list \<Rightarrow> Block list) \<Rightarrow> 'a client_scheme \<Rightarrow> Block
   \<Rightarrow> ('a client_scheme \<times> Block option \<times> effect list) go" where
  "ReceiveBlock H ord c b =
     (let blockId = GetHashStr H b
      in if map_get (Blocks c) blockId \<noteq> None then ret (c, None, [])
         else if \<not> hasValidProof H b \<and> \<not> IsGenesisBlock b
         then go_bind (Log c) (\<lambda>_. ret (c, None, []))
         else (let prevBlock = map_get (Blocks c) (PrevBlockHash b)
               in if prevBlock = None \<and> \<not> IsGenesisBlock b then hold_block H c b
                  else go_bind (if \<not> IsGenesisBlock b then Some (Rerun H b prevBlock)
                                else ret (b, True))
                         (\<lambda>(block, ok).
                           if \<not> ok then ret (c, None, []) else accept_block H ord c block)))"

definition ReceiveBlockBytes ::
  "crypto \<Rightarrow> (Block list \<Rightarrow> Block list) \<Rightarrow> 'a client_scheme \<Rightarrow> string
   \<Rightarrow> ('a client_scheme \<times> Block option \<times> effect list) go" where
  "ReceiveBlockBytes H ord c bs =
     (case BytesToBlock bs of
        Inl err \<Rightarrow> Some (Panic (Explicit ''Failed to deseralize block''))
      | Inr block \<Rightarrow> ReceiveBlock H ord c block)"

definition ProvideMissingBlock ::
  "'a client_scheme \<Rightarrow> string \<Rightarrow> effect list go" where
  "ProvideMissingBlock c data =
     (case BytesToMessage data of
        Inl (Error e) \<Rightarrow> Some (Panic (Explicit e))
      | Inr msg \<Rightarrow>
          (case map_get (Blocks c) (Msg_PrevBlockHash msg) of
             None \<Rightarrow> ret []
           | Some val \<Rightarrow>
               go_bind (Log c) (\<lambda>_.
                 case BlockToBytes val of
                   Inl (Error e) \<Rightarrow> Some (Panic (Explicit e))
                 | Inr data \<Rightarrow> ret [SendMessage (Msg_Address msg) PROOF_FOUND data])))"

section \<open>Showing the chain\<close>

text \<open>The hashes \<open>ShowBlockchain\<close> prints, from the head to a block without predecessor.\<close>

partial_function (option) show_walk ::
  "crypto \<Rightarrow> Block gomap \<Rightarrow> Block option \<Rightarrow> string list \<Rightarrow> string list option" where
  "show_walk H blocks block shown =
     (case block of
        None \<Rightarrow> Some shown
      | Some b \<Rightarrow> show_walk H blocks (map_get blocks (PrevBlockHash b)) (shown @ [GetHashStr H b]))"

definition ShowBlockchain :: "crypto \<Rightarrow> 'a client_scheme \<Rightarrow> string list option" where
  "ShowBlockchain H c = show_walk H (Blocks c) (LastBlock c) []"

section \<open>Construction\<close>

definition NewClient ::
  "crypto \<Rightarrow> string \<Rightarrow> Block option \<Rightarrow> PrivateKey option \<Rightarrow> error + PrivateKey \<Rightarrow> client res" where
  "NewClient H name startingBlock keyPair generated =
     (case (case keyPair of None \<Rightarrow> GenerateKeypair generated | Some k \<Rightarrow> Inr (k, Public k)) of
        Inl err \<Rightarrow> Panic NilDeref
      | Inr (privKey, pubKey) \<Rightarrow>
          (let c = \<lparr>Name = name, Address = GenerateAddress H pubKey, PrivKey = privKey,
                    PubKey = pubKey, Blocks = [], PendingOutgoingTransactions = [],
                    PendingReceivedTransactions = [], PendingBlocks = [], LastBlock = None,
                    LastConfirmedBlock = None, ReceivedBlock = None,
                    Config = \<lparr>coinbaseAmount = 0, defaultTxFee = 0, confirmedDepth = 0\<rparr>,
                    Client_Nonce = 0, Emitter = []\<rparr>
           in res_bind (case startingBlock of None \<Rightarrow> Ok c | Some b \<Rightarrow> SetGenesisBlock H c b)
                (\<lambda>c. Ok (c\<lparr>Emitter := [(PROOF_FOUND, ReceiveBlockBytes_handler),
                                        (MISSING_BLOCK, ProvideMissingBlock_handler)]\<rparr>))))"

end
