(* ===== verification/ClientInv.thy ===== *)
theory ClientInv
  imports Client
begin

text \<open>
  The invariant of a node's block store and head, and the effect of accepting a block. Every
  stored block that is not a genesis block has its predecessor in the store, and the
  predecessors are well-founded (a rank decreases along them), so the walks along
  \<open>PrevBlockHash\<close> end. The lemmas hold for any extension of the record, so the miners use them.
\<close>

section \<open>Walking to the confirmed block\<close>

inductive confirms :: "Block gomap \<Rightarrow> u32 \<Rightarrow> Block \<Rightarrow> Block \<Rightarrow> bool"
  for blocks :: "Block gomap" and height :: u32 where
  stop: "\<not> height < ChainLength b \<Longrightarrow> confirms blocks height b b"
| walk: "height < ChainLength b \<Longrightarrow> map_get blocks (PrevBlockHash b) = Some p \<Longrightarrow>
     confirms blocks height p f \<Longrightarrow> confirms blocks height b f"

inductive_cases confirmsE: "confirms blocks height b f"

lemma confirms_walk: "confirms blocks height b f \<Longrightarrow> confirm_walk blocks height b = ret f"
  by (induction rule: confirms.induct) (subst confirm_walk.simps; simp)+

lemma confirms_unique: "confirms blocks height b f \<Longrightarrow> confirms blocks height b g \<Longrightarrow> f = g"
  by (metis confirms_walk ret_inject)

lemma confirms_height: "confirms blocks height b f \<Longrightarrow> ChainLength f \<le> height"
  by (induction rule: confirms.induct) simp_all

text \<open>Storing a block under a fresh hash keeps the walks there were.\<close>

lemma confirms_put:
  "confirms blocks height b f \<Longrightarrow> map_get blocks k = None \<Longrightarrow>
   confirms (map_put k v blocks) height b f"
proof (induction rule: confirms.induct)
  case (walk b p f)
  then show ?case by (intro confirms.walk [of height b _ p]) auto
qed (rule confirms.stop)

text \<open>How far back the confirmed block lies.\<close>

lemma unat_confirmedBlockHeight: "unat (confirmedBlockHeight b) = unat (ChainLength b) - 6"
  by (auto simp: confirmedBlockHeight_def CONFIRMED_DEPTH_def word_less_nat_alt unat_u32_minus
      word_le_nat_alt)

lemma confirmedBlockHeight_le: "confirmedBlockHeight b \<le> ChainLength b"
  by (simp add: word_le_nat_alt unat_confirmedBlockHeight)

definition unit_steps :: "Block gomap \<Rightarrow> bool" where
  "unit_steps blocks \<longleftrightarrow> (\<forall>k b p. map_get blocks k = Some b \<longrightarrow> map_get blocks (PrevBlockHash b) = Some p
     \<longrightarrow> unat (ChainLength b) = Suc (unat (ChainLength p)))"

lemma unit_steps_confirms:
  "confirms blocks height b f \<Longrightarrow> map_get blocks k = Some b \<Longrightarrow> unit_steps blocks \<Longrightarrow>
   height \<le> ChainLength b \<Longrightarrow> ChainLength f = height"
proof (induction arbitrary: k rule: confirms.induct)
  case (walk b p f)
  have "unat (ChainLength b) = Suc (unat (ChainLength p))"
    using walk.hyps(2) walk.prems(1,2) by (simp add: unit_steps_def)
  then have "height \<le> ChainLength p" using walk.hyps(1) by (simp add: word_le_nat_alt word_less_nat_alt)
  then show ?case using walk.IH walk.hyps(2) walk.prems(2) by blast
qed simp

section \<open>The block store\<close>

definition linked :: "Block gomap \<Rightarrow> Block \<Rightarrow> bool" where
  "linked blocks b \<longleftrightarrow> IsGenesisBlock b \<or> map_get blocks (PrevBlockHash b) \<noteq> None"

definition rooted :: "Block gomap \<Rightarrow> bool" where
  "rooted blocks \<longleftrightarrow> (\<exists>rank :: string \<Rightarrow> nat. \<forall>k b. map_get blocks k = Some b \<longrightarrow>
     IsGenesisBlock b \<or>
     (map_get blocks (PrevBlockHash b) \<noteq> None \<and> rank (PrevBlockHash b) < rank k))"

lemma rooted_empty: "rooted []"
  by (simp add: rooted_def)

lemma rooted_linked: "rooted blocks \<Longrightarrow> map_get blocks k = Some b \<Longrightarrow> linked blocks b"
  by (auto simp: rooted_def linked_def)

lemma rooted_put:
  assumes "rooted blocks" "map_get blocks k = None" "linked blocks b"
  shows "rooted (map_put k b blocks)"
proof -
  obtain rank :: "string \<Rightarrow> nat" where rank: "\<And>k b. map_get blocks k = Some b \<Longrightarrow>
     IsGenesisBlock b \<or> (map_get blocks (PrevBlockHash b) \<noteq> None \<and> rank (PrevBlockHash b) < rank k)"
    using assms(1) by (auto simp: rooted_def)
  let ?rank = "rank(k := Suc (rank (PrevBlockHash b)))"
  have "IsGenesisBlock v \<or> (map_get (map_put k b blocks) (PrevBlockHash v) \<noteq> None
      \<and> ?rank (PrevBlockHash v) < ?rank j)" if "map_get (map_put k b blocks) j = Some v" for j v
  proof (cases "j = k")
    case True
    then show ?thesis using that assms(2,3) by (auto simp: linked_def)
  next
    case False
    then show ?thesis using that rank [of j v] assms(2) by auto
  qed
  then show ?thesis unfolding rooted_def by blast
qed

text \<open>From every stored block the walk ends at a stored block.\<close>

lemma rooted_confirms:
  assumes "rooted blocks" "map_get blocks k = Some b"
  obtains f j where "confirms blocks height b f" "map_get blocks j = Some f"
proof -
  obtain rank :: "string \<Rightarrow> nat" where rank: "\<And>k b. map_get blocks k = Some b \<Longrightarrow>
     IsGenesisBlock b \<or> (map_get blocks (PrevBlockHash b) \<noteq> None \<and> rank (PrevBlockHash b) < rank k)"
    using assms(1) by (auto simp: rooted_def)
  have "\<exists>f j. confirms blocks height b f \<and> map_get blocks j = Some f"
    using assms(2)
  proof (induction "rank k" arbitrary: k b rule: less_induct)
    case less
    show ?case
    proof (cases "height < ChainLength b")
      case True
      then have "\<not> IsGenesisBlock b" by (auto simp: IsGenesisBlock_def)
      then obtain p where p: "map_get blocks (PrevBlockHash b) = Some p" "rank (PrevBlockHash b) < rank k"
        using rank [OF less.prems] by auto
      then obtain f j where "confirms blocks height p f" "map_get blocks j = Some f"
        using less.hyps by blast
      then show ?thesis using True p(1) by (blast intro: confirms.walk)
    next
      case False
      then show ?thesis using less.prems by (blast intro: confirms.stop)
    qed
  qed
  then show thesis using that by blast
qed

section \<open>The invariant of a node\<close>

definition stored :: "'a client_scheme \<Rightarrow> Block \<Rightarrow> bool" where
  "stored c b \<longleftrightarrow> (\<exists>k. map_get (Blocks c) k = Some b)"

definition head_ok :: "'a client_scheme \<Rightarrow> bool" where
  "head_ok c \<longleftrightarrow> (\<exists>h f. LastBlock c = Some h \<and> LastConfirmedBlock c = Some f \<and> stored c h
     \<and> confirms (Blocks c) (confirmedBlockHeight h) h f
     \<and> (\<forall>b. stored c b \<longrightarrow> ChainLength b \<le> ChainLength h))"

definition node_ok :: "crypto \<Rightarrow> 'a client_scheme \<Rightarrow> bool" where
  "node_ok H c \<longleftrightarrow> map_ok (Blocks c) \<and> map_ok (PendingOutgoingTransactions c)
     \<and> map_ok (PendingBlocks c) \<and> 10 \<le> length (Address c) \<and> rooted (Blocks c)
     \<and> (\<forall>k b. map_get (Blocks c) k = Some b \<longrightarrow> GetHashStr H b = k) \<and> head_ok c"

lemma node_okD:
  assumes "node_ok H c"
  shows "map_ok (Blocks c)" "map_ok (PendingOutgoingTransactions c)" "map_ok (PendingBlocks c)"
    "\<not> length (Address c) < 10" "rooted (Blocks c)" "head_ok c"
    "map_get (Blocks c) k = Some b \<Longrightarrow> GetHashStr H b = k"
  using assms by (auto simp: node_ok_def)

lemma node_okI:
  assumes "map_ok (Blocks c)" "map_ok (PendingOutgoingTransactions c)" "map_ok (PendingBlocks c)"
    "\<not> length (Address c) < 10" "rooted (Blocks c)" "head_ok c"
    "\<And>k b. map_get (Blocks c) k = Some b \<Longrightarrow> GetHashStr H b = k"
  shows "node_ok H c"
  unfolding node_ok_def using assms(1-6) assms(7) by (intro conjI allI impI) simp_all

lemma Log_ok [simp]: "\<not> length (Address c) < 10 \<Longrightarrow> Log c = ret ()"
  by (simp add: Log_def)

lemma stored_cong: "Blocks c = Blocks d \<Longrightarrow> stored c = stored d"
  by (simp add: stored_def fun_eq_iff)

lemma node_ok_cong:
  assumes "node_ok H c" "Blocks d = Blocks c" "LastBlock d = LastBlock c"
    "LastConfirmedBlock d = LastConfirmedBlock c" "Address d = Address c"
    "map_ok (PendingOutgoingTransactions d)" "map_ok (PendingBlocks d)"
  shows "node_ok H d"
  using assms stored_cong [of d c] by (simp add: node_ok_def head_ok_def)

text \<open>A node with a genesis block only.\<close>

lemma SetGenesisBlock_ok:
  assumes "SetGenesisBlock H c b = Ok c'" "IsGenesisBlock b" "Blocks c = []"
    "map_ok (PendingOutgoingTransactions c)" "map_ok (PendingBlocks c)" "10 \<le> length (Address c)"
  shows "node_ok H c'"
proof -
  obtain h where h: "GetHash H b = Inr h"
    "c' = c\<lparr>LastConfirmedBlock := Some b, LastBlock := Some b, Blocks := map_put h b (Blocks c)\<rparr>"
    using assms(1) by (auto simp: SetGenesisBlock_def split: sum.splits)
  have "rooted (map_put h b [])"
    using assms(2) by (intro rooted_put rooted_empty) (simp_all add: linked_def)
  moreover have "map_get (map_put h b []) k = Some v \<longleftrightarrow> k = h \<and> v = b" for k v by auto
  ultimately show ?thesis
    using h assms GetHashStr_GetHash [OF h(1)]
    by (auto simp: node_ok_def head_ok_def stored_def IsGenesisBlock_def confirmedBlockHeight_def
        intro!: confirms.stop)
qed

section \<open>Accepting a block\<close>

lemma SetLastConfirmed_confirms:
  assumes "LastBlock c = Some h" "confirms (Blocks c) (confirmedBlockHeight h) h f"
  shows "SetLastConfirmed H c = ret (c\<lparr>LastConfirmedBlock := Some f,
    PendingOutgoingTransactions := map_drop (Contains H f) (PendingOutgoingTransactions c)\<rparr>)"
  using assms confirms_walk [OF assms(2)] by (simp add: SetLastConfirmed_def)

text \<open>Storing a fresh linked block and, when it is longer than the head, moving the head.\<close>

definition moves_head :: "'a client_scheme \<Rightarrow> Block \<Rightarrow> bool" where
  "moves_head c b \<longleftrightarrow> (\<exists>h. LastBlock c = Some h \<and> ChainLength h < ChainLength b)"

definition waiting :: "(Block list \<Rightarrow> Block list) \<Rightarrow> 'a client_scheme \<Rightarrow> string \<Rightarrow> Block list" where
  "waiting ord c k = (case map_get (PendingBlocks c) k of None \<Rightarrow> [] | Some s \<Rightarrow> Set_ToArray ord s)"

lemma accept_block_effect:
  assumes ok: "node_ok H c" and fresh: "map_get (Blocks c) (GetHashStr H b) = None"
    and link: "linked (Blocks c) b"
  obtains c' where
    "accept_block H ord c b = ret (c', Some b, map GoReceiveBlock (waiting ord c (GetHashStr H b)))"
    "node_ok H c'" "Blocks c' = map_put (GetHashStr H b) b (Blocks c)"
    "LastBlock c' = (if moves_head c b then Some b else LastBlock c)"
    "PendingBlocks c' = map_del (GetHashStr H b) (PendingBlocks c)"
    "\<not> moves_head c b \<Longrightarrow> LastConfirmedBlock c' = LastConfirmedBlock c
       \<and> PendingOutgoingTransactions c' = PendingOutgoingTransactions c"
    "Address c' = Address c" "Config c' = Config c" "client.more c' = client.more c"
proof -
  note c = node_okD [OF ok]
  let ?k = "GetHashStr H b"
  let ?blocks = "map_put ?k b (Blocks c)"
  obtain h f where h: "LastBlock c = Some h" "LastConfirmedBlock c = Some f" "stored c h"
      "confirms (Blocks c) (confirmedBlockHeight h) h f"
      "\<And>v. stored c v \<Longrightarrow> ChainLength v \<le> ChainLength h"
    using c(6) by (auto simp: head_ok_def)
  have rooted: "rooted ?blocks" using c(5) fresh link by (rule rooted_put)
  have keyed: "\<And>j v. map_get ?blocks j = Some v \<Longrightarrow> GetHashStr H v = j"
    using c(7) by (auto split: if_splits)
  have bok: "map_ok ?blocks" using c(1) by simp
  have mv: "moves_head c b \<longleftrightarrow> ChainLength h < ChainLength b" using h(1) by (simp add: moves_head_def)
  show thesis
  proof (cases "ChainLength h < ChainLength b")
    case False
    let ?c = "c\<lparr>Blocks := ?blocks, PendingBlocks := map_del ?k (PendingBlocks c)\<rparr>"
    have "head_ok ?c"
    proof -
      have "confirms ?blocks (confirmedBlockHeight h) h f" using h(4) fresh by (rule confirms_put)
      moreover obtain j where j: "map_get (Blocks c) j = Some h" using h(3) by (auto simp: stored_def)
      then have "stored ?c h" using fresh unfolding stored_def by (intro exI [of _ j]) auto
      moreover have "ChainLength v \<le> ChainLength h" if "stored ?c v" for v
      proof -
        have "v = b \<or> stored c v" using that by (auto simp: stored_def split: if_splits)
        then show ?thesis using h(5) False by auto
      qed
      ultimately show ?thesis using h(1,2) by (simp add: head_ok_def)
    qed
    then have "node_ok H ?c"
    proof (intro node_okI)
      show "GetHashStr H v = j" if "map_get (Blocks ?c) j = Some v" for j v
        using that keyed [of j v] by simp
    qed (use c(2,3,4) bok rooted in simp_all)
    moreover have "accept_block H ord c b = ret (?c, Some b, map GoReceiveBlock (waiting ord c ?k))"
      using False h(1) c(4) by (simp add: accept_block_def Let_def waiting_def)
    ultimately show thesis using that [of ?c] False mv h(1) by simp
  next
    case True
    obtain g j where g: "confirms ?blocks (confirmedBlockHeight b) b g" "map_get ?blocks j = Some g"
      using rooted_confirms [OF rooted, of ?k b] by (metis gm.get_put)
    let ?c2 = "c\<lparr>Blocks := ?blocks, LastBlock := Some b, LastConfirmedBlock := Some g,
        PendingOutgoingTransactions := map_drop (Contains H g) (PendingOutgoingTransactions c)\<rparr>"
    let ?c = "?c2\<lparr>PendingBlocks := map_del ?k (PendingBlocks c)\<rparr>"
    have set: "SetLastConfirmed H (c\<lparr>Blocks := ?blocks, LastBlock := Some b\<rparr>) = ret ?c2"
      using SetLastConfirmed_confirms [of "c\<lparr>Blocks := ?blocks, LastBlock := Some b\<rparr>" b g H] g(1) by simp
    have "head_ok ?c"
    proof -
      have "ChainLength v \<le> ChainLength b" if "stored ?c v" for v
      proof -
        have "v = b \<or> stored c v" using that by (auto simp: stored_def split: if_splits)
        then show ?thesis using h(5) [of v] True by auto
      qed
      moreover have "stored ?c b" by (auto simp: stored_def)
      ultimately show ?thesis using g(1) by (simp add: head_ok_def)
    qed
    then have "node_ok H ?c"
    proof (intro node_okI)
      show "GetHashStr H v = j" if "map_get (Blocks ?c) j = Some v" for j v
        using that keyed [of j v] by simp
    qed (use c(2,3,4) bok rooted in simp_all)
    moreover have "accept_block H ord c b = ret (?c, Some b, map GoReceiveBlock (waiting ord c ?k))"
      using True h(1) c(4) set by (simp add: accept_block_def Let_def waiting_def)
    ultimately show thesis using that [of ?c] True mv by simp
  qed
qed

section \<open>Receiving a block\<close>

text \<open>What a node does with a block depends on what it stores: the two cases in which it acts.\<close>

definition admissible :: "crypto \<Rightarrow> 'a client_scheme \<Rightarrow> Block \<Rightarrow> bool" where
  "admissible H c b \<longleftrightarrow> map_get (Blocks c) (GetHashStr H b) = None \<and> (IsGenesisBlock b \<or>
     hasValidProof H b \<and> (case map_get (Blocks c) (PrevBlockHash b) of
       None \<Rightarrow> False | Some p \<Rightarrow> \<exists>b'. Rerun H b (Some p) = Ok (b', True)))"

definition orphan :: "crypto \<Rightarrow> 'a client_scheme \<Rightarrow> Block \<Rightarrow> bool" where
  "orphan H c b \<longleftrightarrow> map_get (Blocks c) (GetHashStr H b) = None \<and> \<not> IsGenesisBlock b
     \<and> hasValidProof H b \<and> map_get (Blocks c) (PrevBlockHash b) = None"

definition good_block :: "crypto \<Rightarrow> Block \<Rightarrow> bool" where
  "good_block H b \<longleftrightarrow> honest H b \<and> (\<forall>v \<in> set (elems (Transactions b)). safe_tx (Tx v))"

definition held :: "crypto \<Rightarrow> 'a client_scheme \<Rightarrow> Block \<Rightarrow> Block goset" where
  "held H c b = Set_Add (GetHashStr H)
     (case map_get (PendingBlocks c) (PrevBlockHash b) of None \<Rightarrow> NewSet | Some s \<Rightarrow> s) b"

definition missing_request :: "'a client_scheme \<Rightarrow> Block \<Rightarrow> effect" where
  "missing_request c b = Broadcast MISSING_BLOCK (render (json_message
     \<lparr>Msg_Address = Address c, Msg_PrevBlockHash = PrevBlockHash b\<rparr>))"

lemma hold_block_effect:
  assumes "\<not> length (Address c) < 10"
  shows "hold_block H c b = ret
    (c\<lparr>PendingBlocks := map_put (PrevBlockHash b) (held H c b) (PendingBlocks c)\<rparr>, None,
     if map_get (PendingBlocks c) (PrevBlockHash b) = None then [missing_request c b] else [])"
  using assms
  by (simp add: hold_block_def held_def RequestMissingBlock_def missing_request_def split: option.split)

lemma ReceiveBlock_cases:
  assumes ok: "node_ok H c" and good: "good_block H b"
  obtains (ignored) "ReceiveBlock H ord c b = ret (c, None, [])" "\<not> admissible H c b" "\<not> orphan H c b"
  | (holds) "ReceiveBlock H ord c b = ret
        (c\<lparr>PendingBlocks := map_put (PrevBlockHash b) (held H c b) (PendingBlocks c)\<rparr>, None,
         if map_get (PendingBlocks c) (PrevBlockHash b) = None then [missing_request c b] else [])"
      "\<not> admissible H c b" "orphan H c b"
  | (accepts) b' where "ReceiveBlock H ord c b = accept_block H ord c b'"
      "admissible H c b" "\<not> orphan H c b" "header b' = header b" "Transactions b' = Transactions b"
      "if IsGenesisBlock b then b' = b else (\<exists>p. map_get (Blocks c) (PrevBlockHash b) = Some p
         \<and> Rerun H b (Some p) = Ok (b', True))"
proof -
  note addr = node_okD(4) [OF ok]
  let ?id = "GetHashStr H b"
  have honest: "honest H b" and safe: "\<forall>v \<in> set (elems (Transactions b)). safe_tx (Tx v)"
    using good by (simp_all add: good_block_def)
  consider (known) "map_get (Blocks c) ?id \<noteq> None"
    | (genesis) "map_get (Blocks c) ?id = None" "IsGenesisBlock b"
    | (unproved) "map_get (Blocks c) ?id = None" "\<not> IsGenesisBlock b" "\<not> hasValidProof H b"
    | (lost) "map_get (Blocks c) ?id = None" "\<not> IsGenesisBlock b" "hasValidProof H b"
        "map_get (Blocks c) (PrevBlockHash b) = None"
    | (found) p where "map_get (Blocks c) ?id = None" "\<not> IsGenesisBlock b" "hasValidProof H b"
        "map_get (Blocks c) (PrevBlockHash b) = Some p"
    by fastforce
  then show thesis
  proof cases
    case known
    then show thesis using ignored by (simp add: ReceiveBlock_def admissible_def orphan_def Let_def)
  next
    case genesis
    then show thesis
      using accepts [of b] by (simp add: ReceiveBlock_def admissible_def orphan_def Let_def)
  next
    case unproved
    then show thesis
      using ignored addr by (simp add: ReceiveBlock_def admissible_def orphan_def Let_def)
  next
    case lost
    then show thesis
      using holds hold_block_effect [OF addr, of H b]
      by (simp add: ReceiveBlock_def admissible_def orphan_def Let_def)
  next
    case (found p)
    obtain b' ok where run: "Rerun H b (Some p) = Ok (b', ok)"
      using Rerun_safe [OF safe] by blast
    show thesis
    proof (cases ok)
      case True
      then show thesis
        using accepts [of b'] found run Rerun_header [OF run] Rerun_transactions [of H b p b'] honest
        by (simp add: ReceiveBlock_def admissible_def orphan_def Let_def flip: ret_def)
    next
      case False
      then show thesis
        using ignored found run
        by (simp add: ReceiveBlock_def admissible_def orphan_def Let_def flip: ret_def)
    qed
  qed
qed

text \<open>With the effect of accepting.\<close>

lemma ReceiveBlock_effect:
  assumes ok: "node_ok H c" and good: "good_block H b"
  obtains (ignored) "ReceiveBlock H ord c b = ret (c, None, [])" "\<not> admissible H c b" "\<not> orphan H c b"
  | (holds) c' where "ReceiveBlock H ord c b = ret (c', None,
         if map_get (PendingBlocks c) (PrevBlockHash b) = None then [missing_request c b] else [])"
      "\<not> admissible H c b" "orphan H c b" "node_ok H c'"
      "c' = c\<lparr>PendingBlocks := map_put (PrevBlockHash b) (held H c b) (PendingBlocks c)\<rparr>"
  | (accepts) c' b' where "ReceiveBlock H ord c b =
        ret (c', Some b', map GoReceiveBlock (waiting ord c (GetHashStr H b)))"
      "admissible H c b" "\<not> orphan H c b" "header b' = header b" "Transactions b' = Transactions b"
      "if IsGenesisBlock b then b' = b else (\<exists>p. map_get (Blocks c) (PrevBlockHash b) = Some p
         \<and> Rerun H b (Some p) = Ok (b', True))"
      "node_ok H c'" "Blocks c' = map_put (GetHashStr H b) b' (Blocks c)"
      "LastBlock c' = (if moves_head c b then Some b' else LastBlock c)"
      "PendingBlocks c' = map_del (GetHashStr H b) (PendingBlocks c)"
      "Address c' = Address c" "Config c' = Config c" "client.more c' = client.more c"
proof (cases rule: ReceiveBlock_cases [OF ok good, of ord])
  case 1
  then show thesis by (rule ignored)
next
  case 2
  let ?c = "c\<lparr>PendingBlocks := map_put (PrevBlockHash b) (held H c b) (PendingBlocks c)\<rparr>"
  have "node_ok H ?c" by (rule node_ok_cong [OF ok]) (use node_okD(2,3) [OF ok] in simp_all)
  then show thesis using 2 holds [of ?c] by simp
next
  case (3 b')
  have hash: "GetHashStr H b' = GetHashStr H b" by (rule same_hash(2) [OF 3(4,5)])
  have head: "ChainLength b' = ChainLength b" "PrevBlockHash b' = PrevBlockHash b"
    using header_fields [OF 3(4)] by simp_all
  have fresh: "map_get (Blocks c) (GetHashStr H b') = None"
    using 3(2) hash by (simp add: admissible_def)
  have "linked (Blocks c) b'"
    using 3(2) head by (auto simp: linked_def admissible_def IsGenesisBlock_def split: option.splits)
  then obtain c' where "accept_block H ord c b' =
      ret (c', Some b', map GoReceiveBlock (waiting ord c (GetHashStr H b')))"
    "node_ok H c'" "Blocks c' = map_put (GetHashStr H b') b' (Blocks c)"
    "LastBlock c' = (if moves_head c b' then Some b' else LastBlock c)"
    "PendingBlocks c' = map_del (GetHashStr H b') (PendingBlocks c)"
    "Address c' = Address c" "Config c' = Config c" "client.more c' = client.more c"
    using accept_block_effect [OF ok fresh, of ord] by blast
  moreover have "moves_head c b' = moves_head c b" using head by (simp add: moves_head_def)
  ultimately show thesis using 3 accepts [of c' b'] hash by simp
qed

section \<open>Whatever the node and the block\<close>

lemma SetLastConfirmed_fields:
  assumes "SetLastConfirmed H c = ret c'"
  shows "Blocks c' = Blocks c" "LastBlock c' = LastBlock c" "PendingBlocks c' = PendingBlocks c"
    "Address c' = Address c" "Config c' = Config c" "client.more c' = client.more c"
  using assms by (auto simp: SetLastConfirmed_def res_simps split: option.splits)

lemma accept_block_returns:
  assumes "accept_block H ord c b = ret (c', r, effs)"
  obtains h where "r = Some b" "LastBlock c = Some h"
    "Blocks c' = map_put (GetHashStr H b) b (Blocks c)"
    "LastBlock c' = Some (if ChainLength h < ChainLength b then b else h)"
    "\<not> ChainLength h < ChainLength b \<Longrightarrow> c' = c\<lparr>Blocks := Blocks c', PendingBlocks := PendingBlocks c'\<rparr>"
proof -
  let ?c = "c\<lparr>Blocks := map_put (GetHashStr H b) b (Blocks c)\<rparr>"
  obtain h where h: "LastBlock c = Some h"
    using assms by (auto simp: accept_block_def Let_def split: option.splits)
  show thesis
  proof (cases "ChainLength h < ChainLength b")
    case True
    obtain d where d: "SetLastConfirmed H (?c\<lparr>LastBlock := Some b\<rparr>) = ret d"
      "c' = d\<lparr>PendingBlocks := map_del (GetHashStr H b) (PendingBlocks d)\<rparr>" "r = Some b"
      using assms h True by (auto simp: accept_block_def Let_def res_simps)
    then show thesis using that [of h] h True SetLastConfirmed_fields [OF d(1)] by simp
  next
    case False
    then show thesis using that [of h] assms h
      by (auto simp: accept_block_def Let_def res_simps)
  qed
qed

text \<open>What \<open>ReceiveBlock\<close> returned tells which way it went.\<close>

lemma ReceiveBlock_returns:
  assumes "ReceiveBlock H ord c b = ret (c', r, effs)"
  obtains (kept) "r = None" "c' = c\<lparr>PendingBlocks := PendingBlocks c'\<rparr>"
  | (added) b' h where "r = Some b'" "header b' = header b" "LastBlock c = Some h"
    "Blocks c' = map_put (GetHashStr H b') b' (Blocks c)"
    "LastBlock c' = Some (if ChainLength h < ChainLength b then b' else h)"
    "\<not> ChainLength h < ChainLength b \<Longrightarrow> c' = c\<lparr>Blocks := Blocks c', PendingBlocks := PendingBlocks c'\<rparr>"
proof -
  have hold: "r = None \<and> c' = c\<lparr>PendingBlocks := PendingBlocks c'\<rparr>" if "hold_block H c b = ret (c', r, effs)"
    using that by (auto simp: hold_block_def res_simps split: option.splits)
  have acc: thesis if "accept_block H ord c b' = ret (c', r, effs)" "header b' = header b" for b'
  proof -
    have len: "ChainLength b' = ChainLength b" using header_fields [OF that(2)] by simp
    show thesis
      by (rule accept_block_returns [OF that(1)]) (use added that(2) len in auto)
  qed
  let ?prev = "map_get (Blocks c) (PrevBlockHash b)"
  consider "r = None" "c' = c" | "hold_block H c b = ret (c', r, effs)"
    | "accept_block H ord c b = ret (c', r, effs)"
    | p b' where "Rerun H b (Some p) = Ok (b', True)" "accept_block H ord c b' = ret (c', r, effs)"
    using assms
    by (cases ?prev) (auto simp: ReceiveBlock_def Let_def res_simps split: if_splits)
  then show thesis
  proof cases
    case 1
    then show thesis using kept by simp
  next
    case 2
    then show thesis using kept hold by blast
  next
    case 3
    then show thesis using acc by blast
  next
    case (4 p b')
    then show thesis using acc Rerun_header by blast
  qed
qed

end
