(* ===== verification/Delivery.thy ===== *)
theory Delivery
  imports ClientInv
begin

text \<open>
  Delivery of a chain of blocks to a node. The blocks arrive in any order and any number of
  times, and the goroutines that \<open>ReceiveBlock\<close> starts for released blocks run in any order:
  a configuration is the node and the pool of blocks still to be received, and one step
  receives one of them. The invariant says where each block of the chain is.
\<close>

section \<open>Deliveries\<close>

definition respawned :: "effect list \<Rightarrow> Block list" where
  "respawned effs = concat (map (\<lambda>e. case e of GoReceiveBlock b \<Rightarrow> [b] | _ \<Rightarrow> []) effs)"

inductive deliver :: "crypto \<Rightarrow> 'a client_scheme \<times> Block list \<Rightarrow> 'a client_scheme \<times> Block list \<Rightarrow> bool"
  for H :: crypto where
  receive: "is_order ord \<Longrightarrow> ReceiveBlock H ord c b = ret (c', r, effs) \<Longrightarrow>
    deliver H (c, xs @ b # ys) (c', xs @ ys @ respawned effs)"

inductive_cases deliverE: "deliver H (c, pool) st"

lemma respawned_simps [simp]:
  "respawned [] = []" "respawned (map GoReceiveBlock bs) = bs" "respawned [missing_request c b] = []"
  by (simp_all add: respawned_def o_def missing_request_def)

section \<open>A chain of blocks\<close>

fun valid_chain :: "crypto \<Rightarrow> Block \<Rightarrow> Block list \<Rightarrow> bool" where
  "valid_chain H p [] = True"
| "valid_chain H p (b # bs) =
     (good_block H b \<and> \<not> IsGenesisBlock b \<and> hasValidProof H b \<and> PrevBlockHash b = GetHashStr H p
      \<and> (case Rerun H b (Some p) of Ok (s, ok) \<Rightarrow> ok \<and> valid_chain H s bs | Panic e \<Rightarrow> False))"

text \<open>Each block of the chain with its predecessor and itself as a node stores them.\<close>

fun links :: "crypto \<Rightarrow> Block \<Rightarrow> Block list \<Rightarrow> (Block \<times> Block \<times> Block) list" where
  "links H p [] = []"
| "links H p (b # bs) =
     (case Rerun H b (Some p) of Ok (s, ok) \<Rightarrow> (p, b, s) # links H s bs | Panic e \<Rightarrow> [])"

lemma valid_chain_Cons:
  assumes "valid_chain H p (b # bs)"
  obtains s where "Rerun H b (Some p) = Ok (s, True)" "valid_chain H s bs"
    "links H p (b # bs) = (p, b, s) # links H s bs" "GetHashStr H s = GetHashStr H b"
    "PrevBlockHash b = GetHashStr H p" "good_block H b" "hasValidProof H b" "\<not> IsGenesisBlock b"
proof -
  obtain s where s: "Rerun H b (Some p) = Ok (s, True)" "valid_chain H s bs"
    using assms by (auto split: res.splits prod.splits)
  have "honest H b" using assms by (simp add: good_block_def)
  then show thesis using that [of s] s assms Rerun_same_hash(2) [OF s(1) s(1)] by simp
qed

lemma link_facts:
  assumes "valid_chain H p bs" "(q, b, s) \<in> set (links H p bs)"
  shows "b \<in> set bs \<and> Rerun H b (Some q) = Ok (s, True) \<and> GetHashStr H s = GetHashStr H b
    \<and> PrevBlockHash b = GetHashStr H q \<and> good_block H b \<and> hasValidProof H b \<and> \<not> IsGenesisBlock b"
  using assms
proof (induction bs arbitrary: p)
  case (Cons a bs)
  from Cons.prems(1) show ?case
    by (rule valid_chain_Cons) (use Cons in \<open>auto simp del: valid_chain.simps links.simps\<close>)
qed simp

lemma links_blocks: "valid_chain H p bs \<Longrightarrow> map (\<lambda>(q, b, s). b) (links H p bs) = bs"
proof (induction bs arbitrary: p)
  case (Cons a bs)
  from Cons.prems show ?case by (rule valid_chain_Cons) (use Cons.IH in auto)
qed simp

lemma link_of:
  assumes "valid_chain H p bs" "b \<in> set bs"
  obtains q s where "(q, b, s) \<in> set (links H p bs)"
proof -
  have "b \<in> set (map (\<lambda>(q, b, s). b) (links H p bs))" using assms by (simp only: links_blocks)
  then show thesis using that by auto
qed

text \<open>The predecessor in a link is the start of the chain or comes from a link before.\<close>

lemma link_pred:
  assumes "valid_chain H p bs" "(q, b, s) \<in> set (links H p bs)"
  shows "q = p \<or> (\<exists>q' b'. (q', b', q) \<in> set (links H p bs))"
  using assms
proof (induction bs arbitrary: p)
  case (Cons a bs)
  from Cons.prems(1) show ?case
    by (rule valid_chain_Cons) (use Cons in \<open>force simp del: valid_chain.simps links.simps\<close>)
qed simp

text \<open>With distinct hashes, a hash names one link as its block and one as its predecessor.\<close>

definition chain_ids :: "crypto \<Rightarrow> Block \<Rightarrow> Block list \<Rightarrow> string list" where
  "chain_ids H p bs = GetHashStr H p # map (GetHashStr H) bs"

lemma link_unique:
  assumes "valid_chain H p bs" "distinct (chain_ids H p bs)"
    "(q, b, s) \<in> set (links H p bs)" "(q', b', s') \<in> set (links H p bs)"
  shows "GetHashStr H b = GetHashStr H b' \<Longrightarrow> (q, b, s) = (q', b', s')"
    and "PrevBlockHash b = PrevBlockHash b' \<Longrightarrow> (q, b, s) = (q', b', s')"
    and "PrevBlockHash b' = GetHashStr H b \<Longrightarrow> q' = s"
proof -
  have "(GetHashStr H b = GetHashStr H b' \<longrightarrow> (q, b, s) = (q', b', s'))
    \<and> (PrevBlockHash b = PrevBlockHash b' \<longrightarrow> (q, b, s) = (q', b', s'))
    \<and> (PrevBlockHash b' = GetHashStr H b \<longrightarrow> q' = s)"
    using assms
  proof (induction bs arbitrary: p)
    case Nil
    then show ?case by simp
  next
    case (Cons a bs)
    obtain t where t: "valid_chain H t bs" "links H p (a # bs) = (p, a, t) # links H t bs"
      "GetHashStr H t = GetHashStr H a" "PrevBlockHash a = GetHashStr H p"
      using Cons.prems(1) by (rule valid_chain_Cons)
    have d: "distinct (chain_ids H t bs)" "GetHashStr H p \<noteq> GetHashStr H a"
      "GetHashStr H p \<notin> GetHashStr H ` set bs" "GetHashStr H a \<notin> GetHashStr H ` set bs"
      using Cons.prems(2) t(3) by (auto simp: chain_ids_def)
    have inner: "GetHashStr H x \<noteq> GetHashStr H a \<and> GetHashStr H x \<noteq> GetHashStr H p
        \<and> PrevBlockHash x \<noteq> GetHashStr H p
        \<and> (PrevBlockHash x = GetHashStr H a \<longrightarrow> w = t)" if x: "(w, x, y) \<in> set (links H t bs)" for w x y
    proof -
      have "GetHashStr H x \<in> GetHashStr H ` set bs" using link_facts [OF t(1) x] by blast
      moreover have "PrevBlockHash x = GetHashStr H w" using link_facts [OF t(1) x] by simp
      moreover have "w = t \<or> GetHashStr H w \<in> GetHashStr H ` set bs"
        using link_pred [OF t(1) x] link_facts [OF t(1)] by (metis image_eqI)
      ultimately show ?thesis using d t(3) by auto
    qed
    have "(q, b, s) = (p, a, t) \<or> (q, b, s) \<in> set (links H t bs)"
      and "(q', b', s') = (p, a, t) \<or> (q', b', s') \<in> set (links H t bs)"
      using Cons.prems(3,4) unfolding t(2) by simp_all
    then consider "(q, b, s) = (p, a, t)" "(q', b', s') = (p, a, t)"
      | "(q, b, s) = (p, a, t)" "(q', b', s') \<in> set (links H t bs)"
      | "(q, b, s) \<in> set (links H t bs)" "(q', b', s') = (p, a, t)"
      | "(q, b, s) \<in> set (links H t bs)" "(q', b', s') \<in> set (links H t bs)" by blast
    then show ?case
    proof cases
      case 1
      then show ?thesis using d(2) t(4) by simp
    next
      case 2
      then show ?thesis using inner [OF 2(2)] t(4) by simp metis
    next
      case 3
      then show ?thesis using inner [OF 3(1)] t(4) by simp metis
    next
      case 4
      then show ?thesis by (rule Cons.IH [OF t(1) d(1)])
    qed
  qed
  then show "GetHashStr H b = GetHashStr H b' \<Longrightarrow> (q, b, s) = (q', b', s')"
    and "PrevBlockHash b = PrevBlockHash b' \<Longrightarrow> (q, b, s) = (q', b', s')"
    and "PrevBlockHash b' = GetHashStr H b \<Longrightarrow> q' = s" by blast+
qed

section \<open>Where the blocks are\<close>

text \<open>
  Each block of the chain is stored, or in the pool, or waits (alone) under the hash of its
  predecessor, which is then not stored; nothing else waits.
\<close>

definition placed :: "'a client_scheme \<Rightarrow> Block list \<Rightarrow> string \<Rightarrow> Block \<Rightarrow> bool" where
  "placed c pool k b \<longleftrightarrow> map_get (Blocks c) k \<noteq> None \<or> b \<in> set pool
     \<or> map_get (Blocks c) (PrevBlockHash b) = None \<and> map_get (PendingBlocks c) (PrevBlockHash b) \<noteq> None"

definition delivery_ok ::
  "crypto \<Rightarrow> (Block \<times> Block \<times> Block) set \<Rightarrow> 'a client_scheme \<Rightarrow> Block list \<Rightarrow> bool" where
  "delivery_ok H L c pool \<longleftrightarrow> node_ok H c
     \<and> (\<forall>b \<in> set pool. \<exists>q s. (q, b, s) \<in> L)
     \<and> (\<forall>k x. map_get (PendingBlocks c) k = Some x \<longrightarrow> (\<exists>q b s. (q, b, s) \<in> L \<and> k = PrevBlockHash b))
     \<and> (\<forall>q b s. (q, b, s) \<in> L \<longrightarrow> placed c pool (GetHashStr H b) b
         \<and> map_get (Blocks c) (GetHashStr H b) \<in> {None, Some s}
         \<and> map_get (Blocks c) (PrevBlockHash b) \<in> {None, Some q}
         \<and> map_get (PendingBlocks c) (PrevBlockHash b) \<in> {None, Some \<lparr>items = [(GetHashStr H b, b)]\<rparr>})"

definition delivery_left :: "'a client_scheme \<Rightarrow> Block list \<Rightarrow> nat" where
  "delivery_left c pool = 2 * length pool + map_len (PendingBlocks c)"

lemma delivery_okD:
  assumes "delivery_ok H L c pool" "(q, b, s) \<in> L"
  shows "placed c pool (GetHashStr H b) b" "map_get (Blocks c) (GetHashStr H b) \<in> {None, Some s}"
    "map_get (Blocks c) (PrevBlockHash b) \<in> {None, Some q}"
    "map_get (PendingBlocks c) (PrevBlockHash b) \<in> {None, Some \<lparr>items = [(GetHashStr H b, b)]\<rparr>}"
  using assms by (auto simp: delivery_ok_def)

lemma delivery_okI:
  assumes "node_ok H c" "\<And>b. b \<in> set pool \<Longrightarrow> \<exists>q s. (q, b, s) \<in> L"
    "\<And>k x. map_get (PendingBlocks c) k = Some x \<Longrightarrow> \<exists>q b s. (q, b, s) \<in> L \<and> k = PrevBlockHash b"
    "\<And>q b s. (q, b, s) \<in> L \<Longrightarrow> placed c pool (GetHashStr H b) b
      \<and> map_get (Blocks c) (GetHashStr H b) \<in> {None, Some s}
      \<and> map_get (Blocks c) (PrevBlockHash b) \<in> {None, Some q}
      \<and> map_get (PendingBlocks c) (PrevBlockHash b) \<in> {None, Some \<lparr>items = [(GetHashStr H b, b)]\<rparr>}"
  shows "delivery_ok H L c pool"
  unfolding delivery_ok_def using assms by (intro conjI allI ballI impI) simp_all

lemma delivery_ok_pending:
  assumes "delivery_ok H L c pool" "map_get (PendingBlocks c) k = Some x"
  shows "\<exists>q b s. (q, b, s) \<in> L \<and> k = PrevBlockHash b"
  using assms unfolding delivery_ok_def by blast

lemma delivery_ok_pool:
  assumes "delivery_ok H L c pool" "b \<in> set pool"
  shows "\<exists>q s. (q, b, s) \<in> L"
  using assms by (auto simp: delivery_ok_def)

text \<open>The laws of the links of a chain with distinct hashes.\<close>

definition links_ok :: "crypto \<Rightarrow> (Block \<times> Block \<times> Block) set \<Rightarrow> bool" where
  "links_ok H L \<longleftrightarrow> (\<forall>(q, b, s) \<in> L. Rerun H b (Some q) = Ok (s, True) \<and> GetHashStr H s = GetHashStr H b
       \<and> good_block H b \<and> hasValidProof H b \<and> \<not> IsGenesisBlock b
       \<and> (\<forall>(q', b', s') \<in> L. (GetHashStr H b = GetHashStr H b' \<longrightarrow> (q, b, s) = (q', b', s'))
         \<and> (PrevBlockHash b = PrevBlockHash b' \<longrightarrow> (q, b, s) = (q', b', s'))
         \<and> (PrevBlockHash b' = GetHashStr H b \<longrightarrow> q' = s)))"

lemma links_okD:
  assumes "links_ok H L" "(q, b, s) \<in> L"
  shows "Rerun H b (Some q) = Ok (s, True)" "GetHashStr H s = GetHashStr H b" "good_block H b"
    "hasValidProof H b" "\<not> IsGenesisBlock b"
    "(q', b', s') \<in> L \<Longrightarrow> GetHashStr H b' = GetHashStr H b \<Longrightarrow> q' = q \<and> b' = b \<and> s' = s"
    "(q', b', s') \<in> L \<Longrightarrow> PrevBlockHash b' = PrevBlockHash b \<Longrightarrow> q' = q \<and> b' = b \<and> s' = s"
    "(q', b', s') \<in> L \<Longrightarrow> PrevBlockHash b' = GetHashStr H b \<Longrightarrow> q' = s"
proof -
  note one = bspec [OF assms(1) [unfolded links_ok_def] assms(2), unfolded prod.case]
  then show "Rerun H b (Some q) = Ok (s, True)" "GetHashStr H s = GetHashStr H b" "good_block H b"
    "hasValidProof H b" "\<not> IsGenesisBlock b" by blast+
  assume "(q', b', s') \<in> L"
  from bspec [OF conjunct2 [OF conjunct2 [OF conjunct2 [OF conjunct2 [OF conjunct2 [OF one]]]]] this, unfolded prod.case]
  show "GetHashStr H b' = GetHashStr H b \<Longrightarrow> q' = q \<and> b' = b \<and> s' = s"
    "PrevBlockHash b' = PrevBlockHash b \<Longrightarrow> q' = q \<and> b' = b \<and> s' = s"
    "PrevBlockHash b' = GetHashStr H b \<Longrightarrow> q' = s" by simp_all
qed

lemma links_ok_chain:
  assumes "valid_chain H p bs" "distinct (chain_ids H p bs)"
  shows "links_ok H (set (links H p bs))"
proof -
  have "Rerun H b (Some q) = Ok (s, True) \<and> GetHashStr H s = GetHashStr H b
      \<and> good_block H b \<and> hasValidProof H b \<and> \<not> IsGenesisBlock b"
    if "(q, b, s) \<in> set (links H p bs)" for q b s
    using link_facts [OF assms(1) that] by simp
  moreover have "(GetHashStr H b = GetHashStr H b' \<longrightarrow> (q, b, s) = (q', b', s'))
      \<and> (PrevBlockHash b = PrevBlockHash b' \<longrightarrow> (q, b, s) = (q', b', s'))
      \<and> (PrevBlockHash b' = GetHashStr H b \<longrightarrow> q' = s)"
    if "(q, b, s) \<in> set (links H p bs)" "(q', b', s') \<in> set (links H p bs)" for q b s q' b' s'
    using link_unique [OF assms that] by blast
  ultimately show ?thesis unfolding links_ok_def by blast
qed

lemma held_single:
  "map_get (PendingBlocks c) (PrevBlockHash b) = None \<or>
   map_get (PendingBlocks c) (PrevBlockHash b) = Some \<lparr>items = [(GetHashStr H b, b)]\<rparr> \<Longrightarrow>
   held H c b = \<lparr>items = [(GetHashStr H b, b)]\<rparr>"
  by (auto simp: held_def Set_Add_def Set_Contains_def NewSet_def map_put_def)

lemma order_single: "is_order ord \<Longrightarrow> ord [x] = [x]"
  by (metis is_order_def mset_single_iff_right mset_eq_length mset.simps(1,2) add_mset_eq_single)

text \<open>What one delivery does to the pool and the node.\<close>

lemma deliver_step:
  assumes L: "links_ok H L" and inv: "delivery_ok H L c (xs @ b # ys)" and ord: "is_order ord"
  obtains c' r effs where "ReceiveBlock H ord c b = ret (c', r, effs)"
    "delivery_ok H L c' (xs @ ys @ respawned effs)"
    "delivery_left c' (xs @ ys @ respawned effs) < delivery_left c (xs @ b # ys)"
proof -
  have ok: "node_ok H c" using inv by (simp add: delivery_ok_def)
  obtain q s where link: "(q, b, s) \<in> L" using inv by (auto simp: delivery_ok_def)
  note b = links_okD [OF L link] and at = delivery_okD [OF inv link]
  let ?k = "GetHashStr H b"
  show thesis
  proof (cases rule: ReceiveBlock_effect [OF ok b(3), of ord])
    case 1
    have "map_get (Blocks c) ?k \<noteq> None"
      using 1(2,3) b(1,4,5) at(3) by (auto simp: admissible_def orphan_def)
    then have "placed c (xs @ ys) (GetHashStr H b1) b1" if "(q1, b1, s1) \<in> L" for q1 b1 s1
      using delivery_okD(1) [OF inv that] by (auto simp: placed_def)
    then have "delivery_ok H L c (xs @ ys)"
      using inv unfolding delivery_ok_def by simp
    then show thesis using that [of c None "[]"] 1(1) by (simp add: delivery_left_def)
  next
    case (2 c')
    have none: "map_get (Blocks c) (PrevBlockHash b) = None" using 2(3) by (simp add: orphan_def)
    have held: "held H c b = \<lparr>items = [(?k, b)]\<rparr>" using at(4) by (auto simp: held_single)
    have "delivery_ok H L c' (xs @ ys)"
    proof (rule delivery_okI)
      show "node_ok H c'" by (rule 2(4))
      show "\<exists>q s. (q, b1, s) \<in> L" if "b1 \<in> set (xs @ ys)" for b1
        using delivery_ok_pool [OF inv, of b1] that by auto
      show "\<exists>q b s. (q, b, s) \<in> L \<and> k = PrevBlockHash b" if "map_get (PendingBlocks c') k = Some x" for k x
        using delivery_ok_pending [OF inv, of k x] that link 2(5) by (cases "k = PrevBlockHash b") auto
      show "placed c' (xs @ ys) (GetHashStr H b1) b1
          \<and> map_get (Blocks c') (GetHashStr H b1) \<in> {None, Some s1}
          \<and> map_get (Blocks c') (PrevBlockHash b1) \<in> {None, Some q1}
          \<and> map_get (PendingBlocks c') (PrevBlockHash b1) \<in> {None, Some \<lparr>items = [(GetHashStr H b1, b1)]\<rparr>}"
        if one: "(q1, b1, s1) \<in> L" for q1 b1 s1
        using delivery_okD [OF inv one] b(7) [OF one] none held 2(5) by (auto simp: placed_def)
    qed
    moreover have "map_len (PendingBlocks c') \<le> Suc (map_len (PendingBlocks c))"
      using 2(5) node_okD(3) [OF ok] by (simp add: gm.size_put)
    ultimately show thesis using that [OF 2(1)] by (simp add: delivery_left_def)
  next
    case (3 c' b')
    have b': "b' = s" using 3(6) b(1,5) at(3) by auto
    have W: "map_get (PendingBlocks c) ?k = None \<and> waiting ord c ?k = [] \<or>
        map_get (PendingBlocks c) ?k \<noteq> None \<and> (\<exists>q2 b2 s2. (q2, b2, s2) \<in> L \<and> PrevBlockHash b2 = ?k \<and> waiting ord c ?k = [b2])"
    proof (cases "map_get (PendingBlocks c) ?k")
      case None
      then show ?thesis by (simp add: waiting_def)
    next
      case (Some x)
      then obtain q2 b2 s2 where two: "(q2, b2, s2) \<in> L" "?k = PrevBlockHash b2"
        using delivery_ok_pending [OF inv Some] by blast
      then have "x = \<lparr>items = [(GetHashStr H b2, b2)]\<rparr>"
        using delivery_okD(4) [OF inv two(1)] Some by auto
      then show ?thesis using Some two order_single [OF ord, of b2]
        by (auto simp: waiting_def Set_ToArray_def map_values_def)
    qed
    have pl: "placed c' (xs @ ys @ waiting ord c ?k) (GetHashStr H b1) b1" if one: "(q1, b1, s1) \<in> L" for q1 b1 s1
    proof (cases "PrevBlockHash b1 = ?k")
      case True
      then show ?thesis
        using delivery_okD(1) [OF inv one] W b(7) links_okD(7) [OF L one] 3(8,10) by (fastforce simp: placed_def)
    next
      case False
      then show ?thesis using delivery_okD(1) [OF inv one] 3(8,10) by (auto simp: placed_def)
    qed
    have "map_get (Blocks c') (GetHashStr H b1) \<in> {None, Some s1}
        \<and> map_get (Blocks c') (PrevBlockHash b1) \<in> {None, Some q1}
        \<and> map_get (PendingBlocks c') (PrevBlockHash b1) \<in> {None, Some \<lparr>items = [(GetHashStr H b1, b1)]\<rparr>}"
      if one: "(q1, b1, s1) \<in> L" for q1 b1 s1
      using delivery_okD(2-4) [OF inv one] b(6,8) [OF one] 3(8,10) b' by auto
    note table = this
    have "delivery_ok H L c' (xs @ ys @ waiting ord c ?k)"
    proof (rule delivery_okI)
      show "node_ok H c'" by (rule 3(7))
      show "\<exists>q s. (q, b1, s) \<in> L" if "b1 \<in> set (xs @ ys @ waiting ord c ?k)" for b1
      proof (cases "b1 \<in> set (waiting ord c ?k)")
        case True
        then show ?thesis using W by (metis emptyE empty_set list.set_cases set_ConsD)
      next
        case False
        then show ?thesis using delivery_ok_pool [OF inv, of b1] that by simp
      qed
      show "\<exists>q b s. (q, b, s) \<in> L \<and> k = PrevBlockHash b" if "map_get (PendingBlocks c') k = Some x" for k x
        using delivery_ok_pending [OF inv, of k x] that 3(10) by (auto split: if_splits)
    qed (use pl table in blast)
    moreover have "delivery_left c' (xs @ ys @ waiting ord c ?k) < delivery_left c (xs @ b # ys)"
      using W 3(10) node_okD(3) [OF ok]
      by (auto simp: delivery_left_def gm.size_del dest: gm.size_pos)
    ultimately show thesis using that [OF 3(1)] by simp
  qed
qed

section \<open>Runs\<close>

lemma deliver_keeps:
  assumes "links_ok H L" "delivery_ok H L c pool" "deliver H (c, pool) (c', pool')"
  shows "delivery_ok H L c' pool'" "delivery_left c' pool' < delivery_left c pool"
proof -
  obtain ord xs b ys r effs where *: "is_order ord" "ReceiveBlock H ord c b = ret (c', r, effs)"
    "pool = xs @ b # ys" "pool' = xs @ ys @ respawned effs"
    using assms(3) by (rule deliverE) auto
  show "delivery_ok H L c' pool'" "delivery_left c' pool' < delivery_left c pool"
    using deliver_step [OF assms(1) assms(2) [unfolded *(3)] *(1)] *(2-4) by (metis Pair_inject ret_inject)+
qed

lemma deliver_run:
  assumes "links_ok H L" "delivery_ok H L c pool" "(deliver H ^^ n) (c, pool) (c', pool')"
  shows "delivery_ok H L c' pool' \<and> n + delivery_left c' pool' \<le> delivery_left c pool"
  using assms(3)
proof (induction n arbitrary: c' pool')
  case 0
  then show ?case using assms(2) by auto
next
  case (Suc n)
  then obtain d p where "(deliver H ^^ n) (c, pool) (d, p)" "deliver H (d, p) (c', pool')"
    by (auto elim!: relcompp.cases)
  then show ?case using Suc.IH deliver_keeps [OF assms(1), of d p c' pool'] by fastforce
qed

lemma deliver_progress:
  assumes "links_ok H L" "delivery_ok H L c pool" "pool \<noteq> []"
  shows "\<exists>st. deliver H (c, pool) st"
proof -
  obtain b ys where "pool = [] @ b # ys" using assms(3) by (cases pool) auto
  moreover have "is_order (id :: Block list \<Rightarrow> _)" by (simp add: is_order_def)
  ultimately show ?thesis
    using deliver_step [OF assms(1), of c "[]" b ys id] assms(2) deliver.receive by (metis append_Nil)
qed

text \<open>With an empty pool nothing waits: every block of the chain is stored.\<close>

lemma delivery_done:
  assumes "valid_chain H p bs" "delivery_ok H (set L) c []" "set (links H p bs) \<subseteq> set L"
    "map_get (Blocks c) (GetHashStr H p) \<noteq> None" "b \<in> set bs"
  shows "map_get (Blocks c) (GetHashStr H b) \<noteq> None"
  using assms
proof (induction bs arbitrary: p)
  case (Cons a bs)
  obtain s where s: "valid_chain H s bs" "links H p (a # bs) = (p, a, s) # links H s bs"
    "GetHashStr H s = GetHashStr H a" "PrevBlockHash a = GetHashStr H p"
    using Cons.prems(1) by (rule valid_chain_Cons)
  have sub: "(p, a, s) \<in> set L" "set (links H s bs) \<subseteq> set L" using Cons.prems(3) unfolding s(2) by simp_all
  then have here: "map_get (Blocks c) (GetHashStr H a) \<noteq> None"
    using delivery_okD(1) [OF Cons.prems(2) sub(1)] Cons.prems(4) s(4) by (simp add: placed_def)
  show ?case
  proof (cases "b = a")
    case False
    then show ?thesis
      using Cons.IH [OF s(1) Cons.prems(2) sub(2)] Cons.prems(5) here s(3) by simp
  qed (use here in simp)
qed simp

text \<open>The configuration a delivery starts from.\<close>

lemma delivery_start:
  assumes "node_ok H c" "map_get (Blocks c) (GetHashStr H p) = Some p" "valid_chain H p bs"
    "distinct (map (GetHashStr H) bs)" "\<forall>b \<in> set bs. map_get (Blocks c) (GetHashStr H b) = None"
    "PendingBlocks c = []" "set pool = set bs"
  shows "links_ok H (set (links H p bs))" "delivery_ok H (set (links H p bs)) c pool"
proof -
  have "distinct (chain_ids H p bs)" using assms(2,4,5) by (auto simp: chain_ids_def)
  then show "links_ok H (set (links H p bs))" using assms(3) by (rule links_ok_chain [rotated])
  show "delivery_ok H (set (links H p bs)) c pool"
  proof (rule delivery_okI)
    show "\<exists>q s. (q, b, s) \<in> set (links H p bs)" if "b \<in> set pool" for b
      using link_of [OF assms(3)] that assms(7) by metis
    fix q b s assume l: "(q, b, s) \<in> set (links H p bs)"
    have "map_get (Blocks c) (PrevBlockHash b) \<in> {None, Some q}"
      using link_pred [OF assms(3) l] link_facts [OF assms(3) l] link_facts [OF assms(3)] assms(2,5)
      by (metis insert_iff)
    then show "placed c pool (GetHashStr H b) b \<and> map_get (Blocks c) (GetHashStr H b) \<in> {None, Some s}
        \<and> map_get (Blocks c) (PrevBlockHash b) \<in> {None, Some q}
        \<and> map_get (PendingBlocks c) (PrevBlockHash b) \<in> {None, Some \<lparr>items = [(GetHashStr H b, b)]\<rparr>}"
      using link_facts [OF assms(3) l] assms(5-7) by (simp add: placed_def)
  qed (use assms(1,6) in simp_all)
qed

text \<open>A delivery forgets no block, and the head is as long as the blocks stored.\<close>

lemma deliver_run_stored:
  assumes "(deliver H ^^ n) (c, pool) (c', pool')" "map_get (Blocks c) k \<noteq> None"
  shows "map_get (Blocks c') k \<noteq> None"
  using assms(1)
proof (induction n arbitrary: c' pool')
  case 0
  then show ?case using assms(2) by auto
next
  case (Suc n)
  then obtain d p where d: "(deliver H ^^ n) (c, pool) (d, p)" "deliver H (d, p) (c', pool')"
    by (auto elim!: relcompp.cases)
  obtain ord b r effs where "ReceiveBlock H ord d b = ret (c', r, effs)"
    using d(2) by (rule deliverE) auto
  then have "Blocks c' = Blocks d \<or> (\<exists>i v. Blocks c' = map_put i v (Blocks d))"
  proof (cases rule: ReceiveBlock_returns)
    case kept
    have "Blocks c' = Blocks d" by (subst kept(2)) simp
    then show ?thesis ..
  qed blast
  then show ?case using Suc.IH [OF d(1)] by auto
qed

lemma delivered_length:
  assumes "delivery_ok H (set (links H p bs)) c pool" "valid_chain H p bs" "b \<in> set bs"
    "map_get (Blocks c) (GetHashStr H b) \<noteq> None" "LastBlock c = Some h"
  shows "ChainLength b \<le> ChainLength h"
proof -
  obtain q s where l: "(q, b, s) \<in> set (links H p bs)" using assms(2,3) by (rule link_of)
  have s: "map_get (Blocks c) (GetHashStr H b) = Some s"
    using delivery_okD(2) [OF assms(1) l] assms(4) by auto
  have "ChainLength s = ChainLength b"
    using link_facts [OF assms(2) l] Rerun_header [of H b q s True] header_fields(4) [of s b] by simp
  moreover have "head_ok c" using assms(1) by (auto simp: delivery_ok_def node_ok_def)
  ultimately show ?thesis using s assms(5) by (auto simp: head_ok_def stored_def)
qed

end
