(* ===== verification/DemoNode.thy ===== *)
theory DemoNode
  imports Demo Delivery
begin

text \<open>
  A client on the demo genesis block, and two blocks on top of it, for the witnesses of the
  properties of nodes.
\<close>

definition demo_start :: client where
  "demo_start = \<lparr>Name = ''node'', Address = ''alice-alice'', PrivKey = demo_key, PubKey = Public demo_key,
     Blocks = [], PendingOutgoingTransactions = [], PendingReceivedTransactions = [],
     PendingBlocks = [], LastBlock = None, LastConfirmedBlock = None, ReceivedBlock = None,
     Config = \<lparr>coinbaseAmount = 25, defaultTxFee = 1, confirmedDepth = 6\<rparr>, Client_Nonce = 0,
     Emitter = []\<rparr>"

definition demo_id :: string where
  "demo_id = demo_hash []"

definition demo_node :: client where
  "demo_node = demo_start\<lparr>LastConfirmedBlock := Some demo_genesis, LastBlock := Some demo_genesis,
     Blocks := [(demo_id, demo_genesis)]\<rparr>"

lemma demo_genesis_id [simp]:
  "GetHash demo_crypto demo_genesis = Inr demo_id" "GetHashStr demo_crypto demo_genesis = demo_id"
  using demo_hash_block [of demo_genesis] demo_json_time
  by (simp_all add: demo_genesis_def demo_id_def)

lemma demo_node_start: "SetGenesisBlock demo_crypto demo_start demo_genesis = Ok demo_node"
  by (simp add: SetGenesisBlock_def demo_node_def demo_start_def map_put_def)

lemma demo_node_ok: "node_ok demo_crypto demo_node"
  by (rule SetGenesisBlock_ok [OF demo_node_start])
     (simp_all add: demo_start_def map_ok_def IsGenesisBlock_def demo_genesis_def)

lemma demo_node_fields [simp]:
  "Blocks demo_node = [(demo_id, demo_genesis)]" "LastBlock demo_node = Some demo_genesis"
  "LastConfirmedBlock demo_node = Some demo_genesis" "PendingBlocks demo_node = []"
  "PendingOutgoingTransactions demo_node = []" "Address demo_node = ''alice-alice''"
  "ChainLength demo_genesis = 0"
  by (simp_all add: demo_node_def demo_start_def demo_genesis_def)

lemma demo_ids: "length demo_id = 2" "plain demo_id"
  by (simp_all add: demo_id_def)

lemma demo_id_nonempty [simp]: "demo_id \<noteq> []" "[] \<noteq> demo_id"
  by (simp_all add: demo_id_def)

text \<open>The identity of a block on the demo genesis.\<close>

lemma demo_child_id:
  "GetHashStr demo_crypto (demo_child demo_genesis txs) = demo_hash demo_id"
  "GetHash demo_crypto (demo_child demo_genesis txs) = Inr (demo_hash demo_id)"
  "demo_hash demo_id \<noteq> demo_id"
  "hasValidProof demo_crypto (demo_child demo_genesis txs)"
proof -
  let ?b = "demo_child demo_genesis txs"
  have b: "Timestamp ?b = demo_time" "Target ?b = 2 ^ 200" by (simp_all add: demo_child_def)
  show "GetHashStr demo_crypto ?b = demo_hash demo_id"
    "GetHash demo_crypto ?b = Inr (demo_hash demo_id)"
    using demo_hash_block [of ?b] b demo_ids demo_json_time by simp_all
  show "demo_hash demo_id \<noteq> demo_id" by simp
  show "hasValidProof demo_crypto ?b" using b demo_ids by (intro demo_proof) simp_all
qed

lemma demo_good:
  assumes "\<forall>tx \<in> set txs. safe_tx tx"
  shows "good_block demo_crypto (demo_child demo_genesis txs)"
  using assms by (simp add: good_block_def honest_def)

lemma demo_admissible: "admissible demo_crypto demo_node (demo_child demo_genesis [])"
proof -
  obtain s where "Rerun demo_crypto (demo_child demo_genesis []) (Some demo_genesis) =
      Rerun_loop demo_crypto s (elems (Transactions (demo_child demo_genesis [])))"
    by (rule Rerun_start)
  then show ?thesis
    using demo_child_id by (auto simp: admissible_def map_get_def)
qed

text \<open>An empty block on any block re-runs, and two of them make a chain on the genesis block.\<close>

lemma demo_empty_reruns:
  obtains s where "Rerun demo_crypto (demo_child p []) (Some q) = Ok (s, True)"
    "GetHashStr demo_crypto s = GetHashStr demo_crypto (demo_child p [])"
proof -
  obtain s where "Rerun demo_crypto (demo_child p []) (Some q) =
      Rerun_loop demo_crypto s (elems (Transactions (demo_child p [])))"
    by (rule Rerun_start)
  then have run: "Rerun demo_crypto (demo_child p []) (Some q) = Ok (s, True)" by simp
  have "honest demo_crypto (demo_child p [])" by (simp add: honest_def)
  then show thesis using that [OF run] Rerun_same_hash(2) [OF run run] by blast
qed

definition demo_one :: Block where
  "demo_one = demo_child demo_genesis []"

definition demo_two :: Block where
  "demo_two = demo_child demo_one []"

lemma demo_one_two:
  "GetHashStr demo_crypto demo_one = demo_hash demo_id"
  "GetHashStr demo_crypto demo_two = demo_hash (demo_hash demo_id)"
  "hasValidProof demo_crypto demo_one" "hasValidProof demo_crypto demo_two"
  "\<not> IsGenesisBlock demo_one" "\<not> IsGenesisBlock demo_two"
  "good_block demo_crypto demo_one" "good_block demo_crypto demo_two"
proof -
  have t: "Timestamp demo_two = demo_time" "Target demo_two = 2 ^ 200"
    by (simp_all add: demo_two_def demo_child_def)
  show one: "GetHashStr demo_crypto demo_one = demo_hash demo_id" "hasValidProof demo_crypto demo_one"
    by (simp_all add: demo_one_def demo_child_id)
  then have prev: "PrevBlockHash demo_two = demo_hash demo_id" by (simp add: demo_two_def)
  then show "GetHashStr demo_crypto demo_two = demo_hash (demo_hash demo_id)"
    using demo_hash_block(2) [of demo_two] t(1) demo_json_time demo_ids by simp
  show "hasValidProof demo_crypto demo_two" using prev t demo_ids by (intro demo_proof) simp_all
  show "\<not> IsGenesisBlock demo_one" "\<not> IsGenesisBlock demo_two"
    "good_block demo_crypto demo_one" "good_block demo_crypto demo_two"
    by (simp_all add: demo_one_def demo_two_def IsGenesisBlock_def good_block_def honest_def)
qed

lemma demo_chain: "valid_chain demo_crypto demo_genesis [demo_one, demo_two]"
proof -
  obtain s where s: "Rerun demo_crypto demo_one (Some demo_genesis) = Ok (s, True)"
    "GetHashStr demo_crypto s = GetHashStr demo_crypto demo_one"
    unfolding demo_one_def by (rule demo_empty_reruns)
  obtain r where "Rerun demo_crypto demo_two (Some s) = Ok (r, True)"
    unfolding demo_two_def by (rule demo_empty_reruns)
  moreover have "PrevBlockHash demo_one = demo_id" "PrevBlockHash demo_two = GetHashStr demo_crypto demo_one"
    by (simp_all add: demo_one_def demo_two_def)
  ultimately show ?thesis using s demo_one_two by simp
qed

end
