(* ===== verification/Posting.thy ===== *)
theory Posting
  imports ClientInv
begin

text \<open>
  Lemmas on \<open>PostTransaction\<close> and the gold a node believes it can spend: the outcome of
  posting by cases, what a posted transaction looks like, and that it is accepted by a block
  whose ledger expects it.
\<close>

section \<open>The spent gold\<close>

lemma pendingSpent_sum:
  "pendingSpent c = sum_list (map TotalOutput (map_values (PendingOutgoingTransactions c)))"
proof -
  have "foldl (\<lambda>spent tx. spent + TotalOutput tx) a txs = a + sum_list (map TotalOutput txs)" for a txs
    by (induction txs arbitrary: a) (simp_all add: algebra_simps)
  then show ?thesis by (simp add: pendingSpent_def)
qed

lemma pendingSpent_put:
  assumes "map_get (PendingOutgoingTransactions c) k = None"
  shows "pendingSpent (c\<lparr>PendingOutgoingTransactions := map_put k tx (PendingOutgoingTransactions c)\<rparr>)
    = pendingSpent c + TotalOutput tx"
  using assms by (simp add: pendingSpent_sum map_values_def map_put_fresh)

section \<open>What is posted\<close>

definition unsigned_tx :: "'a client_scheme \<Rightarrow> Output slice \<Rightarrow> u32 \<Rightarrow> Transaction" where
  "unsigned_tx c outputs fee =
     \<lparr>Info = \<lparr>From = Address c, Info_Nonce = Client_Nonce c, Pubkey = PubKey c, Fee = fee,
              Outputs = Some (elems outputs), Data = Some []\<rparr>, Sig = Some []\<rparr>"

text \<open>The transaction that is posted; the unsigned one stands for it where signing panics.\<close>

definition posted_tx :: "crypto \<Rightarrow> 'a client_scheme \<Rightarrow> Output slice \<Rightarrow> u32 \<Rightarrow> Transaction" where
  "posted_tx H c outputs fee =
     (case Sign H (unsigned_tx c outputs fee) (PrivKey c) of
        Ok (tx, signature) \<Rightarrow> tx | Panic p \<Rightarrow> unsigned_tx c outputs fee)"

lemma posted_tx_info: "Info (posted_tx H c outputs fee) = Info (unsigned_tx c outputs fee)"
  by (auto simp: posted_tx_def dest: Sign_Info split: res.split)

lemma posted_tx_fields [simp]:
  "From (Info (posted_tx H c outputs fee)) = Address c"
  "Info_Nonce (Info (posted_tx H c outputs fee)) = Client_Nonce c"
  "Pubkey (Info (posted_tx H c outputs fee)) = PubKey c"
  "Fee (Info (posted_tx H c outputs fee)) = fee"
  "tx_outputs (posted_tx H c outputs fee) = elems outputs"
  by (simp_all add: posted_tx_info unsigned_tx_def)

lemma posted_total:
  "TotalOutput (posted_tx H c outputs fee) = foldl (\<lambda>total output. total + Out_Amount output) fee (elems outputs)"
  by (simp add: TotalOutput_sum foldl_amount add.commute)

text \<open>What the key signs when it posts.\<close>

definition posted_digest :: "crypto \<Rightarrow> 'a client_scheme \<Rightarrow> Output slice \<Rightarrow> u32 \<Rightarrow> string" where
  "posted_digest H c outputs fee = bytes_of (Info_GetHash H (Info (unsigned_tx c outputs fee)))"

lemma posted_signed:
  assumes "rsa_sign H (PrivKey c) (posted_digest H c outputs fee) = Ok r"
  obtains signature where "Sign H (unsigned_tx c outputs fee) (PrivKey c) = Ok (posted_tx H c outputs fee, signature)"
proof (cases "Sign H (unsigned_tx c outputs fee) (PrivKey c)")
  case (Ok x)
  then show thesis using that by (cases x) (simp add: posted_tx_def)
next
  case (Panic p)
  then show thesis using assms by (simp add: Sign_panics posted_digest_def)
qed

lemma PostTransaction_outcome:
  obtains (no_chain) "LastConfirmedBlock c = None" "PostTransaction H c outputs fee = Panic NilDeref"
  | (overdraft) g where "AvailableGold c = Ok g" "g < TotalOutput (posted_tx H c outputs fee)"
      "PostTransaction H c outputs fee =
         Panic (Explicit ''Account doesn't have enough balance for transaction'')"
  | (no_outputs) g where "AvailableGold c = Ok g" "fee \<le> g" "elems outputs = []"
      "PostTransaction H c outputs fee = Panic NilDeref"
  | (unsignable) g p where "AvailableGold c = Ok g" "TotalOutput (posted_tx H c outputs fee) \<le> g"
      "elems outputs \<noteq> []" "rsa_sign H (PrivKey c) (posted_digest H c outputs fee) = Panic p"
      "PostTransaction H c outputs fee = Panic p"
  | (posted) g r where "AvailableGold c = Ok g" "TotalOutput (posted_tx H c outputs fee) \<le> g"
      "elems outputs \<noteq> []" "rsa_sign H (PrivKey c) (posted_digest H c outputs fee) = Ok r"
      "PostTransaction H c outputs fee =
         Ok (c\<lparr>PendingOutgoingTransactions := map_put (Tx_Id H (posted_tx H c outputs fee))
                  (posted_tx H c outputs fee) (PendingOutgoingTransactions c),
               Client_Nonce := Client_Nonce c + 1\<rparr>,
             posted_tx H c outputs fee,
             [Broadcast POST_TRANSACTION (render (json_transaction (posted_tx H c outputs fee)))])"
proof (cases "LastConfirmedBlock c")
  case None
  then show thesis
    using no_chain by (simp add: PostTransaction_def AvailableGold_def ConfirmedBalance_def Let_def)
next
  case (Some f)
  let ?g = "BalanceOf f (Address c) - pendingSpent c"
  have g: "AvailableGold c = Ok ?g" using Some by (simp add: AvailableGold_def ConfirmedBalance_def)
  have run: "PostTransaction H c outputs fee =
      res_bind (Sign H (unsigned_tx c outputs fee) (PrivKey c)) (\<lambda>(tx, signature).
        Ok (c\<lparr>PendingOutgoingTransactions := map_put (Tx_Id H tx) tx (PendingOutgoingTransactions c),
              Client_Nonce := Client_Nonce c + 1\<rparr>, tx, [Broadcast POST_TRANSACTION (render (json_transaction tx))]))"
    if "TotalOutput (posted_tx H c outputs fee) \<le> ?g" "elems outputs \<noteq> []"
  proof -
    have "\<not> ?g < foldl (\<lambda>total output. total + Out_Amount output) fee (elems outputs)"
      using that(1) by (simp add: posted_total not_less)
    then show ?thesis
      using that(2) by (simp add: PostTransaction_def g Let_def NewTransaction_def TransactionToBytes_def unsigned_tx_def)
  qed
  consider "?g < TotalOutput (posted_tx H c outputs fee)"
    | "TotalOutput (posted_tx H c outputs fee) \<le> ?g" "elems outputs = []"
    | "TotalOutput (posted_tx H c outputs fee) \<le> ?g" "elems outputs \<noteq> []"
    by fastforce
  then show thesis
  proof cases
    case 1
    then show thesis
      using overdraft [OF g] by (simp add: PostTransaction_def g Let_def posted_total)
  next
    case 2
    then show thesis
      using no_outputs [OF g] posted_total [of H c outputs fee]
      by (simp add: PostTransaction_def g Let_def NewTransaction_def)
  next
    case 3
    show thesis
    proof (cases "rsa_sign H (PrivKey c) (posted_digest H c outputs fee)")
      case (Ok r)
      obtain s where "Sign H (unsigned_tx c outputs fee) (PrivKey c) = Ok (posted_tx H c outputs fee, s)"
        using Ok by (rule posted_signed)
      then show thesis using posted [OF g 3 Ok] run [OF 3] by simp
    next
      case (Panic p)
      then have "Sign H (unsigned_tx c outputs fee) (PrivKey c) = Panic p" by (simp add: Sign_panics posted_digest_def)
      then show thesis using unsignable [OF g 3 Panic] run [OF 3] by simp
    qed
  qed
qed

section \<open>A posted transaction is valid\<close>

lemma posted_verifies:
  assumes "signs H (PrivKey c)" "PubKey c = Public (PrivKey c)"
  shows "VerifySignature H (posted_tx H c outputs fee) = Ok True" "Sig (posted_tx H c outputs fee) \<noteq> None"
proof -
  have "Pubkey (Info (unsigned_tx c outputs fee)) = Public (PrivKey c)" using assms(2) by (simp add: unsigned_tx_def)
  then obtain s where "Sign H (unsigned_tx c outputs fee) (PrivKey c) = Ok (unsigned_tx c outputs fee\<lparr>Sig := Some s\<rparr>, Some s)"
    "VerifySignature H (unsigned_tx c outputs fee\<lparr>Sig := Some s\<rparr>) = Ok True"
    by (rule Sign_verifies [OF assms(1)])
  then show "VerifySignature H (posted_tx H c outputs fee) = Ok True" "Sig (posted_tx H c outputs fee) \<noteq> None"
    by (simp_all add: posted_tx_def)
qed

lemma posted_accepted:
  assumes "signs H (PrivKey c)" "PubKey c = Public (PrivKey c)"
    and "NonceOf b (Address c) = Client_Nonce c" "\<not> Contains H b (posted_tx H c outputs fee)"
    and "TotalOutput (posted_tx H c outputs fee) \<le> BalanceOf b (Address c)"
  shows "spec_accepts H (ledger_of b) (posted_tx H c outputs fee)"
  using assms posted_verifies [OF assms(1,2), of outputs fee]
  by (simp add: spec_accepts_def ledger_of_def Contains_ids)

end
