(* ===== verification/ClientProps.thy ===== *)
theory ClientProps
  imports DemoNode Posting
begin

text \<open>
  The properties of nodes: the block store and its head, the longest-chain rule, blocks that
  wait for their predecessor, confirmation, posting transactions, and the places where the
  checks of \<open>blockchain/client.go\<close> leave a node open.
\<close>

section \<open>The block store\<close>

text \<open>C7: ReceiveBlock never panics or hangs on a block whose transactions carry their own ids,
  a key with a modulus and a non-zero total; it keeps the node's invariant (every stored block is
  under its own hash and reaches a genesis block, the head is stored and is a longest block, the
  confirmed block lies on the head's chain), forgets no block, and stores the block exactly when it
  is new and is a genesis block or has a valid proof and re-runs on a stored predecessor.\<close>

theorem ReceiveBlock_keeps_node:
  assumes "node_ok H c" and "good_block H b"
  shows "\<exists>c' r effs. ReceiveBlock H ord c b = ret (c', r, effs) \<and> node_ok H c'
    \<and> (\<forall>k v. map_get (Blocks c) k = Some v \<longrightarrow> map_get (Blocks c') k = Some v)
    \<and> (r \<noteq> None \<longleftrightarrow> admissible H c b)
    \<and> (map_get (Blocks c') (GetHashStr H b) \<noteq> None \<longleftrightarrow>
        map_get (Blocks c) (GetHashStr H b) \<noteq> None \<or> admissible H c b)"
proof (cases rule: ReceiveBlock_effect [OF assms, of ord])
  case 1
  then show ?thesis using assms(1) by simp
next
  case (2 c')
  then show ?thesis by (intro exI [of _ c']) auto
next
  case (3 c' b')
  have "map_get (Blocks c) (GetHashStr H b) = None" using 3(2) by (simp add: admissible_def)
  then show ?thesis using 3 by (intro exI [of _ c'] exI [of _ "Some b'"]) auto
qed

theorem ReceiveBlock_keeps_node_witness:
  "\<exists>c' b' effs. ReceiveBlock demo_crypto id demo_node (demo_child demo_genesis []) = ret (c', Some b', effs)
     \<and> node_ok demo_crypto c' \<and> map_get (Blocks c') demo_id = Some demo_genesis"
proof -
  have g: "good_block demo_crypto (demo_child demo_genesis [])" by (simp add: demo_good)
  obtain c' r effs where "ReceiveBlock demo_crypto id demo_node (demo_child demo_genesis []) = ret (c', r, effs)"
    "node_ok demo_crypto c'" "map_get (Blocks c') demo_id = Some demo_genesis" "r \<noteq> None"
    using ReceiveBlock_keeps_node [OF demo_node_ok g, of id] demo_admissible by (auto simp: map_get_def)
  then show ?thesis by auto
qed

text \<open>C15: The longest-chain rule, for any node and any block: when ReceiveBlock stores the block, the
  head becomes the block exactly when the block is strictly longer than the head, and otherwise
  head, confirmed block and pending transactions stay; when it returns nil, only the table of
  waiting blocks may have changed.\<close>

theorem ReceiveBlock_longest_chain:
  assumes "ReceiveBlock H ord c b = ret (c', r, effs)"
  shows "(case r of
      None \<Rightarrow> c' = c\<lparr>PendingBlocks := PendingBlocks c'\<rparr>
    | Some b' \<Rightarrow> (\<exists>h. LastBlock c = Some h
        \<and> Blocks c' = map_put (GetHashStr H b') b' (Blocks c)
        \<and> ChainLength b' = ChainLength b \<and> PrevBlockHash b' = PrevBlockHash b
        \<and> LastBlock c' = Some (if ChainLength h < ChainLength b then b' else h)
        \<and> (\<not> ChainLength h < ChainLength b \<longrightarrow>
            c' = c\<lparr>Blocks := Blocks c', PendingBlocks := PendingBlocks c'\<rparr>)))"
  using assms
proof (cases rule: ReceiveBlock_returns)
  case (added b' h)
  then show ?thesis using header_fields [OF added(2)] by auto
qed simp

theorem ReceiveBlock_longest_chain_witness:
  "\<exists>c' b' effs. ReceiveBlock demo_crypto id demo_node (demo_child demo_genesis []) = ret (c', Some b', effs)
     \<and> LastBlock c' = Some b' \<and> ChainLength b' = 1"
proof -
  have g: "good_block demo_crypto (demo_child demo_genesis [])" by (simp add: demo_good)
  obtain c' b' effs where r: "ReceiveBlock demo_crypto id demo_node (demo_child demo_genesis []) = ret (c', Some b', effs)"
    using demo_admissible by (cases rule: ReceiveBlock_effect [OF demo_node_ok g, of id]) auto
  then show ?thesis using ReceiveBlock_longest_chain [OF r] by auto
qed

section \<open>Delivery in any order\<close>

text \<open>C6: A node that stores the first block of a valid chain and receives the other blocks, in any
  order and any number of times, with the goroutines it starts for released blocks scheduled in any
  order, ends after at most two receptions per delivery with every block of the chain stored, its
  invariant kept and its head at least as long as the chain; it never gets stuck before that. (The
  hashes of the blocks are distinct and new to the node, and no block waits at the start.)\<close>

theorem delivery_converges:
  assumes "node_ok H c" and "map_get (Blocks c) (GetHashStr H p) = Some p" and "valid_chain H p bs"
    and "distinct (map (GetHashStr H) bs)"
    and "\<forall>b \<in> set bs. map_get (Blocks c) (GetHashStr H b) = None"
    and "PendingBlocks c = []" and "set pool = set bs"
    and "(deliver H ^^ n) (c, pool) (c', pool')"
  shows "n \<le> 2 * length pool \<and> node_ok H c' \<and> (pool' \<noteq> [] \<longrightarrow> (\<exists>st. deliver H (c', pool') st))
    \<and> (pool' = [] \<longrightarrow> (\<forall>b \<in> set bs. map_get (Blocks c') (GetHashStr H b) \<noteq> None)
        \<and> (\<exists>h. LastBlock c' = Some h \<and> (\<forall>b \<in> set bs. ChainLength b \<le> ChainLength h)))"
proof -
  note start = delivery_start [OF assms(1-7)]
  have run: "delivery_ok H (set (links H p bs)) c' pool'" "n + delivery_left c' pool' \<le> delivery_left c pool"
    using deliver_run [OF start assms(8)] by simp_all
  have ok: "node_ok H c'" using run(1) by (simp add: delivery_ok_def)
  obtain h where h: "LastBlock c' = Some h" using ok by (auto simp: node_ok_def head_ok_def)
  have kept: "map_get (Blocks c') (GetHashStr H p) \<noteq> None"
    using deliver_run_stored [OF assms(8)] assms(2) by simp
  have all: "\<forall>b \<in> set bs. map_get (Blocks c') (GetHashStr H b) \<noteq> None" if "pool' = []"
    using delivery_done [OF assms(3) run(1) [unfolded that] order.refl kept] by blast
  have "\<forall>b \<in> set bs. ChainLength b \<le> ChainLength h" if "pool' = []"
    using delivered_length [OF run(1) assms(3)] all [OF that] h by blast
  then show ?thesis
    using run(2) ok h all deliver_progress [OF start(1) run(1)] assms(6)
    by (simp add: delivery_left_def map_len_def)
qed

theorem delivery_converges_witness:
  "\<exists>st. deliver demo_crypto (demo_node, [demo_two, demo_one, demo_two]) st"
proof -
  have "map_get (Blocks demo_node) (GetHashStr demo_crypto demo_genesis) = Some demo_genesis" by simp
  moreover have "demo_hash demo_id \<noteq> demo_id" "demo_hash (demo_hash demo_id) \<noteq> demo_id"
    by (rule length_neq; simp add: demo_ids)+
  then have "distinct (map (GetHashStr demo_crypto) [demo_one, demo_two])"
    "\<forall>b \<in> set [demo_one, demo_two]. map_get (Blocks demo_node) (GetHashStr demo_crypto b) = None"
    by (simp_all add: demo_one_two)
  moreover have "(deliver demo_crypto ^^ 0) (demo_node, [demo_two, demo_one, demo_two])
      (demo_node, [demo_two, demo_one, demo_two])" by simp
  ultimately show ?thesis
    using delivery_converges [OF demo_node_ok _ demo_chain, of "[demo_two, demo_one, demo_two]" 0] by auto
qed

section \<open>Confirmation\<close>

text \<open>C16: SetLastConfirmed returns on every node that satisfies the invariant: the confirmed block is
  the first block on the head's chain, walking back from the head, whose length is at most the
  head's minus CONFIRMED_DEPTH (0 when the head is shorter than that); it is stored, exactly the
  pending transactions it contains are dropped, and nothing else changes. Where every stored
  block is one longer than its predecessor, the confirmed length is exact.\<close>

theorem SetLastConfirmed_nearest:
  assumes "node_ok H c" and "LastBlock c = Some h"
  shows "\<exists>f c'. SetLastConfirmed H c = ret c' \<and> node_ok H c'
    \<and> c' = c\<lparr>LastConfirmedBlock := Some f, PendingOutgoingTransactions := PendingOutgoingTransactions c'\<rparr>
    \<and> stored c f \<and> confirms (Blocks c) (confirmedBlockHeight h) h f
    \<and> unat (ChainLength f) \<le> unat (ChainLength h) - 6
    \<and> (unit_steps (Blocks c) \<longrightarrow> unat (ChainLength f) = unat (ChainLength h) - 6)
    \<and> (\<forall>k tx. map_get (PendingOutgoingTransactions c') k = Some tx \<longleftrightarrow>
          map_get (PendingOutgoingTransactions c) k = Some tx \<and> \<not> Contains H f tx)"
proof -
  note c = node_okD [OF assms(1)]
  obtain k where k: "map_get (Blocks c) k = Some h"
    using c(6) assms(2) by (auto simp: head_ok_def stored_def)
  obtain f j where f: "confirms (Blocks c) (confirmedBlockHeight h) h f" "map_get (Blocks c) j = Some f"
    using rooted_confirms [OF c(5) k] by metis
  let ?c = "c\<lparr>LastConfirmedBlock := Some f,
    PendingOutgoingTransactions := map_drop (Contains H f) (PendingOutgoingTransactions c)\<rparr>"
  have "stored ?c = stored c" by (rule stored_cong) simp
  then have "head_ok ?c" using c(6) assms(2) f(1) by (auto simp: head_ok_def)
  then have "node_ok H ?c" using assms(1) c(2) by (simp add: node_ok_def)
  moreover have "unit_steps (Blocks c) \<Longrightarrow> ChainLength f = confirmedBlockHeight h"
    using unit_steps_confirms [OF f(1) k] confirmedBlockHeight_le by blast
  ultimately show ?thesis
    using SetLastConfirmed_confirms [OF assms(2) f(1)] f confirms_height [OF f(1)] c(2)
    by (intro exI [of _ f] exI [of _ ?c])
       (auto simp: stored_def map_get_drop unat_confirmedBlockHeight word_le_nat_alt)
qed

theorem SetLastConfirmed_nearest_witness:
  "\<exists>c'. SetLastConfirmed demo_crypto demo_node = ret c' \<and> LastConfirmedBlock c' = Some demo_genesis"
proof -
  have "LastBlock demo_node = Some demo_genesis" by simp
  from SetLastConfirmed_nearest [OF demo_node_ok this] obtain f c' where
    c': "SetLastConfirmed demo_crypto demo_node = ret c'" "stored demo_node f"
    "c' = demo_node\<lparr>LastConfirmedBlock := Some f, PendingOutgoingTransactions := PendingOutgoingTransactions c'\<rparr>"
    by blast
  have "LastConfirmedBlock c' = Some f" by (subst c'(3)) simp
  moreover have "f = demo_genesis" using c'(2) by (auto simp: stored_def map_get_def split: if_splits)
  ultimately show ?thesis using c'(1) by blast
qed

section \<open>Posting transactions\<close>

text \<open>C18: PostTransaction, when the amounts and the fee (added without wrap-around) are within the
  available gold, there is an output and the node's key is one on which signing does not panic: it returns a transaction from the node's address with its
  current nonce, key, fee and outputs, broadcasts exactly that transaction, remembers it as pending,
  and advances the nonce; when its id is new, the available gold falls by exactly its total.\<close>

theorem PostTransaction_posts:
  assumes "AvailableGold c = Ok g" and "elems outputs \<noteq> []"
    and "nat_sum (map Out_Amount (elems outputs)) + unat fee \<le> unat g"
    and "\<And>d p. rsa_sign H (PrivKey c) d \<noteq> Panic p"
  shows "\<exists>c' tx. PostTransaction H c outputs fee =
      Ok (c', tx, [Broadcast POST_TRANSACTION (render (json_transaction tx))])
    \<and> From (Info tx) = Address c \<and> Info_Nonce (Info tx) = Client_Nonce c
    \<and> Pubkey (Info tx) = PubKey c \<and> Fee (Info tx) = fee \<and> tx_outputs tx = elems outputs
    \<and> map_get (PendingOutgoingTransactions c') (Tx_Id H tx) = Some tx
    \<and> Client_Nonce c' = Client_Nonce c + 1
    \<and> (map_get (PendingOutgoingTransactions c) (Tx_Id H tx) = None \<longrightarrow> (\<exists>g'. AvailableGold c' = Ok g'
        \<and> unat g' + (nat_sum (map Out_Amount (elems outputs)) + unat fee) = unat g))"
proof -
  let ?tx = "posted_tx H c outputs fee" and ?P = "PendingOutgoingTransactions c"
  let ?c = "c\<lparr>PendingOutgoingTransactions := map_put (Tx_Id H ?tx) ?tx ?P, Client_Nonce := Client_Nonce c + 1\<rparr>"
  have nat: "total_nat ?tx = nat_sum (map Out_Amount (elems outputs)) + unat fee"
    by (simp add: total_nat_def)
  have "no_overflow ?tx" using nat le_less_trans [OF assms(3) unat_u32_less] by (simp add: no_overflow_def)
  then have total: "unat (TotalOutput ?tx) = nat_sum (map Out_Amount (elems outputs)) + unat fee"
    using nat by (simp add: unat_TotalOutput_exact)
  then have le: "TotalOutput ?tx \<le> g" using assms(3) by (simp add: word_le_nat_alt)
  have post: "PostTransaction H c outputs fee =
      Ok (?c, ?tx, [Broadcast POST_TRANSACTION (render (json_transaction ?tx))])"
    using assms(1,2,4) le
    by (cases rule: PostTransaction_outcome [of c H outputs fee])
       (auto simp: AvailableGold_def ConfirmedBalance_def)
  have spent: "AvailableGold ?c = Ok (g - TotalOutput ?tx)" if "map_get ?P (Tx_Id H ?tx) = None"
    using assms(1) pendingSpent_put [OF that, of ?tx]
    by (auto simp: AvailableGold_def ConfirmedBalance_def pendingSpent_sum split: option.splits)
  have "unat (g - TotalOutput ?tx) + (nat_sum (map Out_Amount (elems outputs)) + unat fee) = unat g"
    using le total assms(3) by (simp add: unat_u32_minus)
  then show ?thesis
    using post spent by (intro exI [of _ ?c] exI [of _ ?tx]) auto
qed

theorem PostTransaction_posts_witness:
  "\<exists>c' tx g. PostTransaction demo_crypto (demo_node\<lparr>Address := ''alice''\<rparr>) (Some [demo_out ''bob'' 30]) 1 =
       Ok (c', tx, [Broadcast POST_TRANSACTION (render (json_transaction tx))])
     \<and> AvailableGold c' = Ok g \<and> unat g = 69"
proof -
  let ?c = "demo_node\<lparr>Address := ''alice''\<rparr>"
  have "AvailableGold ?c = Ok 100" by (simp add: AvailableGold_def ConfirmedBalance_def pendingSpent_sum map_values_def)
  moreover have "rsa_sign demo_crypto (PrivKey ?c) d \<noteq> Panic p" for d p
    by (simp add: demo_node_def demo_start_def demo_signs)
  ultimately show ?thesis
    using PostTransaction_posts [of ?c 100 "Some [demo_out ''bob'' 30]" 1 demo_crypto] by auto
qed

text \<open>C19: PostTransaction panics in exactly four cases: the node has no confirmed block; the total,
  computed modulo \<open>2 ^ 32\<close>, is above the available gold; it is not, but there are no outputs (the
  constructor's error is ignored and its nil result is dereferenced); or the transaction is made, but
  signing its hash panics, as it does with every key that has no modulus and as SignPKCS1v15 does on
  other incomplete keys.\<close>

theorem PostTransaction_panics_iff:
  "PostTransaction H c outputs fee = Panic p \<longleftrightarrow>
     (LastConfirmedBlock c = None \<and> p = NilDeref)
     \<or> (\<exists>g. AvailableGold c = Ok g \<and> g < sum_list (map Out_Amount (elems outputs)) + fee
          \<and> p = Explicit ''Account doesn't have enough balance for transaction'')
     \<or> (\<exists>g. AvailableGold c = Ok g \<and> fee \<le> g \<and> elems outputs = [] \<and> p = NilDeref)
     \<or> (\<exists>g. AvailableGold c = Ok g \<and> sum_list (map Out_Amount (elems outputs)) + fee \<le> g \<and> elems outputs \<noteq> []
          \<and> (case N (Public (PrivKey c)) of
               None \<Rightarrow> p = NilDeref
             | Some n \<Rightarrow> SignPKCS1v15 H (PrivKey c) (posted_digest H c outputs fee) = Panic p))"
proof -
  have sign: "(case N (Public (PrivKey c)) of None \<Rightarrow> p = NilDeref
      | Some n \<Rightarrow> SignPKCS1v15 H (PrivKey c) (posted_digest H c outputs fee) = Panic p)
    \<longleftrightarrow> rsa_sign H (PrivKey c) (posted_digest H c outputs fee) = Panic p"
    by (auto simp: rsa_sign_def split: option.split)
  show ?thesis
    unfolding sign
    by (cases rule: PostTransaction_outcome [of c H outputs fee])
       (auto simp: TotalOutput_sum AvailableGold_def ConfirmedBalance_def not_less [symmetric] split: option.splits)
qed

text \<open>C17: A posted transaction is valid where it is expected: for a signature scheme in which what a
  key signs verifies with its public part, the transaction PostTransaction returns is added to every
  block that does not contain it, whose next nonce for the node is the node's nonce at the time of
  posting, and in which the node's balance covers the (non-zero) total; the sender's nonce then
  advances and, without an output to itself, its balance falls by the total.\<close>

theorem posted_transaction_is_added:
  assumes "PostTransaction H c outputs fee = Ok (c', tx, effs)"
    and "signs H (PrivKey c)" and "PubKey c = Public (PrivKey c)"
    and "NonceOf b (Address c) = Client_Nonce c" and "\<not> Contains H b tx"
    and "TotalOutput tx \<le> BalanceOf b (Address c)" and "TotalOutput tx \<noteq> 0"
  shows "\<exists>b'. AddTransaction H b tx = Ok (b', True) \<and> Contains H b' tx
    \<and> NonceOf b' (Address c) = Client_Nonce c'
    \<and> (Address c \<notin> Out_Address ` set (elems outputs) \<longrightarrow>
        BalanceOf b' (Address c) = BalanceOf b (Address c) - TotalOutput tx)"
proof -
  have tx: "tx = posted_tx H c outputs fee" and nonce: "Client_Nonce c' = Client_Nonce c + 1"
    using assms(1) by (cases rule: PostTransaction_outcome [of c H outputs fee]; auto)+
  have acc: "spec_accepts H (ledger_of b) tx"
    using posted_accepted [OF assms(2,3,4)] assms(5,6) unfolding tx by blast
  have "N (PubKey c) \<noteq> None" using assms(2,3) by (auto simp: signs_def)
  then have "safe_tx tx" using assms(7) by (simp add: safe_tx_def tx)
  then obtain b' where b': "AddTransaction H b tx = Ok (b', True)" using acc by (rule AddTransaction_accepts)
  have led: "ledger_of b' = spec_apply H (ledger_of b) tx"
    using b' by (cases rule: AddTransaction_outcome [of H b tx]) auto
  have "BalanceOf b' = led_balance (ledger_of b')" "NonceOf b' = led_nonce (ledger_of b')"
    "Tx_id ` set (elems (Transactions b')) = led_ids (ledger_of b')"
    by (simp_all add: ledger_of_def)
  then show ?thesis
    using b' assms(4) nonce foldl_pay_to_other unfolding led
    by (simp add: spec_apply_def Let_def Contains_ids ledger_of_def tx)
qed

theorem posted_transaction_is_added_witness:
  "\<exists>c' tx effs b'. PostTransaction demo_crypto (demo_node\<lparr>Address := ''alice''\<rparr>) (Some [demo_out ''bob'' 30]) 1 =
       Ok (c', tx, effs)
     \<and> AddTransaction demo_crypto demo_genesis tx = Ok (b', True) \<and> BalanceOf b' ''alice'' = 69"
proof -
  let ?c = "demo_node\<lparr>Address := ''alice''\<rparr>"
  have gold: "AvailableGold ?c = Ok 100" by (simp add: AvailableGold_def ConfirmedBalance_def pendingSpent_sum map_values_def)
  obtain c' tx effs where post: "PostTransaction demo_crypto ?c (Some [demo_out ''bob'' 30]) 1 = Ok (c', tx, effs)"
    "TotalOutput tx = 31"
    using gold by (cases rule: PostTransaction_outcome [of ?c demo_crypto "Some [demo_out ''bob'' 30]" 1])
      (auto simp: TotalOutput_sum demo_node_def demo_start_def demo_signs)
  have "signs demo_crypto (PrivKey ?c)" by (simp add: signs_def demo_defs demo_node_def demo_start_def)
  moreover have "PubKey ?c = Public (PrivKey ?c)" "NonceOf demo_genesis (Address ?c) = Client_Nonce ?c"
    by (simp_all add: demo_node_def demo_start_def)
  ultimately show ?thesis
    using posted_transaction_is_added [OF post(1), of demo_genesis] post by (auto simp: Contains_ids)
qed

section \<open>Gaps in the checks\<close>

text \<open>C34: A settled payment can count twice. SetLastConfirmed drops a pending transaction only when the
  newly confirmed block itself contains it. Let a node post a payment to others, let the payment be
  booked in a block on the confirmed balance, and let the node next confirm a block that re-runs on
  that block and in which the node neither pays nor is paid (so the block of the payment is jumped
  over, as when another branch takes over): then the payment is still pending although the confirmed
  balance is already lowered, and the available gold is what it was before, less twice the total of
  amounts and fee. If that is more than there was, the subtraction wraps around, and the node believes
  to own \<open>2 ^ 32\<close> more.\<close>

theorem settled_payment_counts_twice:
  assumes "PostTransaction H c outputs fee = Ok (c1, tx, effs)" and "AvailableGold c = Ok g"
    and "map_get (PendingOutgoingTransactions c) (Tx_Id H tx) = None" and "Address c \<notin> Out_Address ` set (elems outputs)"
    and "LastConfirmedBlock c = Some f0" and "BalanceOf p (Address c) = BalanceOf f0 (Address c)"
    and "AddTransaction H p tx = Ok (b, True)" and "RewardAddr b \<noteq> Address c"
    and "Rerun H f' (Some b) = Ok (f, True)"
    and "\<forall>v \<in> set (elems (Transactions f')). From (Info (Tx v)) \<noteq> Address c
      \<and> Address c \<notin> Out_Address ` set (tx_outputs (Tx v))"
    and "\<forall>(k, t) \<in> set (PendingOutgoingTransactions c1). \<not> Contains H f t"
    and "SetLastConfirmed H (c1\<lparr>Blocks := bs, LastBlock := Some h\<rparr>) = ret c2" and "LastConfirmedBlock c2 = Some f"
  shows "\<exists>g2. AvailableGold c2 = Ok g2 \<and> g2 = g - 2 * TotalOutput tx \<and> TotalOutput tx \<le> g
    \<and> unat g2 = (if 2 * unat (TotalOutput tx) \<le> unat g then unat g - 2 * unat (TotalOutput tx)
        else 2 ^ 32 + unat g - 2 * unat (TotalOutput tx))"
proof -
  let ?P = "PendingOutgoingTransactions c" and ?t = "TotalOutput tx"
  have tx: "tx = posted_tx H c outputs fee" "?t \<le> g" "Address c1 = Address c" "PendingOutgoingTransactions c1 = map_put (Tx_Id H tx) tx ?P"
    using assms(1,2) by (cases rule: PostTransaction_outcome [of c H outputs fee]; auto)+
  have drop: "map_drop (Contains H f) (PendingOutgoingTransactions c1) = PendingOutgoingTransactions c1"
    using assms(11) by (auto simp: map_drop_def filter_id_conv)
  have c2: "PendingOutgoingTransactions c2 = PendingOutgoingTransactions c1" "Address c2 = Address c"
    using assms(12,13) drop tx(3) by (auto simp: SetLastConfirmed_def res_simps)
  have led: "ledger_of b = spec_apply H (ledger_of p) tx"
    using assms(7) by (cases rule: AddTransaction_outcome [of H p tx]) auto
  have "BalanceOf b = led_balance (ledger_of b)" by (simp add: ledger_of_def)
  then have "BalanceOf b (Address c) = BalanceOf p (Address c) - ?t"
    unfolding led using assms(4) by (simp add: spec_apply_def Let_def ledger_of_def foldl_pay_to_other tx(1))
  moreover have "BalanceOf f (Address c) = BalanceOf b (Address c)"
  proof -
    obtain s where s: "Rerun H f' (Some b) = Rerun_loop H s (elems (Transactions f'))" "ledger_of s = spec_start b"
      by (rule Rerun_start)
    have "Rerun_loop H s (elems (Transactions f')) = Ok (f, True)" using assms(9) s(1) by simp
    then have "spec_run H (spec_start b) (map Tx (elems (Transactions f'))) = Some (ledger_of f)"
      using Rerun_loop_refines(2) [of H s "elems (Transactions f')" f] s(2) by simp
    then have "led_balance (ledger_of f) (Address c) = led_balance (spec_start b) (Address c)"
      by (rule spec_run_untouched) (use assms(10) in auto)
    then show ?thesis using assms(8) by (simp add: ledger_of_def spec_start_def rewarded_def)
  qed
  ultimately have settled: "BalanceOf f (Address c) = BalanceOf f0 (Address c) - ?t" using assms(6) by simp
  have "pendingSpent c2 = pendingSpent c + ?t"
    using pendingSpent_put [OF assms(3), of tx] by (simp add: pendingSpent_sum c2 tx(4))
  moreover have "g = BalanceOf f0 (Address c) - pendingSpent c"
    using assms(2,5) by (simp add: AvailableGold_def ConfirmedBalance_def)
  ultimately have "AvailableGold c2 = Ok (g - 2 * ?t)"
    using assms(13) settled by (simp add: AvailableGold_def ConfirmedBalance_def c2)
  moreover have "unat (g - 2 * ?t) = (if 2 * unat ?t \<le> unat g then unat g - 2 * unat ?t else 2 ^ 32 + unat g - 2 * unat ?t)"
    using unat_u32_minus_twice [OF tx(2)] by simp
  ultimately show ?thesis using tx(2) by blast
qed

theorem settled_payment_counts_twice_witness:
  "\<exists>c1 tx effs b f f' bs h c2 g2. PostTransaction demo_crypto (demo_node\<lparr>Address := ''alice''\<rparr>) (Some [demo_out ''bob'' 60]) 1 = Ok (c1, tx, effs)
     \<and> AddTransaction demo_crypto demo_genesis tx = Ok (b, True) \<and> Rerun demo_crypto f' (Some b) = Ok (f, True)
     \<and> SetLastConfirmed demo_crypto (c1\<lparr>Blocks := bs, LastBlock := Some h\<rparr>) = ret c2
     \<and> AvailableGold c2 = Ok g2 \<and> unat g2 = 2 ^ 32 - 22"
proof -
  let ?c = "demo_node\<lparr>Address := ''alice''\<rparr>" and ?out = "Some [demo_out ''bob'' 60]"
  let ?tx = "posted_tx demo_crypto ?c ?out 1"
  have gold: "AvailableGold ?c = Ok 100" by (simp add: AvailableGold_def ConfirmedBalance_def pendingSpent_sum map_values_def)
  have keys: "PrivKey ?c = demo_key" "PubKey ?c = Public demo_key" "Client_Nonce ?c = 0"
    by (simp_all add: demo_node_def demo_start_def)
  have total: "TotalOutput ?tx = 61" by (simp add: TotalOutput_sum)
  obtain c1 effs where post: "PostTransaction demo_crypto ?c ?out 1 = Ok (c1, ?tx, effs)"
    "PendingOutgoingTransactions c1 = [(Tx_Id demo_crypto ?tx, ?tx)]"
    using gold total keys by (cases rule: PostTransaction_outcome [of ?c demo_crypto ?out 1])
      (auto simp: demo_signs map_put_def)
  have "signs demo_crypto (PrivKey ?c)" by (simp add: signs_def demo_defs keys)
  moreover have "PubKey ?c = Public (PrivKey ?c)" "NonceOf demo_genesis (Address ?c) = Client_Nonce ?c"
    using keys by simp_all
  ultimately have "spec_accepts demo_crypto (ledger_of demo_genesis) ?tx"
    by (rule posted_accepted) (simp_all add: Contains_ids total)
  moreover have "safe_tx ?tx" using keys by (simp add: safe_tx_def total demo_key_def)
  ultimately obtain b where b: "AddTransaction demo_crypto demo_genesis ?tx = Ok (b, True)" by (metis AddTransaction_accepts)
  have "header b = header demo_genesis"
    using b by (cases rule: AddTransaction_outcome [of demo_crypto demo_genesis ?tx]) auto
  then have head: "RewardAddr b = []" "ChainLength b = 0" using header_fields [of b demo_genesis] by (simp_all add: demo_genesis_def)
  let ?f = "demo_child b []"
  obtain f where start: "Rerun demo_crypto ?f (Some b) = Rerun_loop demo_crypto f (elems (Transactions ?f))"
    "header f = header ?f" "Transactions f = Some []"
    by (rule Rerun_start)
  then have f: "Rerun demo_crypto ?f (Some b) = Ok (f, True)" "header f = header ?f" "Transactions f = Some []" by simp_all
  have len: "ChainLength f = 1" using header_fields [OF f(2)] head by simp
  let ?h = "demo_genesis\<lparr>ChainLength := 8, PrevBlockHash := ''k''\<rparr>"
  have none: "\<not> Contains demo_crypto f t" for t using f(3) by (simp add: Contains_ids)
  have "confirm_walk [(''k'', f)] 2 ?h = ret f"
  proof -
    have "confirm_walk [(''k'', f)] 2 f = ret f" by (subst confirm_walk.simps) (simp add: len ret_def)
    then show ?thesis by (subst confirm_walk.simps) (simp add: map_get_def)
  qed
  then obtain c2 where c2: "SetLastConfirmed demo_crypto (c1\<lparr>Blocks := [(''k'', f)], LastBlock := Some ?h\<rparr>) = ret c2"
    "LastConfirmedBlock c2 = Some f"
    by (simp add: SetLastConfirmed_def confirmedBlockHeight_def CONFIRMED_DEPTH_def)
  have "map_get (PendingOutgoingTransactions ?c) (Tx_Id demo_crypto ?tx) = None" "Address ?c \<notin> Out_Address ` set (elems ?out)"
    "LastConfirmedBlock ?c = Some demo_genesis" "RewardAddr b \<noteq> Address ?c"
    by (simp_all add: map_get_def head)
  moreover have "\<forall>v \<in> set (elems (Transactions ?f)). From (Info (Tx v)) \<noteq> Address ?c \<and> Address ?c \<notin> Out_Address ` set (tx_outputs (Tx v))"
    "\<forall>(k, t) \<in> set (PendingOutgoingTransactions c1). \<not> Contains demo_crypto f t"
    using none by auto
  ultimately obtain g2 where "AvailableGold c2 = Ok g2" "unat g2 = 2 ^ 32 - 22"
    using settled_payment_counts_twice [OF post(1) gold _ _ _ refl b _ f(1) _ _ c2] total by auto
  then show ?thesis using post(1) b f(1) c2(1) by blast
qed

text \<open>C31: Two blocks replace a node's ledger. A block of length 0 is stored without a proof or a
  predecessor, and a block names its own target and its own length: so a foreign genesis block with
  any balances, followed by an empty block on it with target \<open>2 ^ 256\<close> and the head's length plus
  one, is taken as the new head, whatever the node's chain was and without any work.\<close>

theorem two_blocks_replace_ledger:
  assumes "node_ok H c" and "LastBlock c = Some h" and "ChainLength h + 1 \<noteq> 0"
    and "\<forall>d. set_bytes (Sum256 H d) < 2 ^ 256"
    and "IsGenesisBlock g" and "Transactions g = Some []" and "RewardAddr g = []"
    and "GetHash H g = Inr k" and "map_get (Blocks c) k = None"
    and "b = \<lparr>PrevBlockHash = k, Target = 2 ^ 256, Proof = 0, Balances = None, NextNonce = None,
      Transactions = Some [], ChainLength = ChainLength h + 1, Timestamp = Timestamp g,
      RewardAddr = [], CoinbaseReward = 0\<rparr>"
    and "map_get (map_put k g (Blocks c)) (GetHashStr H b) = None"
  shows "\<exists>c1 effs1 c2 b' effs2. ReceiveBlock H ord c g = ret (c1, Some g, effs1)
    \<and> ReceiveBlock H ord c1 b = ret (c2, Some b', effs2)
    \<and> LastBlock c2 = Some b' \<and> BalanceOf b' = BalanceOf g"
proof -
  have id: "GetHashStr H g = k" using assms(8) by (rule GetHashStr_GetHash)
  have goods: "good_block H g" "good_block H b"
    using assms(6,10) by (simp_all add: good_block_def honest_def)
  have "admissible H c g" using assms(5,9) id by (simp add: admissible_def)
  then obtain c1 effs1 where one: "ReceiveBlock H ord c g = ret (c1, Some g, effs1)" "node_ok H c1"
      "Blocks c1 = map_put k g (Blocks c)" "LastBlock c1 = (if moves_head c g then Some g else LastBlock c)"
    using assms(5) id by (cases rule: ReceiveBlock_effect [OF assms(1) goods(1), of ord]) auto
  have head: "LastBlock c1 = Some h"
    using one(4) assms(2,5) by (simp add: moves_head_def IsGenesisBlock_def)
  obtain t where t: "json_time (Timestamp b) = Inr t"
    using assms(8,10) by (auto simp: GetHash_def BlockToBytes_def json_block_def block4hash_def split: sum.splits)
  obtain data where data: "BlockToBytes (block4hash b) = Inr data"
    using BlockToBytes_defined [OF t] by blast
  have pow: "hasValidProof H b" using assms(4,10) data by (simp add: hasValidProof_def)
  obtain s where s: "Rerun H b (Some g) = Rerun_loop H s (elems (Transactions b))" "ledger_of s = spec_start g"
    by (rule Rerun_start)
  have run: "Rerun H b (Some g) = Ok (s, True)" using s(1) assms(10) by simp
  have "BalanceOf s = led_balance (ledger_of s)" by (simp add: ledger_of_def)
  then have bal: "BalanceOf s = BalanceOf g" using s(2) assms(7) by (simp add: spec_start_def rewarded_def)
  have prev: "map_get (Blocks c1) (PrevBlockHash b) = Some g" using one(3) assms(10) by simp
  have long: "\<not> IsGenesisBlock b" "moves_head c1 b"
    using assms(3,10) head u32_less_next [OF assms(3)] by (simp_all add: IsGenesisBlock_def moves_head_def)
  have "admissible H c1 b"
    using pow run prev one(3) assms(11) by (auto simp: admissible_def)
  then obtain c2 b' effs2 where two: "ReceiveBlock H ord c1 b = ret (c2, Some b', effs2)"
      "Rerun H b (Some g) = Ok (b', True)" "LastBlock c2 = (if moves_head c1 b then Some b' else LastBlock c1)"
    using long(1) prev by (cases rule: ReceiveBlock_effect [OF one(2) goods(2), of ord]) auto
  then have "b' = s" using run by simp
  then show ?thesis using one(1) two long(2) bal by auto
qed

theorem two_blocks_replace_ledger_witness:
  "\<exists>g b c1 effs1 c2 b' effs2. ReceiveBlock demo_crypto id demo_node g = ret (c1, Some g, effs1)
     \<and> ReceiveBlock demo_crypto id c1 b = ret (c2, Some b', effs2)
     \<and> LastBlock c2 = Some b' \<and> BalanceOf b' ''mallory'' = 4294967295"
proof -
  let ?g = "demo_genesis\<lparr>PrevBlockHash := ''7'', Balances := Some [\<lparr>Balance_id = ''mallory'', Balance = 4294967295\<rparr>]\<rparr>"
  let ?k = "demo_hash ''7''"
  let ?b = "\<lparr>PrevBlockHash = ?k, Target = 2 ^ 256, Proof = 0, Balances = None, NextNonce = None,
      Transactions = Some [], ChainLength = ChainLength demo_genesis + 1, Timestamp = Timestamp ?g,
      RewardAddr = [], CoinbaseReward = 0\<rparr>"
  have seven: "plain ''7''" by (simp add: plain_def hextable_def)
  have g: "GetHash demo_crypto ?g = Inr ?k"
    using demo_hash_block(1) [of ?g] seven demo_json_time by (simp add: demo_genesis_def)
  have "Timestamp ?b = demo_time" by (simp add: demo_genesis_def)
  then have b: "GetHashStr demo_crypto ?b = demo_hash ?k"
    using demo_hash_block(2) [of ?b] demo_json_time by simp
  have ne: "?k \<noteq> demo_id" "demo_hash ?k \<noteq> demo_id"
    by (rule length_neq; simp add: demo_ids)+
  have "map_get (Blocks demo_node) ?k = None" "map_get (map_put ?k ?g (Blocks demo_node)) (GetHashStr demo_crypto ?b) = None"
    using ne unfolding b by simp_all
  moreover have "IsGenesisBlock ?g" "Transactions ?g = Some []" "RewardAddr ?g = []"
    "BalanceOf ?g ''mallory'' = 4294967295"
    by (simp_all add: IsGenesisBlock_def BalanceOf_find demo_genesis_def)
  moreover have "LastBlock demo_node = Some demo_genesis" "ChainLength demo_genesis + 1 \<noteq> 0" by simp_all
  ultimately show ?thesis
    using two_blocks_replace_ledger [OF demo_node_ok, of demo_genesis ?g ?k ?b id] g demo_sum_bound by metis
qed

text \<open>A head of the largest length is final: once the head's length is \<open>2 ^ 32 - 1\<close>, no block is
  longer, so no block replaces it, and a block mined on it has length 0 and counts as a genesis block.\<close>

lemma longest_head_is_final:
  assumes "LastBlock c = Some h" and "unat (ChainLength h) = 2 ^ 32 - 1"
    and "ReceiveBlock H ord c b = ret (c', r, effs)"
  shows "LastBlock c' = Some h \<and> (\<forall>now addr target reward nb.
    NewBlock H now addr (Some h) target reward = Some nb \<longrightarrow> IsGenesisBlock nb)"
proof -
  have "\<not> ChainLength h < x" for x
    using assms(2) unat_u32_less [of x] by (simp add: word_less_nat_alt del: unat_u32_less)
  note top = this
  from assms(3) have "LastBlock c' = Some h"
  proof (cases rule: ReceiveBlock_returns)
    case kept
    show ?thesis using assms(1) by (subst kept(2)) simp
  next
    case (added b' h')
    then show ?thesis using assms(1) top by simp
  qed
  moreover have "ChainLength h = - 1" using assms(2) by (simp add: word_unat_eq_iff unat_u32_max)
  ultimately show ?thesis using NewBlock_child(2) by (auto simp: IsGenesisBlock_def)
qed

end
