(* ===== verification/Miner.thy ===== *)
theory Miner
  imports ClientInv
begin

text \<open>
  \<open>blockchain/miner.go\<close>: a client that also mines. The Go struct repeats the fields of
  \<open>Client\<close> and the methods repeat most of its code; the record extends \<open>client\<close> and every method
  is written out from its own source (\<open>MinerInv\<close> relates the two). The orders in which the
  sources iterate over Go maps are the fields of \<open>map_orders\<close>.
\<close>

section \<open>State\<close>

record miner = client +
  CurrentBlock :: "Block option"
  MiningRounds :: u32
  Miner_Transactions :: "Transaction goset"

record map_orders =
  block_order :: "Block list \<Rightarrow> Block list"
  synced_order :: "Transaction list \<Rightarrow> Transaction list"
  pool_order :: "Transaction list \<Rightarrow> Transaction list"
  pointer_order :: "nat list \<Rightarrow> nat list"

definition Miner_Log :: "'a miner_scheme \<Rightarrow> unit go" where
  "Miner_Log m = (if length (Address m) < 10 then Some (Panic SliceBounds) else ret ())"

section \<open>Construction\<close>

definition Miner_SetGenesisBlock :: "crypto \<Rightarrow> 'a miner_scheme \<Rightarrow> Block \<Rightarrow> 'a miner_scheme res" where
  "Miner_SetGenesisBlock H m startingBlock =
     (if LastBlock m \<noteq> None
      then Panic (Explicit ''Cannot set starting block for existing blockchain'')
      else (let blockId = (case GetHash H startingBlock of Inl err \<Rightarrow> [] | Inr h \<Rightarrow> h)
            in Ok (m\<lparr>LastConfirmedBlock := Some startingBlock, LastBlock := Some startingBlock,
                     Blocks := map_put blockId startingBlock (Blocks m)\<rparr>)))"

definition NewMiner ::
  "crypto \<Rightarrow> string \<Rightarrow> u32 \<Rightarrow> Block option \<Rightarrow> PrivateKey option \<Rightarrow> error + PrivateKey
   \<Rightarrow> BlockchainConfig \<Rightarrow> miner res" where
  "NewMiner H name miningRounds startingBlock keyPair generated config =
     (case (case keyPair of None \<Rightarrow> GenerateKeypair generated | Some k \<Rightarrow> Inr (k, Public k)) of
        Inl err \<Rightarrow> Panic NilDeref
      | Inr (privKey, pubKey) \<Rightarrow>
          (let m = \<lparr>Name = name, Address = GenerateAddress H pubKey, PrivKey = privKey,
                    PubKey = pubKey, Blocks = [], PendingOutgoingTransactions = [],
                    PendingReceivedTransactions = [], PendingBlocks = [], LastBlock = None,
                    LastConfirmedBlock = None, ReceivedBlock = None, Config = config,
                    Client_Nonce = 0, Emitter = [], CurrentBlock = None, MiningRounds = 0,
                    Miner_Transactions = NewSet\<rparr>
           in res_bind (case startingBlock of None \<Rightarrow> Ok m | Some b \<Rightarrow> Miner_SetGenesisBlock H m b)
                (\<lambda>m. Ok (m\<lparr>Emitter := [(PROOF_FOUND, ReceiveBlockBytes_handler),
                                        (MISSING_BLOCK, ProvideMissingBlock_handler)],
                           MiningRounds := miningRounds, Miner_Transactions := NewSet\<rparr>))))"

section \<open>Mining\<close>

text \<open>
  The new block is built on the head; the transactions of the set and of the pool are tried in
  the order the map yields them, and the pool is emptied whether or not they were taken.
\<close>

definition StartNewSearch ::
  "crypto \<Rightarrow> go_time \<Rightarrow> map_orders \<Rightarrow> 'a miner_scheme \<Rightarrow> Transaction goset option
   \<Rightarrow> 'a miner_scheme res" where
  "StartNewSearch H now os m txSet =
     (let target = CalculateTarget POW_LEADING_ZEROES;
          currentBlock = NewBlock H now (Address m) (LastBlock m) target (coinbaseAmount (Config m));
          txSet = (case txSet of None \<Rightarrow> NewSet | Some s \<Rightarrow> s);
          txList = Set_ToArray (synced_order os) txSet;
          transactions = foldl (Set_Add (Tx_GetHashStr H)) (Miner_Transactions m) txList;
          transactionsArr = Set_ToArray (pool_order os) transactions
      in case currentBlock of
           None \<Rightarrow> Panic NilDeref
         | Some block \<Rightarrow>
             res_bind (add_transactions H block transactionsArr) (\<lambda>block'.
               Ok (m\<lparr>CurrentBlock := Some (block'\<lparr>Proof := 0\<rparr>),
                     Miner_Transactions := Set_Clear transactions\<rparr>)))"

definition Initialize ::
  "crypto \<Rightarrow> go_time \<Rightarrow> map_orders \<Rightarrow> 'a miner_scheme \<Rightarrow> ('a miner_scheme \<times> effect list) res" where
  "Initialize H now os m =
     res_bind (StartNewSearch H now os m None) (\<lambda>m.
       Ok (m\<lparr>Emitter := Emitter m @ [(START_MINING, FindProof_handler),
                                     (POST_TRANSACTION, AddTransactionBytes_handler)]\<rparr>,
           [GoEmit START_MINING False]))"

text \<open>The search loop: the block with the proof it stopped at, and whether that proof is valid.\<close>

function find_proof :: "crypto \<Rightarrow> u32 \<Rightarrow> Block \<Rightarrow> Block \<times> bool" where
  "find_proof H pausePoint block =
     (if Proof block < pausePoint
      then (if hasValidProof H block then (block, True)
            else find_proof H pausePoint (block\<lparr>Proof := Proof block + 1\<rparr>))
      else (block, False))"
  by pat_completeness auto

termination find_proof
  by (relation "measure (\<lambda>(H, n, b). unat n - unat (Proof b))") (simp_all add: u32_next(1) word_less_nat_alt diff_less_mono2)

declare find_proof.simps [simp del]

definition AnnounceProof :: "'a miner_scheme \<Rightarrow> effect list go" where
  "AnnounceProof m =
     (case CurrentBlock m of
        None \<Rightarrow> Some (Panic NilDeref)
      | Some block \<Rightarrow>
          (case BlockToBytes block of
             Inl (Error e) \<Rightarrow> Some (Panic (Explicit e))
           | Inr data \<Rightarrow> ret [Broadcast PROOF_FOUND data]))"

definition FindProof :: "crypto \<Rightarrow> 'a miner_scheme \<Rightarrow> bool \<Rightarrow> ('a miner_scheme \<times> effect list) go" where
  "FindProof H m oneAndDone =
     (case CurrentBlock m of
        None \<Rightarrow> Some (Panic NilDeref)
      | Some block \<Rightarrow>
          (let pausePoint = Proof block + MiningRounds m;
               (block', found) = find_proof H pausePoint block;
               m' = m\<lparr>CurrentBlock := Some block'\<rparr>;
               again = (if \<not> oneAndDone then [GoEmit START_MINING False] else [])
           in if found
              then go_bind (Miner_Log m') (\<lambda>_.
                     go_bind (AnnounceProof m') (\<lambda>effs.
                       ret (m', effs @ [GoReceiveBlock block'] @ again)))
              else ret (m', again)))"

section \<open>Synchronising transactions\<close>

text \<open>
  The sets of \<open>SyncTransaction\<close> hold pointers \<open>&transaction.Tx\<close> into the variable of a
  \<open>range\<close> loop. The module is built for Go 1.18, where a loop has one variable that every
  iteration assigns: all pointers taken in one loop are the same, and see the last element.
  The cells are an explicit store (a list, a pointer is an index); a set hashes what a pointer
  points to at the time of the call.
\<close>

definition pointee :: "crypto \<Rightarrow> Transaction list \<Rightarrow> nat \<Rightarrow> string" where
  "pointee H heap q = Tx_GetHashStr H (heap ! q)"

fun range_add ::
  "crypto \<Rightarrow> nat \<Rightarrow> Transaction list \<Rightarrow> nat goset \<Rightarrow> TransactionType list \<Rightarrow> Transaction list \<times> nat goset" where
  "range_add H cell heap txs [] = (heap, txs)"
| "range_add H cell heap txs (transaction # rest) =
     (let heap = heap[cell := Tx transaction]
      in range_add H cell heap (Set_Add (pointee H heap) txs cell) rest)"

text \<open>\<open>for _, transaction := range block.Transactions { txs.Add(&transaction.Tx) }\<close>\<close>

definition add_block_txs ::
  "crypto \<Rightarrow> Transaction list \<Rightarrow> nat goset \<Rightarrow> Block \<Rightarrow> Transaction list \<times> nat goset" where
  "add_block_txs H heap txs block =
     (case elems (Transactions block) of
        [] \<Rightarrow> (heap, txs)
      | v # vs \<Rightarrow> range_add H (length heap) (heap @ [Tx v]) txs (v # vs))"

partial_function (option) sync_down ::
  "crypto \<Rightarrow> Block gomap \<Rightarrow> u32 \<Rightarrow> Block \<Rightarrow> Transaction list \<Rightarrow> nat goset
   \<Rightarrow> (Block \<times> Transaction list \<times> nat goset) go" where
  "sync_down H blocks height newBlock heap nbTxs =
     (if ChainLength newBlock > height
      then (let (heap', nbTxs') = add_block_txs H heap nbTxs newBlock
            in case map_get blocks (PrevBlockHash newBlock) of
                 None \<Rightarrow> Some (Panic NilDeref)
               | Some prev \<Rightarrow> sync_down H blocks height prev heap' nbTxs')
      else Some (Ok (newBlock, heap, nbTxs)))"

partial_function (option) sync_back ::
  "crypto \<Rightarrow> Block gomap \<Rightarrow> Block \<Rightarrow> Block \<Rightarrow> Transaction list \<Rightarrow> nat goset \<Rightarrow> nat goset
   \<Rightarrow> (Transaction list \<times> nat goset \<times> nat goset) go" where
  "sync_back H blocks cb newBlock heap cbTxs nbTxs =
     (if GetHashStr H cb \<noteq> GetHashStr H newBlock
      then (let (heap1, cbTxs') = add_block_txs H heap cbTxs cb;
                (heap2, nbTxs') = add_block_txs H heap1 nbTxs newBlock
            in case map_get blocks (PrevBlockHash cb) of
                 None \<Rightarrow> Some (Ok (heap2, cbTxs', nbTxs'))
               | Some cb' \<Rightarrow>
                   (case map_get blocks (PrevBlockHash newBlock) of
                      None \<Rightarrow> Some (Panic NilDeref)
                    | Some newBlock' \<Rightarrow> sync_back H blocks cb' newBlock' heap2 cbTxs' nbTxs'))
      else Some (Ok (heap, cbTxs, nbTxs)))"

text \<open>The set it returns, with what its pointers point to from then on.\<close>

definition SyncTransaction ::
  "crypto \<Rightarrow> map_orders \<Rightarrow> 'a miner_scheme \<Rightarrow> Block \<Rightarrow> Transaction goset go" where
  "SyncTransaction H os m newBlock =
     (case CurrentBlock m of
        None \<Rightarrow> Some (Panic NilDeref)
      | Some cb \<Rightarrow>
          go_bind (sync_down H (Blocks m) (ChainLength cb) newBlock [] NewSet)
            (\<lambda>(newBlock, heap, nbTxs).
              go_bind (sync_back H (Blocks m) cb newBlock heap NewSet nbTxs)
                (\<lambda>(heap, cbTxs, nbTxs).
                  let nbTxsArr = Set_ToArray (pointer_order os) nbTxs;
                      cbTxs = foldl (Set_Remove (pointee H heap)) cbTxs nbTxsArr
                  in ret \<lparr>items = map (\<lambda>(k, q). (k, heap ! q)) (items cbTxs)\<rparr>)))"

section \<open>Confirming\<close>

definition Miner_SetLastConfirmed :: "crypto \<Rightarrow> 'a miner_scheme \<Rightarrow> 'a miner_scheme go" where
  "Miner_SetLastConfirmed H m =
     (case LastBlock m of
        None \<Rightarrow> Some (Panic NilDeref)
      | Some lastBlock \<Rightarrow>
          (let height = (if ChainLength lastBlock > CONFIRMED_DEPTH
                         then ChainLength lastBlock - CONFIRMED_DEPTH else 0)
           in go_bind (confirm_walk (Blocks m) height lastBlock) (\<lambda>block.
                ret (m\<lparr>LastConfirmedBlock := Some block,
                       PendingOutgoingTransactions :=
                         map_drop (Contains H block) (PendingOutgoingTransactions m)\<rparr>))))"

section \<open>Receiving blocks\<close>

definition Miner_RequestMissingBlock :: "'a miner_scheme \<Rightarrow> Block \<Rightarrow> effect list go" where
  "Miner_RequestMissingBlock m block =
     go_bind (Miner_Log m) (\<lambda>_.
       ret [Broadcast MISSING_BLOCK (render (json_message
              \<lparr>Msg_Address = Address m, Msg_PrevBlockHash = PrevBlockHash block\<rparr>))])"

text \<open>From the stored block to the end of \<open>ReceiveBlock\<close>.\<close>

definition Miner_accept ::
  "crypto \<Rightarrow> go_time \<Rightarrow> map_orders \<Rightarrow> 'a miner_scheme \<Rightarrow> Block
   \<Rightarrow> ('a miner_scheme \<times> Block option \<times> effect list) go" where
  "Miner_accept H now os m block =
     (let blockId = GetHashStr H block;
          m1 = m\<lparr>Blocks := map_put blockId block (Blocks m)\<rparr>
      in case LastBlock m1 of
           None \<Rightarrow> Some (Panic NilDeref)
         | Some lastBlock \<Rightarrow>
             go_bind (if ChainLength lastBlock < ChainLength block
                      then Miner_SetLastConfirmed H (m1\<lparr>LastBlock := Some block\<rparr>) else ret m1)
               (\<lambda>m2.
                 let unstuckBlocksArr = (case map_get (PendingBlocks m2) blockId of
                       None \<Rightarrow> [] | Some unstuckBlocks \<Rightarrow> Set_ToArray (block_order os) unstuckBlocks);
                     m3 = m2\<lparr>PendingBlocks := map_del blockId (PendingBlocks m2)\<rparr>
                 in go_bind (Miner_Log m3) (\<lambda>_.
                      case CurrentBlock m3 of
                        None \<Rightarrow> ret (m3, Some block, map GoReceiveBlock unstuckBlocksArr)
                      | Some cb \<Rightarrow>
                          (if ChainLength block \<ge> ChainLength cb
                           then go_bind (SyncTransaction H os m3 block) (\<lambda>txSet.
                                  go_bind (Some (StartNewSearch H now os m3 (Some txSet))) (\<lambda>m4.
                                    ret (m4, Some block, map GoReceiveBlock unstuckBlocksArr)))
                           else ret (m3, Some block, map GoReceiveBlock unstuckBlocksArr)))))"

definition Miner_ReceiveBlock ::
  "crypto \<Rightarrow> go_time \<Rightarrow> map_orders \<Rightarrow> 'a miner_scheme \<Rightarrow> Block
   \<Rightarrow> ('a miner_scheme \<times> Block option \<times> effect list) go" where
  "Miner_ReceiveBlock H now os m b =
     (let blockId = GetHashStr H b
      in if map_get (Blocks m) blockId \<noteq> None then ret (m, None, [])
         else if \<not> hasValidProof H b \<and> \<not> IsGenesisBlock b
         then go_bind (Miner_Log m) (\<lambda>_. ret (m, None, []))
         else (let prevBlock = map_get (Blocks m) (PrevBlockHash b)
               in if prevBlock = None \<and> \<not> IsGenesisBlock b
                  then (case map_get (PendingBlocks m) (PrevBlockHash b) of
                          None \<Rightarrow>
                            go_bind (Miner_RequestMissingBlock m b) (\<lambda>effs.
                              ret (m\<lparr>PendingBlocks := map_put (PrevBlockHash b)
                                       (Set_Add (GetHashStr H) NewSet b) (PendingBlocks m)\<rparr>, None, effs))
                        | Some stuckBlocks \<Rightarrow>
                            ret (m\<lparr>PendingBlocks := map_put (PrevBlockHash b)
                                     (Set_Add (GetHashStr H) stuckBlocks b) (PendingBlocks m)\<rparr>, None, []))
                  else go_bind (if \<not> IsGenesisBlock b then Some (Rerun H b prevBlock)
                                else ret (b, True))
                         (\<lambda>(block, ok).
                           if \<not> ok then ret (m, None, []) else Miner_accept H now os m block)))"

definition Miner_ReceiveBlockBytes ::
  "crypto \<Rightarrow> go_time \<Rightarrow> map_orders \<Rightarrow> 'a miner_scheme \<Rightarrow> string
   \<Rightarrow> ('a miner_scheme \<times> Block option \<times> effect list) go" where
  "Miner_ReceiveBlockBytes H now os m bs =
     (case BytesToBlock bs of
        Inl err \<Rightarrow> Some (Panic (Explicit ''Failed to deseralize block''))
      | Inr block \<Rightarrow> Miner_ReceiveBlock H now os m block)"

definition Miner_ProvideMissingBlock ::
  "'a miner_scheme \<Rightarrow> string \<Rightarrow> effect list go" where
  "Miner_ProvideMissingBlock m data =
     (case BytesToMessage data of
        Inl (Error e) \<Rightarrow> Some (Panic (Explicit e))
      | Inr msg \<Rightarrow>
          (case map_get (Blocks m) (Msg_PrevBlockHash msg) of
             None \<Rightarrow> ret []
           | Some val \<Rightarrow>
               go_bind (Miner_Log m) (\<lambda>_.
                 case BlockToBytes val of
                   Inl (Error e) \<Rightarrow> Some (Panic (Explicit e))
                 | Inr data \<Rightarrow> ret [SendMessage (Msg_Address msg) PROOF_FOUND data])))"

section \<open>Transactions\<close>

definition Miner_AddTransaction :: "crypto \<Rightarrow> 'a miner_scheme \<Rightarrow> Transaction \<Rightarrow> 'a miner_scheme" where
  "Miner_AddTransaction H m tx =
     m\<lparr>Miner_Transactions := Set_Add (Tx_GetHashStr H) (Miner_Transactions m) tx\<rparr>"

definition AddTransactionBytes ::
  "crypto \<Rightarrow> 'a miner_scheme \<Rightarrow> string \<Rightarrow> 'a miner_scheme res" where
  "AddTransactionBytes H m data =
     (case BytesToTransaction data of
        Inl err \<Rightarrow> Panic (Explicit ''Failed to deserialize data'')
      | Inr tx \<Rightarrow> Ok (Miner_AddTransaction H m tx))"

definition Miner_ConfirmedBalance :: "'a miner_scheme \<Rightarrow> u32 res" where
  "Miner_ConfirmedBalance m =
     (case LastConfirmedBlock m of
        None \<Rightarrow> Panic NilDeref
      | Some block \<Rightarrow> Ok (BalanceOf block (Address m)))"

definition Miner_AvailableGold :: "'a miner_scheme \<Rightarrow> u32 res" where
  "Miner_AvailableGold m =
     (let pendingSpent = foldl (\<lambda>spent tx. spent + TotalOutput tx) 0
            (map_values (PendingOutgoingTransactions m))
      in res_bind (Miner_ConfirmedBalance m) (\<lambda>balance. Ok (balance - pendingSpent)))"

text \<open>
  The mutex is released before the transaction is added to the miner's own pool; this is the
  case in which no other step comes between the two.
\<close>

definition Miner_PostTransaction ::
  "crypto \<Rightarrow> 'a miner_scheme \<Rightarrow> Output slice \<Rightarrow> u32 \<Rightarrow> ('a miner_scheme \<times> effect list) res" where
  "Miner_PostTransaction H m outputs fee =
     (let total = foldl (\<lambda>total output. total + Out_Amount output) fee (elems outputs)
      in res_bind (Miner_AvailableGold m) (\<lambda>available.
        if total > available
        then Panic (Explicit ''Account doesn't have enough balance for transaction'')
        else
          (case NewTransaction (Address m) (Client_Nonce m) (PubKey m) None fee outputs None of
             Inl err \<Rightarrow> Panic NilDeref
           | Inr newTx \<Rightarrow>
               res_bind (Sign H newTx (PrivKey m)) (\<lambda>(tx, signature).
                let data = (case TransactionToBytes tx of Inl err \<Rightarrow> [] | Inr d \<Rightarrow> d);
                    m' = m\<lparr>PendingOutgoingTransactions :=
                             map_put (Tx_Id H tx) tx (PendingOutgoingTransactions m),
                           Client_Nonce := Client_Nonce m + 1\<rparr>
                in Ok (Miner_AddTransaction H m' tx, [Broadcast POST_TRANSACTION data])))))"

definition Miner_ResendPendingTransactions ::
  "(Transaction list \<Rightarrow> Transaction list) \<Rightarrow> 'a miner_scheme \<Rightarrow> effect list" where
  "Miner_ResendPendingTransactions ord m =
     map (\<lambda>tx. Broadcast POST_TRANSACTION (render (json_transaction tx)))
       (ord (map_values (PendingOutgoingTransactions m)))"

section \<open>Showing the chain\<close>

definition Miner_ShowBlockchain :: "crypto \<Rightarrow> 'a miner_scheme \<Rightarrow> string list option" where
  "Miner_ShowBlockchain H m = show_walk H (Blocks m) (LastBlock m) []"

end
