(* ===== verification/MinerInv.thy ===== *)
theory MinerInv
  imports Miner
begin

text \<open>
  Lemmas on miners: the methods that repeat the client's code compute the same; receiving a
  block is the client's step followed by the cutover; what \<open>SyncTransaction\<close> returns, and that
  it returns; the search loop; the miner's invariant.
\<close>

section \<open>The repeated methods\<close>

lemma Miner_Log_eq: "Miner_Log m = Log m"
  by (simp add: Miner_Log_def Log_def)

lemma Miner_SetLastConfirmed_eq: "Miner_SetLastConfirmed H m = SetLastConfirmed H m"
  unfolding Miner_SetLastConfirmed_def SetLastConfirmed_def confirmedBlockHeight_def Let_def by (rule refl)

lemma Miner_RequestMissingBlock_eq: "Miner_RequestMissingBlock m b = RequestMissingBlock m b"
  by (simp add: Miner_RequestMissingBlock_def RequestMissingBlock_def Miner_Log_eq)

lemma Miner_AvailableGold_eq: "Miner_AvailableGold m = AvailableGold m"
  by (simp add: Miner_AvailableGold_def AvailableGold_def Miner_ConfirmedBalance_def
      ConfirmedBalance_def pendingSpent_def)

lemma Miner_ProvideMissingBlock_eq: "Miner_ProvideMissingBlock m msg = ProvideMissingBlock m msg"
  unfolding Miner_ProvideMissingBlock_def ProvideMissingBlock_def Miner_Log_eq by (rule refl)

lemma Miner_PostTransaction_eq:
  "Miner_PostTransaction H m outputs fee =
     res_bind (PostTransaction H m outputs fee) (\<lambda>(m', tx, effs). Ok (Miner_AddTransaction H m' tx, effs))"
  unfolding Miner_PostTransaction_def PostTransaction_def Miner_AvailableGold_eq Let_def
  by (cases "AvailableGold m") (simp_all add: res_bind_assoc split_def split: sum.split)

lemmas miner_copies = Miner_PostTransaction_eq Miner_Log_eq Miner_SetLastConfirmed_eq Miner_RequestMissingBlock_eq
  Miner_AvailableGold_eq Miner_ProvideMissingBlock_eq

text \<open>
  What a miner does after the client's part of \<open>ReceiveBlock\<close>; \<open>start\<close> is how it starts a search
  (\<open>Miner\<close> and \<open>TcpMiner\<close> differ there).
\<close>

type_synonym 'a starter =
  "go_time \<Rightarrow> map_orders \<Rightarrow> 'a miner_scheme \<Rightarrow> Transaction goset option \<Rightarrow> 'a miner_scheme res"

definition cut_over ::
  "crypto \<Rightarrow> 'a starter \<Rightarrow> go_time \<Rightarrow> map_orders \<Rightarrow> 'a miner_scheme \<times> Block option \<times> effect list
   \<Rightarrow> ('a miner_scheme \<times> Block option \<times> effect list) go" where
  "cut_over H start now os = (\<lambda>(m, r, effs).
     case (r, CurrentBlock m) of
       (Some block, Some cb) \<Rightarrow>
         if ChainLength cb \<le> ChainLength block
         then go_bind (SyncTransaction H os m block) (\<lambda>txSet.
                go_bind (Some (start now os m (Some txSet))) (\<lambda>m'. ret (m', r, effs)))
         else ret (m, r, effs)
     | _ \<Rightarrow> ret (m, r, effs))"

lemma cut_over_None [simp]: "cut_over H start now os (m, None, effs) = ret (m, None, effs)"
  by (simp add: cut_over_def)

lemma Miner_accept_eq:
  "Miner_accept H now os m b = go_bind (accept_block H (block_order os) m b) (cut_over H (StartNewSearch H) now os)"
  by (simp add: Miner_accept_def accept_block_def cut_over_def Let_def go_bind_assoc miner_copies
      split: option.split cong: if_cong)

lemma Miner_ReceiveBlock_eq:
  "Miner_ReceiveBlock H now os m b = go_bind (ReceiveBlock H (block_order os) m b) (cut_over H (StartNewSearch H) now os)"
  by (simp add: Miner_ReceiveBlock_def ReceiveBlock_def hold_block_def Let_def go_bind_assoc miner_copies
      Miner_accept_eq split_def if_distrib [of "\<lambda>x. go_bind x (cut_over H (StartNewSearch H) now os)"]
      split: option.split cong: if_cong)

section \<open>Pointers into loop variables\<close>

text \<open>The cell of a loop ends up with the loop's last transaction, and no other cell changes.\<close>

lemma range_add_effect:
  assumes "range_add H cell heap s vs = (heap', s')" "cell < length heap"
  shows "length heap' = length heap" "q \<noteq> cell \<Longrightarrow> heap' ! q = heap ! q"
    "vs \<noteq> [] \<Longrightarrow> heap' ! cell = Tx (last vs)"
    "set_view s' k = Some q \<Longrightarrow> set_view s k = Some q \<or> q = cell"
    "set_ok s \<Longrightarrow> set_ok s'"
proof -
  have "length heap' = length heap \<and> (\<forall>q. q \<noteq> cell \<longrightarrow> heap' ! q = heap ! q)
    \<and> (vs \<noteq> [] \<longrightarrow> heap' ! cell = Tx (last vs))
    \<and> (\<forall>k q. set_view s' k = Some q \<longrightarrow> set_view s k = Some q \<or> q = cell)
    \<and> (set_ok s \<longrightarrow> set_ok s')"
    using assms
  proof (induction vs arbitrary: heap s)
    case Nil
    then show ?case by simp
  next
    case (Cons v vs)
    let ?heap = "heap[cell := Tx v]"
    let ?s = "Set_Add (pointee H ?heap) s cell"
    have view: "set_view ?s k = Some q \<Longrightarrow> set_view s k = Some q \<or> q = cell" for k q
      by (auto simp: gs.view_add split: if_splits)
    have run: "range_add H cell ?heap ?s vs = (heap', s')" using Cons.prems(1) by (simp add: Let_def)
    have IH: "length heap' = length ?heap \<and> (\<forall>q. q \<noteq> cell \<longrightarrow> heap' ! q = ?heap ! q)
        \<and> (vs \<noteq> [] \<longrightarrow> heap' ! cell = Tx (last vs))
        \<and> (\<forall>k q. set_view s' k = Some q \<longrightarrow> set_view ?s k = Some q \<or> q = cell)
        \<and> (set_ok ?s \<longrightarrow> set_ok s')"
      using Cons.IH [OF run] Cons.prems(2) by simp
    have "heap' ! cell = Tx (last (v # vs))"
    proof (cases vs)
      case Nil
      then have "heap' = ?heap" using run by simp
      then show ?thesis using Nil Cons.prems(2) by simp
    next
      case (Cons w ws)
      then show ?thesis using IH by simp
    qed
    moreover have "set_ok s \<Longrightarrow> set_ok ?s" by (rule gs.ok_add)
    moreover have "length heap' = length heap" "\<forall>q. q \<noteq> cell \<longrightarrow> heap' ! q = heap ! q" using IH by simp_all
    ultimately show ?case using IH view by blast
  qed
  then show "length heap' = length heap" "q \<noteq> cell \<Longrightarrow> heap' ! q = heap ! q"
    "vs \<noteq> [] \<Longrightarrow> heap' ! cell = Tx (last vs)"
    "set_view s' k = Some q \<Longrightarrow> set_view s k = Some q \<or> q = cell" "set_ok s \<Longrightarrow> set_ok s'" by blast+
qed

definition last_tx :: "Block \<Rightarrow> Transaction \<Rightarrow> bool" where
  "last_tx b tx \<longleftrightarrow> elems (Transactions b) \<noteq> [] \<and> tx = Tx (last (elems (Transactions b)))"

text \<open>Every pointer of the set points to the last transaction of a block that satisfies \<open>P\<close>.\<close>

definition points_to_last :: "(Block \<Rightarrow> bool) \<Rightarrow> Transaction list \<Rightarrow> nat goset \<Rightarrow> bool" where
  "points_to_last P heap s \<longleftrightarrow> set_ok s \<and> (\<forall>k q. set_view s k = Some q \<longrightarrow>
     q < length heap \<and> (\<exists>b. P b \<and> last_tx b (heap ! q)))"

lemma add_block_txs_points:
  assumes "add_block_txs H heap s b = (heap', s')"
  shows "points_to_last P heap t \<Longrightarrow> points_to_last P heap' t"
    and "points_to_last P heap s \<Longrightarrow> P b \<Longrightarrow> points_to_last P heap' s'"
proof -
  have "(points_to_last P heap t \<longrightarrow> points_to_last P heap' t)
    \<and> (points_to_last P heap s \<longrightarrow> P b \<longrightarrow> points_to_last P heap' s')"
  proof (cases "elems (Transactions b)")
    case Nil
    then show ?thesis using assms by (simp add: add_block_txs_def)
  next
    case (Cons v vs)
    let ?n = "length heap"
    have run: "range_add H ?n (heap @ [Tx v]) s (v # vs) = (heap', s')"
      using assms Cons by (simp add: add_block_txs_def del: range_add.simps)
    note eff = range_add_effect [OF run, simplified]
    have old: "q < ?n \<Longrightarrow> heap' ! q = heap ! q" for q using eff(2) [of q] by (simp add: nth_append)
    have len: "length heap' = Suc ?n" using eff(1) by simp
    have new: "last_tx b (heap' ! ?n)" using eff(3) Cons by (simp add: last_tx_def)
    have grow: "points_to_last P heap' u" if "points_to_last P heap u" for u
      using that by (auto simp: points_to_last_def old len less_SucI)
    have "points_to_last P heap' s'" if s: "points_to_last P heap s" and b: "P b"
      unfolding points_to_last_def
    proof (intro conjI allI impI)
      show "set_ok s'" using s eff(5) by (simp add: points_to_last_def)
      fix k q assume "set_view s' k = Some q"
      then have "set_view s k = Some q \<or> q = ?n" by (rule eff(4))
      then have "q < Suc ?n \<and> (\<exists>b. P b \<and> last_tx b (heap' ! q))"
        using grow [OF s] new b len unfolding points_to_last_def by auto
      then show "q < length heap'" "\<exists>b. P b \<and> last_tx b (heap' ! q)" by (simp_all add: len)
    qed
    then show ?thesis using grow by blast
  qed
  then show "points_to_last P heap t \<Longrightarrow> points_to_last P heap' t"
    and "points_to_last P heap s \<Longrightarrow> P b \<Longrightarrow> points_to_last P heap' s'" by blast+
qed

section \<open>SyncTransaction returns\<close>

text \<open>A block that is one longer than its stored predecessor, or has length 0 and none.\<close>

definition stepped :: "Block gomap \<Rightarrow> Block \<Rightarrow> bool" where
  "stepped blocks b \<longleftrightarrow> (case map_get blocks (PrevBlockHash b) of
     None \<Rightarrow> ChainLength b = 0 | Some p \<Rightarrow> unat (ChainLength b) = Suc (unat (ChainLength p)))"

definition all_stepped :: "Block gomap \<Rightarrow> bool" where
  "all_stepped blocks \<longleftrightarrow> (\<forall>k b. map_get blocks k = Some b \<longrightarrow> stepped blocks b)"

lemma sync_down_returns:
  assumes "all_stepped blocks" "map_get blocks k = Some b" "unat height \<le> unat (ChainLength b)"
    "points_to_last P heap s" "\<forall>k b. map_get blocks k = Some b \<longrightarrow> P b"
  shows "\<exists>b' j heap' s'. sync_down H blocks height b heap s = ret (b', heap', s')
    \<and> map_get blocks j = Some b' \<and> ChainLength b' = height \<and> points_to_last P heap' s'"
  using assms(2-4)
proof (induction "unat (ChainLength b)" arbitrary: k b heap s rule: less_induct)
  case less
  show ?case
  proof (cases "height < ChainLength b")
    case False
    then have "ChainLength b = height" using less.prems(2) by (simp add: word_less_nat_alt word_unat_eq_iff)
    then show ?thesis using less.prems(1,3) by (subst sync_down.simps) (auto simp flip: ret_def)
  next
    case True
    have "stepped blocks b" using assms(1) less.prems(1) by (simp add: all_stepped_def)
    moreover have "ChainLength b \<noteq> 0" using True by auto
    ultimately obtain p where p: "map_get blocks (PrevBlockHash b) = Some p"
        "unat (ChainLength b) = Suc (unat (ChainLength p))"
      by (auto simp: stepped_def split: option.splits)
    obtain heap1 s1 where add: "add_block_txs H heap s b = (heap1, s1)" by fastforce
    have "points_to_last P heap1 s1"
      using add_block_txs_points(2) [OF add less.prems(3)] assms(5) less.prems(1) by blast
    moreover have "unat height \<le> unat (ChainLength p)"
      using True p(2) by (simp add: word_less_nat_alt)
    ultimately show ?thesis
      using less.hyps [OF _ p(1), of heap1 s1] p add True by (subst sync_down.simps) simp
  qed
qed

lemma sync_back_returns:
  assumes "all_stepped blocks" "stepped blocks cb" "P cb" "map_get blocks k = Some nb"
    "ChainLength cb = ChainLength nb" "points_to_last P heap s" "points_to_last P heap t"
    "\<forall>k b. map_get blocks k = Some b \<longrightarrow> P b"
  shows "\<exists>heap' s' t'. sync_back H blocks cb nb heap s t = ret (heap', s', t')
    \<and> points_to_last P heap' s' \<and> points_to_last P heap' t'"
  using assms(2-7)
proof (induction "unat (ChainLength cb)" arbitrary: k cb nb heap s t rule: less_induct)
  case less
  show ?case
  proof (cases "GetHashStr H cb = GetHashStr H nb")
    case True
    then show ?thesis using less.prems(5,6) by (subst sync_back.simps) (simp flip: ret_def)
  next
    case False
    obtain heap1 s1 where one: "add_block_txs H heap s cb = (heap1, s1)" by fastforce
    obtain heap2 t2 where two: "add_block_txs H heap1 t nb = (heap2, t2)" by fastforce
    have P: "P nb" using assms(8) less.prems(3) by blast
    have "points_to_last P heap1 s1" "points_to_last P heap1 t"
      using add_block_txs_points [OF one] less.prems(2,5,6) by blast+
    then have pts: "points_to_last P heap2 s1" "points_to_last P heap2 t2"
      using add_block_txs_points [OF two] P by blast+
    show ?thesis
    proof (cases "map_get blocks (PrevBlockHash cb)")
      case None
      then show ?thesis using False one two pts by (subst sync_back.simps) (simp flip: ret_def)
    next
      case (Some p)
      then have len: "unat (ChainLength cb) = Suc (unat (ChainLength p))"
        using less.prems(1) by (simp add: stepped_def)
      have "stepped blocks nb" using assms(1) less.prems(3) by (simp add: all_stepped_def)
      then obtain q where q: "map_get blocks (PrevBlockHash nb) = Some q"
          "unat (ChainLength nb) = Suc (unat (ChainLength q))"
        using len less.prems(4) by (auto simp: stepped_def split: option.splits)
      have "ChainLength p = ChainLength q" using len q(2) less.prems(4) by (simp add: word_unat_eq_iff)
      moreover have "stepped blocks p" "P p" using assms(1,8) Some by (auto simp: all_stepped_def)
      ultimately show ?thesis
        using less.hyps [OF _ _ _ q(1) _ pts, of p] len False one two Some q(1)
        by (subst sync_back.simps) simp
    qed
  qed
qed

lemma foldl_Set_Remove:
  "set_ok s \<Longrightarrow> set_ok (foldl (Set_Remove h) s ps)"
  "set_view (foldl (Set_Remove h) s ps) k = Some q \<Longrightarrow> set_view s k = Some q"
proof -
  show "set_ok s \<Longrightarrow> set_ok (foldl (Set_Remove h) s ps)"
    by (induction ps arbitrary: s) (simp_all add: gs.ok_remove)
  show "set_view (foldl (Set_Remove h) s ps) k = Some q \<Longrightarrow> set_view s k = Some q"
  proof (induction ps arbitrary: s)
    case (Cons p ps)
    then have "set_view (Set_Remove h s p) k = Some q" by simp
    then show ?case unfolding gs.view_remove by (simp split: if_splits)
  qed simp
qed

lemma SyncTransaction_effect:
  assumes "CurrentBlock m = Some cb" "all_stepped (Blocks m)" "stepped (Blocks m) cb"
    "map_get (Blocks m) k = Some nb" "ChainLength cb \<le> ChainLength nb"
  obtains s where "SyncTransaction H os m nb = ret s" "set_ok s"
    "\<And>k tx. set_view s k = Some tx \<Longrightarrow> \<exists>b. (b = cb \<or> stored m b) \<and> last_tx b tx"
proof -
  let ?P = "\<lambda>b. b = cb \<or> stored m b"
  have P: "\<forall>k b. map_get (Blocks m) k = Some b \<longrightarrow> ?P b" by (auto simp: stored_def)
  have start: "points_to_last ?P heap NewSet" for heap
    by (simp add: points_to_last_def gs.view_empty gs.ok_empty)
  obtain b j heap s where down: "sync_down H (Blocks m) (ChainLength cb) nb [] NewSet = ret (b, heap, s)"
      "map_get (Blocks m) j = Some b" "ChainLength b = ChainLength cb" "points_to_last ?P heap s"
    using sync_down_returns [where H = H and height = "ChainLength cb", OF assms(2,4) _ start P, of "[]"] assms(5)
    by (auto simp: word_le_nat_alt)
  obtain heap' c t where walked: "sync_back H (Blocks m) cb b heap NewSet s = ret (heap', c, t)"
      "points_to_last ?P heap' c"
    using sync_back_returns [where H = H, OF assms(2,3) _ down(2) down(3) [symmetric] start down(4) P] by auto
  let ?c = "foldl (Set_Remove (pointee H heap')) c (Set_ToArray (pointer_order os) t)"
  let ?s = "\<lparr>items = map (\<lambda>(k, q). (k, heap' ! q)) (items ?c)\<rparr>"
  have "SyncTransaction H os m nb = ret ?s"
    using assms(1) down(1) walked(1) by (simp add: SyncTransaction_def Let_def)
  moreover have "set_ok ?s"
    using foldl_Set_Remove(1) [of c] walked(2)
    by (simp add: points_to_last_def set_ok_def map_ok_def split_def o_def)
  moreover have "\<exists>b. ?P b \<and> last_tx b tx" if "set_view ?s k = Some tx" for k tx
  proof -
    have "map_option (\<lambda>q. heap' ! q) (set_view ?c k) = Some tx"
      using that by (simp add: set_view_def map_get_def map_of_map)
    then obtain q where "set_view ?c k = Some q" "tx = heap' ! q" unfolding map_option_eq_Some by metis
    then show ?thesis using foldl_Set_Remove(2) walked(2) unfolding points_to_last_def by metis
  qed
  ultimately show thesis using that by blast
qed

section \<open>What is lost\<close>

lemma range_add_dom:
  "range_add H cell heap s vs = (heap', s') \<Longrightarrow> cell < length heap \<Longrightarrow>
   dom (set_view s') = dom (set_view s) \<union> (\<lambda>v. Tx_GetHashStr H (Tx v)) ` set vs"
proof (induction vs arbitrary: heap s)
  case (Cons v vs)
  let ?heap = "heap[cell := Tx v]"
  have "pointee H ?heap cell = Tx_GetHashStr H (Tx v)" using Cons.prems(2) by (simp add: pointee_def)
  then have "dom (set_view (Set_Add (pointee H ?heap) s cell)) = insert (Tx_GetHashStr H (Tx v)) (dom (set_view s))"
    by (auto simp: gs.view_add)
  then show ?case using Cons.IH [of ?heap] Cons.prems by (simp add: Let_def)
qed simp

lemma add_block_txs_fresh:
  assumes "add_block_txs H heap NewSet b = (heap', s')"
  shows "dom (set_view s') = (\<lambda>v. Tx_GetHashStr H (Tx v)) ` set (elems (Transactions b))"
    "set_view s' k = Some q \<Longrightarrow> last_tx b (heap' ! q)"
proof -
  have "dom (set_view s') = (\<lambda>v. Tx_GetHashStr H (Tx v)) ` set (elems (Transactions b))
      \<and> (set_view s' k = Some q \<longrightarrow> last_tx b (heap' ! q))"
  proof (cases "elems (Transactions b)")
    case Nil
    then show ?thesis using assms by (auto simp: add_block_txs_def gs.view_empty)
  next
    case (Cons v vs)
    have run: "range_add H (length heap) (heap @ [Tx v]) NewSet (v # vs) = (heap', s')"
      using assms Cons by (simp add: add_block_txs_def del: range_add.simps)
    have "last_tx b (heap' ! length heap)"
      using range_add_effect(3) [OF run] Cons by (simp add: last_tx_def)
    moreover have "set_view s' k = Some q \<Longrightarrow> q = length heap"
      using range_add_effect(4) [OF run] by (simp add: gs.view_empty)
    ultimately show ?thesis using range_add_dom [OF run] Cons by (auto simp: gs.view_empty)
  qed
  then show "dom (set_view s') = (\<lambda>v. Tx_GetHashStr H (Tx v)) ` set (elems (Transactions b))"
    "set_view s' k = Some q \<Longrightarrow> last_tx b (heap' ! q)" by blast+
qed

lemma SyncTransaction_sibling:
  assumes "CurrentBlock m = Some cb" "ChainLength cb = ChainLength nb" "PrevBlockHash cb = PrevBlockHash nb"
    "GetHashStr H cb \<noteq> GetHashStr H nb" "elems (Transactions nb) = []" "is_order (pointer_order os)"
    "SyncTransaction H os m nb = ret s"
  shows "set_view s k = Some tx \<Longrightarrow> last_tx cb tx"
    "dom (set_view s) = (\<lambda>v. Tx_GetHashStr H (Tx v)) ` set (elems (Transactions cb))"
proof -
  obtain heap c where c: "add_block_txs H [] NewSet cb = (heap, c)" by fastforce
  have nb: "add_block_txs H heap NewSet nb = (heap, NewSet)" using assms(5) by (simp add: add_block_txs_def)
  have down: "sync_down H (Blocks m) (ChainLength cb) nb [] NewSet = ret (nb, [], NewSet)"
    using assms(2) by (subst sync_down.simps) (simp add: ret_def)
  have "sync_back H (Blocks m) p p heap c NewSet = ret (heap, c, NewSet)" for p
    by (subst sync_back.simps) (simp add: ret_def)
  then have walked: "sync_back H (Blocks m) cb nb [] NewSet NewSet = ret (heap, c, NewSet)"
    using assms(3,4) c nb by (subst sync_back.simps) (simp add: ret_def split: option.split)
  have "pointer_order os [] = []" using assms(6) by (metis is_order_def mset_zero_iff_right)
  then have "Set_ToArray (pointer_order os) NewSet = []"
    by (simp add: Set_ToArray_def NewSet_def map_values_def)
  then have s: "s = \<lparr>items = map (\<lambda>(k, q). (k, heap ! q)) (items c)\<rparr>"
    using assms(1,7) down walked by (simp add: SyncTransaction_def Let_def)
  have view: "set_view s k = map_option (\<lambda>q. heap ! q) (set_view c k)" for k
    by (simp add: s set_view_def map_get_def map_of_map)
  then show "set_view s k = Some tx \<Longrightarrow> last_tx cb tx" using add_block_txs_fresh(2) [OF c] by auto
  have "dom (set_view s) = dom (set_view c)" using view by (auto simp: dom_def)
  then show "dom (set_view s) = (\<lambda>v. Tx_GetHashStr H (Tx v)) ` set (elems (Transactions cb))"
    using add_block_txs_fresh(1) [OF c] by simp
qed

end
