(* ===== verification/Mining.thy ===== *)
theory Mining
  imports MinerInv
begin

text \<open>
  The invariant of a miner: its chain grows by one at each stored block, its pool and its stored
  blocks hold only transactions that cannot make \<open>AddTransaction\<close> panic or wrap around, and the
  block it mines was built on its head. Lemmas on starting a search, on the search loop, and
  on what receiving a block does to the invariant.
\<close>

section \<open>Transactions that are safe to try\<close>

definition fair_tx :: "Transaction \<Rightarrow> bool" where
  "fair_tx tx \<longleftrightarrow> safe_tx tx \<and> no_overflow tx"

definition fair_block :: "Block \<Rightarrow> bool" where
  "fair_block b \<longleftrightarrow> (\<forall>v \<in> set (elems (Transactions b)). fair_tx (Tx v))"

interpretation fairs: ledger_invariant H fair_tx fair_block for H
proof
  fix b b' tx added
  assume "fair_tx tx" "fair_block b" "AddTransaction H b tx = Ok (b', added)"
  then show "fair_block b'"
    by (cases rule: AddTransaction_outcome [of H b tx]) (auto simp: fair_block_def)
qed

section \<open>The invariant\<close>

definition built_on :: "crypto \<Rightarrow> 'a miner_scheme \<Rightarrow> Block \<Rightarrow> Block \<Rightarrow> bool" where
  "built_on H m h cb \<longleftrightarrow> (\<exists>now target b0 txs b p.
     NewBlock H now (Address m) (Some h) target (coinbaseAmount (Config m)) = Some b0
     \<and> add_transactions H b0 txs = Ok b \<and> (\<forall>tx \<in> set txs. fair_tx tx) \<and> cb = b\<lparr>Proof := p\<rparr>)"

definition pool_ok :: "Transaction goset \<Rightarrow> bool" where
  "pool_ok s \<longleftrightarrow> set_ok s \<and> (\<forall>k tx. set_view s k = Some tx \<longrightarrow> fair_tx tx)"

definition fits :: "crypto \<Rightarrow> Block \<Rightarrow> bool" where
  "fits H b \<longleftrightarrow> fair_block b \<and> unat (ChainLength b) + 1 < 2 ^ 32 \<and> (\<exists>h. GetHash H b = Inr h)"

definition chain_ok :: "crypto \<Rightarrow> 'a miner_scheme \<Rightarrow> bool" where
  "chain_ok H m \<longleftrightarrow> all_stepped (Blocks m) \<and> (\<forall>k b. map_get (Blocks m) k = Some b \<longrightarrow> fits H b)"

definition miner_ok :: "crypto \<Rightarrow> 'a miner_scheme \<Rightarrow> bool" where
  "miner_ok H m \<longleftrightarrow> node_ok H m \<and> chain_ok H m \<and> pool_ok (Miner_Transactions m)
     \<and> (\<exists>h cb. LastBlock m = Some h \<and> CurrentBlock m = Some cb \<and> built_on H m h cb)"

definition orders_ok :: "map_orders \<Rightarrow> bool" where
  "orders_ok os \<longleftrightarrow> is_order (block_order os) \<and> is_order (synced_order os)
     \<and> is_order (pool_order os) \<and> is_order (pointer_order os)"

lemma built_on_cong: "Address m' = Address m \<Longrightarrow> Config m' = Config m \<Longrightarrow> built_on H m' = built_on H m"
  by (simp add: built_on_def fun_eq_iff)

lemma built_on_Proof: "built_on H m h cb \<Longrightarrow> built_on H m h (cb\<lparr>Proof := p\<rparr>)"
  unfolding built_on_def by (metis (no_types, lifting) Block.update_convs(3) Block.cases)

lemma built_on_fields:
  assumes "built_on H m h cb"
  shows "PrevBlockHash cb = GetHashStr H h" "ChainLength cb = ChainLength h + 1"
    "RewardAddr cb = Address m" "honest H cb" "fair_block cb"
proof -
  obtain now target b0 txs b p where b: "NewBlock H now (Address m) (Some h)
      target (coinbaseAmount (Config m)) = Some b0"
    "add_transactions H b0 txs = Ok b" "\<forall>tx \<in> set txs. fair_tx tx" "cb = b\<lparr>Proof := p\<rparr>"
    using assms by (auto simp: built_on_def)
  note new = NewBlock_child [OF b(1)]
  have all: "\<forall>tx \<in> set txs. True" by simp
  have "header b = header b0" using hdr.add_transactions_inv [OF all _ b(2)] by simp
  note head = header_fields [OF this]
  show "PrevBlockHash cb = GetHashStr H h" "ChainLength cb = ChainLength h + 1" "RewardAddr cb = Address m"
    using b(4) head new GetHashStr_GetHash [OF new(1)] by simp_all
  show "honest H cb"
    using ids.add_transactions_inv [OF all _ b(2)] nonnil.add_transactions_inv [OF all _ b(2)] new(8) b(4)
    by (simp add: honest_def)
  show "fair_block cb"
    using fairs.add_transactions_inv [OF b(3) _ b(2)] new(8) b(4) by (simp add: fair_block_def)
qed

lemma miner_okD:
  assumes "miner_ok H m"
  obtains h cb where "node_ok H m" "all_stepped (Blocks m)" "pool_ok (Miner_Transactions m)"
    "LastBlock m = Some h" "CurrentBlock m = Some cb" "built_on H m h cb"
    "map_get (Blocks m) (GetHashStr H h) = Some h" "fits H h" "stepped (Blocks m) cb"
proof -
  obtain h cb where m: "node_ok H m" "chain_ok H m" "pool_ok (Miner_Transactions m)"
    "LastBlock m = Some h" "CurrentBlock m = Some cb" "built_on H m h cb"
    using assms by (auto simp: miner_ok_def)
  obtain k where k: "map_get (Blocks m) k = Some h"
    using node_okD(6) [OF m(1)] m(4) by (auto simp: head_ok_def stored_def)
  have id: "GetHashStr H h = k" using node_okD(7) [OF m(1) k] .
  have fit: "fits H h" using m(2) k by (auto simp: chain_ok_def)
  then have "unat (ChainLength cb) = Suc (unat (ChainLength h))"
    using built_on_fields(2) [OF m(6)] by (simp add: fits_def unat_u32_plus)
  then have "stepped (Blocks m) cb" using built_on_fields(1) [OF m(6)] k id by (simp add: stepped_def)
  then show thesis using that m k id fit by (auto simp: chain_ok_def)
qed

section \<open>Starting a search\<close>

lemma pool_add_all:
  assumes "pool_ok s" "\<forall>tx \<in> set txs. fair_tx tx"
  shows "pool_ok (foldl (Set_Add h) s txs)"
  using assms
proof (induction txs arbitrary: s)
  case (Cons tx txs)
  have "pool_ok (Set_Add h s tx)"
    using Cons.prems gs.ok_add [of s h tx] by (auto simp: pool_ok_def gs.view_add split: if_splits)
  then show ?case using Cons.IH Cons.prems(2) by simp
qed simp

lemma pool_array:
  assumes "pool_ok s" "is_order ord"
  shows "\<forall>tx \<in> set (Set_ToArray ord s). fair_tx tx"
  using assms gs.array_view [of s ord] by (auto simp: pool_ok_def ran_def)

text \<open>What the searches of \<open>Miner\<close> and \<open>TcpMiner\<close> share: they differ in the target.\<close>

definition search_with ::
  "crypto \<Rightarrow> int \<Rightarrow> go_time \<Rightarrow> map_orders \<Rightarrow> 'a miner_scheme \<Rightarrow> Transaction goset option \<Rightarrow> 'a miner_scheme res" where
  "search_with H target now os m txSet =
     (let txList = Set_ToArray (synced_order os) (case txSet of None \<Rightarrow> NewSet | Some s \<Rightarrow> s);
          transactions = foldl (Set_Add (Tx_GetHashStr H)) (Miner_Transactions m) txList
      in case NewBlock H now (Address m) (LastBlock m) target (coinbaseAmount (Config m)) of
           None \<Rightarrow> Panic NilDeref
         | Some block \<Rightarrow>
             res_bind (add_transactions H block (Set_ToArray (pool_order os) transactions)) (\<lambda>block'.
               Ok (m\<lparr>CurrentBlock := Some (block'\<lparr>Proof := 0\<rparr>), Miner_Transactions := \<lparr>items = []\<rparr>\<rparr>)))"

lemma StartNewSearch_search:
  "StartNewSearch H now os m txSet = search_with H (CalculateTarget POW_LEADING_ZEROES) now os m txSet"
proof -
  have clear: "Set_Clear s = \<lparr>items = []\<rparr>" for s :: "Transaction goset" by (cases s) (simp add: Set_Clear_def)
  show ?thesis unfolding StartNewSearch_def search_with_def Let_def clear by (rule refl)
qed

lemma search_effect:
  assumes "LastBlock m = Some h" "GetHash H h = Inr k" "pool_ok (Miner_Transactions m)"
    "\<And>s. txSet = Some s \<Longrightarrow> pool_ok s" "orders_ok os"
  obtains cb where "search_with H target now os m txSet =
      Ok (m\<lparr>CurrentBlock := Some cb, Miner_Transactions := \<lparr>items = []\<rparr>\<rparr>)"
    "built_on H m h cb" "Proof cb = 0"
proof -
  let ?set = "case txSet of None \<Rightarrow> NewSet | Some s \<Rightarrow> s"
  let ?pool = "foldl (Set_Add (Tx_GetHashStr H)) (Miner_Transactions m) (Set_ToArray (synced_order os) ?set)"
  let ?txs = "Set_ToArray (pool_order os) ?pool"
  have "pool_ok ?set"
    using assms(4) by (auto simp: pool_ok_def gs.ok_empty gs.view_empty split: option.split)
  then have "\<forall>tx \<in> set (Set_ToArray (synced_order os) ?set). fair_tx tx"
    using assms(5) by (auto simp: orders_ok_def dest: pool_array)
  then have "pool_ok ?pool" using assms(3) by (rule pool_add_all [rotated])
  then have fair: "\<forall>tx \<in> set ?txs. fair_tx tx"
    using assms(5) by (auto simp: orders_ok_def dest: pool_array)
  then have "\<forall>tx \<in> set ?txs. safe_tx tx" by (simp add: fair_tx_def)
  obtain b0 where b0: "NewBlock H now (Address m) (Some h) target
      (coinbaseAmount (Config m)) = Some b0"
    using assms(2) by (auto simp: NewBlock_def Let_def)
  obtain b where b: "add_transactions H b0 ?txs = Ok b"
    using add_transactions_safe [OF \<open>\<forall>tx \<in> set ?txs. safe_tx tx\<close>] by blast
  have "built_on H m h (b\<lparr>Proof := 0\<rparr>)" unfolding built_on_def using b0 b fair by blast
  then show thesis
    using that [of "b\<lparr>Proof := 0\<rparr>"] assms(1) b0 b
    by (simp add: search_with_def Let_def)
qed

lemma search_stamp:
  assumes "search_with H target now os m txSet = Ok m'" "CurrentBlock m' = Some cb"
  shows "Timestamp cb = now" "Target cb = target"
proof -
  obtain b0 b txs where b: "NewBlock H now (Address m) (LastBlock m) target
      (coinbaseAmount (Config m)) = Some b0" "add_transactions H b0 txs = Ok b" "cb = b\<lparr>Proof := 0\<rparr>"
    using assms by (auto simp: search_with_def Let_def res_simps split: option.splits)
  have all: "\<forall>tx \<in> set txs. True" by simp
  have "header b = header b0" using hdr.add_transactions_inv [OF all _ b(2)] by simp
  note head = header_fields [OF this]
  have "Timestamp b0 = now" "Target b0 = target"
    using b(1) by (auto simp: NewBlock_def Let_def split: option.splits sum.splits)
  then show "Timestamp cb = now" "Target cb = target" using b(3) head by simp_all
qed

text \<open>With an empty pool and no set, the new block is empty.\<close>

lemma search_empty:
  assumes "search_with H target now os m None = Ok m'" "CurrentBlock m' = Some cb"
    "Miner_Transactions m = NewSet" "orders_ok os"
  shows "Transactions cb = Some []"
proof -
  have "is_order ord \<Longrightarrow> ord [] = []" for ord :: "Transaction list \<Rightarrow> Transaction list"
    by (metis is_order_def mset_zero_iff_right)
  then have "Set_ToArray ord NewSet = []" if "is_order ord" for ord :: "Transaction list \<Rightarrow> _"
    using that by (simp add: Set_ToArray_def NewSet_def map_values_def)
  then show ?thesis
    using assms NewBlock_def
    by (auto simp: search_with_def Let_def orders_ok_def NewBlock_def split: option.splits sum.splits)
qed

section \<open>The search loop\<close>

lemma find_proof_cases:
  assumes "find_proof H n b = (b', found)"
  shows "b' = b\<lparr>Proof := Proof b'\<rparr> \<and> Proof b \<le> Proof b'
    \<and> (\<forall>i. Proof b \<le> i \<and> i < Proof b' \<longrightarrow> \<not> hasValidProof H (b\<lparr>Proof := i\<rparr>))
    \<and> (if found then Proof b' < n \<and> hasValidProof H b' else Proof b' = max n (Proof b))"
  using assms
proof (induction H n b rule: find_proof.induct)
  case (1 H n b)
  show ?case
  proof (cases "Proof b < n \<and> \<not> hasValidProof H b")
    case False
    then show ?thesis
      using 1(2) by (auto simp: find_proof.simps [of H n b] max_def split: if_splits)
  next
    case True
    let ?b = "b\<lparr>Proof := Proof b + 1\<rparr>"
    have "find_proof H n ?b = (b', found)" using 1(2) True by (simp add: find_proof.simps [of H n b])
    note IH = 1(1) [OF _ _ this]
    have step: "Proof b < Proof b + 1" "Proof b + 1 \<le> n" "i < Proof b + 1 \<longleftrightarrow> i \<le> Proof b" for i
      using True u32_next [of "Proof b" n] by simp_all
    have "b' = b\<lparr>Proof := Proof b'\<rparr>" using IH True by simp
    moreover have "\<not> hasValidProof H (b\<lparr>Proof := i\<rparr>)" if i: "Proof b \<le> i" "i < Proof b'" for i
    proof (cases "i = Proof b")
      case True
      then show ?thesis using \<open>Proof b < n \<and> \<not> hasValidProof H b\<close> by simp
    next
      case False
      then have "Proof b + 1 \<le> i" using i(1) step(3) [of i] by (simp add: not_less)
      then show ?thesis using IH True i(2) by simp
    qed
    ultimately show ?thesis using IH True step(1,2) by (auto simp: max_def)
  qed
qed

lemma valid_proof_bytes:
  assumes "hasValidProof H b"
  shows "\<exists>data. BlockToBytes b = Inr data"
proof -
  obtain t where "json_time (Timestamp b) = Inr t"
    using assms by (auto simp: hasValidProof_def BlockToBytes_def json_block_def block4hash_def split: sum.splits)
  then show ?thesis by (simp add: BlockToBytes_def json_block_def del: render.simps)
qed

lemma FindProof_effect:
  assumes "CurrentBlock m = Some cb" "\<not> length (Address m) < 10"
    "find_proof H (Proof cb + MiningRounds m) cb = (b, found)"
  shows "FindProof H m oneAndDone =
    (if found then ret (m\<lparr>CurrentBlock := Some b\<rparr>,
        [Broadcast PROOF_FOUND (case BlockToBytes b of Inl err \<Rightarrow> [] | Inr data \<Rightarrow> data), GoReceiveBlock b]
        @ (if \<not> oneAndDone then [GoEmit START_MINING False] else []))
     else ret (m\<lparr>CurrentBlock := Some b\<rparr>, if \<not> oneAndDone then [GoEmit START_MINING False] else []))"
proof (cases found)
  case False
  then show ?thesis using assms by (simp add: FindProof_def Let_def)
next
  case True
  then have "hasValidProof H b" using find_proof_cases [OF assms(3)] by simp
  then obtain data where "BlockToBytes b = Inr data" using valid_proof_bytes by blast
  then show ?thesis
    using True assms by (simp add: FindProof_def AnnounceProof_def Miner_Log_eq Let_def)
qed

section \<open>Receiving a block\<close>

text \<open>
  What a block must be for the miner to be sure to go on: well-formed, and one longer than its
  predecessor when that is stored; no stored root of a chain names it as its predecessor.
\<close>

definition incoming_ok :: "crypto \<Rightarrow> 'a miner_scheme \<Rightarrow> Block \<Rightarrow> bool" where
  "incoming_ok H m b \<longleftrightarrow> good_block H b \<and> fits H b
     \<and> (\<forall>p. map_get (Blocks m) (PrevBlockHash b) = Some p \<longrightarrow>
          unat (ChainLength b) = Suc (unat (ChainLength p)))
     \<and> (\<forall>k g. map_get (Blocks m) k = Some g \<and> map_get (Blocks m) (PrevBlockHash g) = None \<longrightarrow>
          PrevBlockHash g \<noteq> GetHashStr H b)
     \<and> (IsGenesisBlock b \<longrightarrow> PrevBlockHash b \<noteq> GetHashStr H b)"

lemma fits_cong:
  assumes "header b' = header b" "Transactions b' = Transactions b" "fits H b"
  shows "fits H b'"
  using assms same_hash(1) [OF assms(1,2), of H] header_fields(4) [OF assms(1)]
  by (simp add: fits_def fair_block_def)

lemma chain_ok_put:
  assumes chain: "chain_ok H m" and inc: "incoming_ok H m b" and adm: "admissible H m b"
    and same: "header b' = header b" "Transactions b' = Transactions b"
    and blocks: "Blocks m' = map_put (GetHashStr H b) b' (Blocks m)"
  shows "chain_ok H m'"
proof -
  let ?k = "GetHashStr H b"
  note head = header_fields [OF same(1)]
  have fresh: "map_get (Blocks m) ?k = None" using adm by (simp add: admissible_def)
  have "fits H b'" using fits_cong [OF same] inc by (simp add: incoming_ok_def)
  moreover have "stepped (Blocks m') b'"
  proof (cases "map_get (Blocks m) (PrevBlockHash b)")
    case None
    then have "IsGenesisBlock b" using adm by (simp add: admissible_def)
    then show ?thesis
      using None inc head blocks by (simp add: stepped_def incoming_ok_def IsGenesisBlock_def)
  next
    case (Some p)
    then have "PrevBlockHash b \<noteq> ?k" using fresh by auto
    then show ?thesis using Some inc head blocks by (simp add: stepped_def incoming_ok_def)
  qed
  moreover have "stepped (Blocks m') g" if g: "map_get (Blocks m) k = Some g" for k g
  proof -
    have old: "stepped (Blocks m) g" using chain g by (simp add: chain_ok_def all_stepped_def)
    show ?thesis
    proof (cases "map_get (Blocks m) (PrevBlockHash g)")
      case None
      then have "PrevBlockHash g \<noteq> ?k" using inc g by (auto simp: incoming_ok_def)
      then show ?thesis using old None blocks by (simp add: stepped_def)
    next
      case (Some p)
      then have "PrevBlockHash g \<noteq> ?k" using fresh by auto
      then show ?thesis using old Some blocks by (simp add: stepped_def)
    qed
  qed
  ultimately show ?thesis
    using chain blocks by (auto simp: chain_ok_def all_stepped_def split: if_splits)
qed

lemma client_more_miner:
  assumes "client.more m' = client.more m"
  shows "CurrentBlock m' = CurrentBlock m" "Miner_Transactions m' = Miner_Transactions m"
    "MiningRounds m' = MiningRounds m"
  using assms by (cases m; cases m'; simp)+

text \<open>A set of last transactions of stored blocks and of the current block can be pooled.\<close>

lemma last_tx_fair: "fair_block b \<Longrightarrow> last_tx b tx \<Longrightarrow> fair_tx tx"
  by (auto simp: fair_block_def last_tx_def)

text \<open>The node after the client's part of \<open>ReceiveBlock\<close> starts a search with the synchronised set.\<close>

definition new_search ::
  "'a starter \<Rightarrow> go_time \<Rightarrow> map_orders \<Rightarrow> 'a miner_scheme \<Rightarrow> 'a miner_scheme \<Rightarrow> Block option \<Rightarrow> 'a miner_scheme \<Rightarrow> bool" where
  "new_search start now os m c' r m' \<longleftrightarrow> (\<exists>s. LastBlock c' = r \<and> set_ok s \<and> start now os c' (Some s) = Ok m'
     \<and> (\<forall>k tx. set_view s k = Some tx \<longrightarrow> (\<exists>b. (CurrentBlock m = Some b \<or> stored c' b) \<and> last_tx b tx)))"

text \<open>
  The interface of a miner's search: whatever \<open>start\<close> does, once there is a head it searches with
  some target. What the miners prove of receiving a block they prove once, from this.
\<close>

locale searcher =
  fixes H :: crypto
    and start :: "'a starter"
  assumes searches: "LastBlock m = Some h \<Longrightarrow> \<exists>target. start now os m txSet = search_with H target now os m txSet"
begin

lemma start_effect:
  assumes "LastBlock m = Some h" "GetHash H h = Inr k" "pool_ok (Miner_Transactions m)"
    "\<And>s. txSet = Some s \<Longrightarrow> pool_ok s" "orders_ok os"
  obtains cb where "start now os m txSet = Ok (m\<lparr>CurrentBlock := Some cb, Miner_Transactions := \<lparr>items = []\<rparr>\<rparr>)"
    "built_on H m h cb"
proof -
  obtain target where t: "start now os m txSet = search_with H target now os m txSet"
    using searches [OF assms(1)] by blast
  show thesis by (rule search_effect [where now = now and target = target, OF assms]) (use that t in simp_all)
qed

lemma receive_effect:
  assumes ok: "miner_ok H m" and inc: "incoming_ok H m b" and ord: "orders_ok os"
  obtains m' r effs where "go_bind (ReceiveBlock H (block_order os) m b) (cut_over H start now os) = ret (m', r, effs)" "miner_ok H m'"
    "r \<noteq> None \<longleftrightarrow> admissible H m b"
    "\<And>b'. r = Some b' \<Longrightarrow> header b' = header b \<and> Transactions b' = Transactions b
       \<and> LastBlock m' = (if moves_head m b then Some b' else LastBlock m)
       \<and> Blocks m' = map_put (GetHashStr H b) b' (Blocks m)"
    "\<And>b'. r = Some b' \<Longrightarrow> moves_head m b \<Longrightarrow> items (Miner_Transactions m') = []"
    "\<not> (r \<noteq> None \<and> moves_head m b) \<Longrightarrow> CurrentBlock m' = CurrentBlock m
       \<and> Miner_Transactions m' = Miner_Transactions m"
    "r = None \<Longrightarrow> LastBlock m' = LastBlock m"
    "\<exists>c'. ReceiveBlock H (block_order os) m b = ret (c', r, effs) \<and> (m' = c' \<or> new_search start now os m c' r m')"
proof -
  obtain h cb where m: "node_ok H m" "all_stepped (Blocks m)" "pool_ok (Miner_Transactions m)"
    "LastBlock m = Some h" "CurrentBlock m = Some cb" "built_on H m h cb"
    "map_get (Blocks m) (GetHashStr H h) = Some h" "fits H h" "stepped (Blocks m) cb"
    using ok by (rule miner_okD)
  have chain: "chain_ok H m" using ok by (simp add: miner_ok_def)
  have good: "good_block H b" using inc by (simp add: incoming_ok_def)
  note cb = built_on_fields [OF m(6)]
  show thesis
  proof (cases rule: ReceiveBlock_effect [OF m(1) good, of "block_order os"])
    case 1
    then show thesis using that [of m None "[]"] ok by simp
  next
    case (2 c')
    have "built_on H c' = built_on H m" using 2(5) by (intro built_on_cong) simp_all
    then have "miner_ok H c'" using m 2(4,5) chain by (simp add: miner_ok_def chain_ok_def)
    then show thesis
      using that [of c' None] 2 by simp
  next
    case (3 c' b')
    note more = client_more_miner [OF 3(13)]
    let ?effs = "map GoReceiveBlock (waiting (block_order os) m (GetHashStr H b))"
    have chain': "chain_ok H c'" using chain inc 3(2,4,5,8) by (rule chain_ok_put)
    have len: "ChainLength b' = ChainLength b" using header_fields [OF 3(4)] by simp
    have cb': "CurrentBlock c' = Some cb" using m(5) more by simp
    have one: "unat (ChainLength cb) = Suc (unat (ChainLength h))"
      using cb(2) m(8) by (simp add: fits_def unat_u32_plus)
    show thesis
    proof (cases "moves_head m b")
      case False
      then have "\<not> ChainLength cb \<le> ChainLength b'"
        using m(4) len one by (simp add: moves_head_def word_le_nat_alt word_less_nat_alt)
      then have run: "go_bind (ReceiveBlock H (block_order os) m b) (cut_over H start now os) = ret (c', Some b', ?effs)"
        using 3(1) cb' by (simp add: cut_over_def)
      have "built_on H c' = built_on H m" using 3(11,12) by (intro built_on_cong) simp_all
      then have "miner_ok H c'"
        using 3(7,9) False m chain' more by (simp add: miner_ok_def)
      then show thesis using that [OF run] 3(2-12) 3(1) False more by simp
    next
      case True
      then have cut: "ChainLength cb \<le> ChainLength b'"
        using m(4) len one by (simp add: moves_head_def word_le_nat_alt word_less_nat_alt)
      have stored': "map_get (Blocks c') (GetHashStr H b) = Some b'" using 3(8) by simp
      have "stepped (Blocks c') cb"
        using m(7,9) cb(1) 3(2,8) by (auto simp: stepped_def admissible_def)
      moreover have "all_stepped (Blocks c')" using chain' by (simp add: chain_ok_def)
      ultimately obtain s where s: "SyncTransaction H os c' b' = ret s" "set_ok s"
        "\<And>k tx. set_view s k = Some tx \<Longrightarrow> \<exists>b. (b = cb \<or> stored c' b) \<and> last_tx b tx"
        using SyncTransaction_effect [OF cb' _ _ stored' cut, of H os] by blast
      have "pool_ok s"
        using s(2,3) cb(5) chain' last_tx_fair unfolding pool_ok_def chain_ok_def stored_def fits_def by metis
      moreover have fit: "fits H b'" using chain' stored' by (auto simp: chain_ok_def)
      moreover have "LastBlock c' = Some b'" using 3(9) True by simp
      moreover have "pool_ok (Miner_Transactions c')" using m(3) more by simp
      ultimately obtain nb where nb: "start now os c' (Some s) =
          Ok (c'\<lparr>CurrentBlock := Some nb, Miner_Transactions := \<lparr>items = []\<rparr>\<rparr>)" "built_on H c' b' nb"
        using start_effect [where m = c' and txSet = "Some s" and os = os and now = now] ord
        unfolding fits_def by (metis option.inject)
      let ?m = "c'\<lparr>CurrentBlock := Some nb, Miner_Transactions := \<lparr>items = []\<rparr>\<rparr>"
      have run: "go_bind (ReceiveBlock H (block_order os) m b) (cut_over H start now os) = ret (?m, Some b', ?effs)"
        using 3(1) cb' cut s(1) nb(1) by (simp add: cut_over_def flip: ret_def)
      have "node_ok H ?m" by (rule node_ok_cong [OF 3(7)]) (use node_okD(2,3) [OF 3(7)] in simp_all)
      moreover have "built_on H ?m = built_on H c'" by (rule built_on_cong) simp_all
      moreover have "pool_ok \<lparr>items = []\<rparr>" by (simp add: pool_ok_def set_ok_def set_view_def)
      ultimately have ok: "miner_ok H ?m"
        using chain' nb(2) \<open>LastBlock c' = Some b'\<close> by (simp add: miner_ok_def chain_ok_def)
      have search: "new_search start now os m c' (Some b') ?m"
        unfolding new_search_def
      proof (intro exI [of _ s] conjI allI impI)
        show "LastBlock c' = Some b'" by fact
        show "\<exists>b. (CurrentBlock m = Some b \<or> stored c' b) \<and> last_tx b tx" if "set_view s k = Some tx" for k tx
          using s(3) [OF that] m(5) by metis
      qed (rule s(2), rule nb(1))
      show thesis
      proof (rule that [OF run ok])
        show "\<exists>c'. ReceiveBlock H (block_order os) m b = ret (c', Some b', ?effs)
            \<and> (?m = c' \<or> new_search start now os m c' (Some b') ?m)"
          using 3(1) search by blast
      qed (use 3(2-12) True in simp_all)
    qed
  qed
qed

end

interpretation miner: searcher H "StartNewSearch H" for H
  by unfold_locales (auto simp: StartNewSearch_search)

lemmas Miner_ReceiveBlock_effect = miner.receive_effect [folded Miner_ReceiveBlock_eq]

section \<open>The block a miner finds\<close>

lemma built_on_reruns:
  assumes "built_on H m h cb" "gold h + reward_of h < 2 ^ 32"
  obtains b' where "Rerun H cb (Some h) = Ok (b', True)"
proof -
  obtain now target b0 txs b p where b: "NewBlock H now (Address m) (Some h)
      target (coinbaseAmount (Config m)) = Some b0"
    "add_transactions H b0 txs = Ok b" "\<forall>tx \<in> set txs. fair_tx tx" "cb = b\<lparr>Proof := p\<rparr>"
    using assms(1) by (auto simp: built_on_def)
  have "\<forall>tx \<in> set txs. no_overflow tx" using b(3) by (simp add: fair_tx_def)
  then show thesis using mined_reruns [OF b(1,2) _ assms(2), of p] b(4) that by auto
qed

lemma miner_ok_current:
  assumes "miner_ok H m" "CurrentBlock m = Some cb"
  shows "miner_ok H (m\<lparr>CurrentBlock := Some (cb\<lparr>Proof := p\<rparr>)\<rparr>)"
proof -
  let ?m = "m\<lparr>CurrentBlock := Some (cb\<lparr>Proof := p\<rparr>)\<rparr>"
  obtain h where h: "node_ok H m" "chain_ok H m" "pool_ok (Miner_Transactions m)"
      "LastBlock m = Some h" "built_on H m h cb"
    using assms by (auto simp: miner_ok_def)
  have "node_ok H ?m" by (rule node_ok_cong [OF h(1)]) (use node_okD(2,3) [OF h(1)] in simp_all)
  moreover have "built_on H ?m = built_on H m" by (rule built_on_cong) simp_all
  ultimately show ?thesis
    using h built_on_Proof [OF h(5)] by (simp add: miner_ok_def chain_ok_def)
qed

lemma found_block_incoming:
  assumes "miner_ok H m" "CurrentBlock m = Some b" "LastBlock m = Some h" "hasValidProof H b"
    "gold h + reward_of h < 2 ^ 32" "unat (ChainLength h) + 2 < 2 ^ 32"
    "map_get (Blocks m) (GetHashStr H b) = None"
    "\<forall>k g. map_get (Blocks m) k = Some g \<and> map_get (Blocks m) (PrevBlockHash g) = None \<longrightarrow>
       PrevBlockHash g \<noteq> GetHashStr H b"
  shows "incoming_ok H m b" "admissible H m b" "moves_head m b"
proof -
  obtain cb h' where m: "built_on H m h b" "map_get (Blocks m) (GetHashStr H h) = Some h"
    using assms(1-3) by (auto elim!: miner_okD)
  note b = built_on_fields [OF m(1)]
  have len: "unat (ChainLength b) = Suc (unat (ChainLength h))"
    using b(2) assms(6) by (simp add: unat_u32_plus)
  then have gen: "\<not> IsGenesisBlock b" by (auto simp: IsGenesisBlock_def)
  obtain data where "BlockToBytes (block4hash b) = Inr data"
    using assms(4) by (auto simp: hasValidProof_def split: sum.splits)
  then have "fits H b" using b(5) len assms(6) by (auto simp: fits_def GetHash_def)
  moreover have "good_block H b" using b(4,5) by (simp add: good_block_def fair_block_def fair_tx_def)
  ultimately show "incoming_ok H m b"
    using b(1) m(2) len gen assms(8) by (auto simp: incoming_ok_def)
  obtain b' where "Rerun H b (Some h) = Ok (b', True)" using m(1) assms(5) by (rule built_on_reruns)
  then show "admissible H m b" using assms(4,7) b(1) m(2) by (auto simp: admissible_def)
  show "moves_head m b" using assms(3) len by (simp add: moves_head_def word_less_nat_alt)
qed

section \<open>A new miner\<close>

definition fresh_on :: "crypto \<Rightarrow> Block \<Rightarrow> 'a miner_scheme \<Rightarrow> bool" where
  "fresh_on H g m \<longleftrightarrow> LastBlock m = Some g \<and> LastConfirmedBlock m = Some g \<and> Blocks m = [(GetHashStr H g, g)]
     \<and> PendingBlocks m = [] \<and> PendingOutgoingTransactions m = [] \<and> Miner_Transactions m = NewSet
     \<and> 10 \<le> length (Address m)"

lemma fresh_chain:
  assumes "fresh_on H g m" "IsGenesisBlock g" "fits H g" "PrevBlockHash g \<noteq> GetHashStr H g"
  shows "node_ok H m" "chain_ok H m"
proof -
  let ?k = "GetHashStr H g"
  have m: "LastBlock m = Some g" "LastConfirmedBlock m = Some g" "Blocks m = [(?k, g)]"
    using assms(1) by (simp_all add: fresh_on_def)
  have get: "map_get (Blocks m) j = Some v \<longleftrightarrow> j = ?k \<and> v = g" for j v using m(3) by auto
  show "node_ok H m"
  proof (rule node_okI)
    show "rooted (Blocks m)"
      using rooted_put [OF rooted_empty, of ?k g] assms(2) m(3) by (simp add: linked_def map_put_def)
    show "head_ok m"
      using assms(2) m get
      by (auto simp: head_ok_def stored_def IsGenesisBlock_def confirmedBlockHeight_def intro!: confirms.stop)
    show "GetHashStr H v = j" if "map_get (Blocks m) j = Some v" for j v using that get by simp
  qed (use assms(1) in \<open>simp_all add: fresh_on_def map_ok_def\<close>)
  have "map_get (Blocks m) (PrevBlockHash g) = None" using assms(4) m(3) by simp
  then have "stepped (Blocks m) g" using assms(2) by (simp add: stepped_def IsGenesisBlock_def)
  then show "chain_ok H m" using get assms(3) by (simp add: chain_ok_def all_stepped_def)
qed

lemma miner_ok_Emitter: "miner_ok H m \<Longrightarrow> miner_ok H (m\<lparr>Emitter := hs\<rparr>)"
proof -
  let ?m = "m\<lparr>Emitter := hs\<rparr>"
  assume ok: "miner_ok H m"
  then have m: "node_ok H m" by (simp add: miner_ok_def)
  have "node_ok H ?m" by (rule node_ok_cong [OF m]) (use node_okD(2,3) [OF m] in simp_all)
  moreover have "built_on H ?m = built_on H m" by (rule built_on_cong) simp_all
  ultimately show ?thesis using ok by (simp add: miner_ok_def chain_ok_def)
qed

context searcher
begin

lemma first_search:
  assumes m: "fresh_on H g m" and g: "IsGenesisBlock g" "fits H g" "PrevBlockHash g \<noteq> GetHashStr H g"
    and ord: "orders_ok os"
  obtains cb where "start now os m None = Ok (m\<lparr>CurrentBlock := Some cb, Miner_Transactions := \<lparr>items = []\<rparr>\<rparr>)"
    "miner_ok H (m\<lparr>CurrentBlock := Some cb, Miner_Transactions := \<lparr>items = []\<rparr>\<rparr>)"
    "PrevBlockHash cb = GetHashStr H g" "ChainLength cb = 1" "Transactions cb = Some []"
proof -
  have f: "LastBlock m = Some g" "Miner_Transactions m = NewSet" using m by (simp_all add: fresh_on_def)
  have node: "node_ok H m" "chain_ok H m" using fresh_chain [OF m g] .
  obtain k where k: "GetHash H g = Inr k" using g(2) by (auto simp: fits_def)
  have pool: "pool_ok (Miner_Transactions m)" using f(2) by (simp add: pool_ok_def gs.ok_empty gs.view_empty)
  obtain cb where cb: "start now os m None = Ok (m\<lparr>CurrentBlock := Some cb, Miner_Transactions := \<lparr>items = []\<rparr>\<rparr>)"
    "built_on H m g cb"
    using start_effect [where txSet = None, OF f(1) k pool _ ord, of now] by auto
  obtain target where t: "start now os m None = search_with H target now os m None" using searches [OF f(1)] by blast
  have empty: "Transactions cb = Some []" using search_empty [OF cb(1) [unfolded t] _ f(2) ord] by simp
  let ?m = "m\<lparr>CurrentBlock := Some cb, Miner_Transactions := \<lparr>items = []\<rparr>\<rparr>"
  have "node_ok H ?m" by (rule node_ok_cong [OF node(1)]) (use node_okD(2,3) [OF node(1)] in simp_all)
  moreover have "built_on H ?m = built_on H m" by (rule built_on_cong) simp_all
  ultimately have "miner_ok H ?m"
    using f node(2) cb(2) by (simp add: miner_ok_def chain_ok_def pool_ok_def set_ok_def set_view_def)
  then show thesis
    using that [OF cb(1)] built_on_fields [OF cb(2)] g(1) empty by (simp add: IsGenesisBlock_def)
qed

end

lemma NewMiner_fresh:
  assumes "NewMiner H name rounds (Some g) keyPair generated config = Ok m" "GetHash H g = Inr k"
    "10 \<le> length (Address m)"
  shows "fresh_on H g m"
    "Emitter m = [(PROOF_FOUND, ReceiveBlockBytes_handler), (MISSING_BLOCK, ProvideMissingBlock_handler)]"
    "\<exists>pubKey. Address m = GenerateAddress H pubKey"
  using assms GetHashStr_GetHash [OF assms(2)]
  by (auto simp: NewMiner_def Let_def Miner_SetGenesisBlock_def res_simps map_put_def fresh_on_def
      split: sum.splits option.splits)

lemma Initialize_effect:
  assumes "fresh_on H g m" and "IsGenesisBlock g" and "fits H g" and "PrevBlockHash g \<noteq> GetHashStr H g"
    and "orders_ok os"
  obtains m' cb where "Initialize H now os m = Ok (m', [GoEmit START_MINING False])" "miner_ok H m'"
    "LastBlock m' = Some g" "CurrentBlock m' = Some cb" "PrevBlockHash cb = GetHashStr H g"
    "ChainLength cb = 1" "Transactions cb = Some []"
proof -
  obtain cb where cb: "StartNewSearch H now os m None = Ok (m\<lparr>CurrentBlock := Some cb, Miner_Transactions := \<lparr>items = []\<rparr>\<rparr>)"
    "miner_ok H (m\<lparr>CurrentBlock := Some cb, Miner_Transactions := \<lparr>items = []\<rparr>\<rparr>)"
    "PrevBlockHash cb = GetHashStr H g" "ChainLength cb = 1" "Transactions cb = Some []"
    by (rule miner.first_search [OF assms, of now])
  let ?m = "m\<lparr>CurrentBlock := Some cb, Miner_Transactions := \<lparr>items = []\<rparr>\<rparr>"
  have "Initialize H now os m = Ok (?m\<lparr>Emitter := Emitter ?m @ [(START_MINING, FindProof_handler),
      (POST_TRANSACTION, AddTransactionBytes_handler)]\<rparr>, [GoEmit START_MINING False])"
    by (simp add: Initialize_def cb(1))
  then show thesis
    by (rule that [OF _ miner_ok_Emitter [OF cb(2)]]) (use assms(1) cb in \<open>simp_all add: fresh_on_def\<close>)
qed

end
