(* ===== verification/DemoMiner.thy ===== *)
theory DemoMiner
  imports DemoNode Mining
begin

text \<open>
  A miner on the demo genesis block, for the witnesses of the properties of miners.
\<close>

definition demo_orders :: map_orders where
  "demo_orders = \<lparr>block_order = id, synced_order = id, pool_order = id, pointer_order = id\<rparr>"

lemma demo_orders_ok: "orders_ok demo_orders"
  by (simp add: orders_ok_def demo_orders_def is_order_def)

definition demo_config :: BlockchainConfig where
  "demo_config = \<lparr>coinbaseAmount = 25, defaultTxFee = 1, confirmedDepth = 6\<rparr>"

text \<open>A hash whose outputs are long enough for an address.\<close>

definition demo_wide :: crypto where
  "demo_wide = demo_crypto\<lparr>Sum256 := (\<lambda>d. ''12345'' @ Sum256 demo_crypto d)\<rparr>"

lemma demo_wide_hash:
  assumes "plain (PrevBlockHash b)" "Timestamp b = demo_time" "length (PrevBlockHash b) < 32"
  shows "GetHash demo_wide b = Inr (hex_encode (''12345a'' @ PrevBlockHash b))"
    "GetHashStr demo_wide b = hex_encode (''12345a'' @ PrevBlockHash b)"
proof -
  obtain data where "BlockToBytes (block4hash b) = Inr data"
    "Sum256 demo_crypto data = CHR ''a'' # PrevBlockHash b"
    using demo_sum_block [of b "JStr (rfc3339 demo_time)"] assms demo_json_time by auto
  then show "GetHash demo_wide b = Inr (hex_encode (''12345a'' @ PrevBlockHash b))"
    "GetHashStr demo_wide b = hex_encode (''12345a'' @ PrevBlockHash b)"
    by (simp_all add: GetHash_def GetHashStr_def demo_wide_def del: hex_encode_simps)
qed

lemma demo_wide_genesis:
  "fits demo_wide demo_genesis" "GetHashStr demo_wide demo_genesis \<noteq> []"
proof -
  note hash = demo_wide_hash [of demo_genesis]
  have "length (GetHashStr demo_wide demo_genesis) = 12"
    using hash(2) by (simp add: demo_genesis_def length_hex_encode del: hex_encode_simps)
  then show "GetHashStr demo_wide demo_genesis \<noteq> []" by auto
  show "fits demo_wide demo_genesis"
    using hash(1) by (auto simp: fits_def fair_block_def demo_genesis_def)
qed

text \<open>The miner that starts from the demo node.\<close>

definition demo_miner_start :: miner where
  "demo_miner_start = client.extend demo_node
     \<lparr>CurrentBlock = None, MiningRounds = 2000, Miner_Transactions = NewSet\<rparr>"

lemma demo_fits: "fits demo_crypto demo_genesis"
  by (simp add: fits_def fair_block_def)

lemma demo_miner:
  obtains m :: miner and cb where "miner_ok demo_crypto m" "CurrentBlock m = Some cb" "Proof cb = 0"
    "MiningRounds m = 2000" "LastBlock m = Some demo_genesis"
    "\<And>p. hasValidProof demo_crypto (cb\<lparr>Proof := p\<rparr>)" "Blocks m = [(demo_id, demo_genesis)]"
    "GetHashStr demo_crypto cb = demo_hash demo_id" "PrevBlockHash cb = demo_id"
proof -
  let ?s = "demo_miner_start"
  have s: "Blocks ?s = Blocks demo_node" "LastBlock ?s = Some demo_genesis" "LastConfirmedBlock ?s = Some demo_genesis"
    "Address ?s = Address demo_node" "PendingBlocks ?s = []" "PendingOutgoingTransactions ?s = []"
    "Miner_Transactions ?s = NewSet" "MiningRounds ?s = 2000"
    by (simp_all add: demo_miner_start_def client.defs demo_node_def demo_start_def)
  have node: "node_ok demo_crypto ?s"
    using demo_node_ok s unfolding node_ok_def head_ok_def stored_def by simp
  have chain: "chain_ok demo_crypto ?s"
    using s(1) demo_fits by (auto simp: chain_ok_def all_stepped_def stepped_def demo_genesis_def split: if_splits)
  obtain cb where cb: "StartNewSearch demo_crypto demo_time demo_orders ?s None =
      Ok (?s\<lparr>CurrentBlock := Some cb, Miner_Transactions := \<lparr>items = []\<rparr>\<rparr>)"
    "built_on demo_crypto ?s demo_genesis cb" "Proof cb = 0"
    using search_effect [where txSet = None, OF s(2) demo_genesis_id(1) _ _ demo_orders_ok, where now = demo_time] s(7)
    unfolding StartNewSearch_search
    by (auto simp: pool_ok_def gs.ok_empty gs.view_empty)
  let ?m = "?s\<lparr>CurrentBlock := Some cb, Miner_Transactions := \<lparr>items = []\<rparr>\<rparr>"
  have "node_ok demo_crypto ?m" by (rule node_ok_cong [OF node]) (use s in \<open>simp_all add: map_ok_def\<close>)
  moreover have "built_on demo_crypto ?m = built_on demo_crypto ?s" by (rule built_on_cong) simp_all
  moreover have "pool_ok \<lparr>items = []\<rparr>" by (simp add: pool_ok_def set_ok_def set_view_def)
  ultimately have ok: "miner_ok demo_crypto ?m"
    using chain cb(2) s(2) by (simp add: miner_ok_def chain_ok_def)
  have prev: "PrevBlockHash cb = demo_id" using built_on_fields(1) [OF cb(2)] by simp
  have time: "Timestamp cb = demo_time" "Target cb = CalculateTarget POW_LEADING_ZEROES"
    using search_stamp [OF cb(1) [unfolded StartNewSearch_search]] by simp_all
  then have "hasValidProof demo_crypto (cb\<lparr>Proof := p\<rparr>)" for p
    using prev demo_ids by (intro demo_proof) (simp_all add: CalculateTarget_eq POW_LEADING_ZEROES_def)
  moreover have "GetHashStr demo_crypto cb = demo_hash demo_id"
    using demo_hash_block(2) [of cb] prev time(1) demo_ids demo_json_time by simp
  ultimately show thesis using that [OF ok] cb(3) s prev by simp
qed

end
