(* ===== verification/MinerProps.thy ===== *)
theory MinerProps
  imports DemoMiner
begin

text \<open>
  The properties of miners: what they add to a client, the invariant of mining on the head, the
  search for a proof, the block a miner finds, and the transactions a change of chain loses.
\<close>

section \<open>A miner is a client\<close>

text \<open>C35: The miner's copy of ReceiveBlock does what the client's does, and then, when a block was
  stored that is at least as long as the block being mined, cuts over: it collects the transactions
  of the abandoned branch and starts a new search with them.\<close>

theorem Miner_ReceiveBlock_is_client_then_cutover:
  "Miner_ReceiveBlock H now os m b =
     go_bind (ReceiveBlock H (block_order os) m b) (\<lambda>(m', r, effs).
       case r of
         None \<Rightarrow> ret (m', None, effs)
       | Some block \<Rightarrow>
           (case CurrentBlock m' of
              None \<Rightarrow> ret (m', Some block, effs)
            | Some cb \<Rightarrow>
                (if ChainLength cb \<le> ChainLength block
                 then go_bind (SyncTransaction H os m' block) (\<lambda>txSet.
                        go_bind (Some (StartNewSearch H now os m' (Some txSet)))
                          (\<lambda>m''. ret (m'', Some block, effs)))
                 else ret (m', Some block, effs))))"
  unfolding Miner_ReceiveBlock_eq
  by (rule arg_cong [where f = "go_bind (ReceiveBlock H (block_order os) m b)"])
     (auto simp: fun_eq_iff cut_over_def split: option.split)

section \<open>Mining on the head\<close>

text \<open>C36: Receiving a block keeps the miner's invariant, which says that it mines a block built on
  its head, that every stored block is one longer than its stored predecessor, and that its pool and
  its blocks hold no transaction that could panic: ReceiveBlock (the walk of SyncTransaction
  included) returns, stores exactly the admissible blocks, and when the head moves the new search is
  on the new head and the pool is empty; otherwise the current block and the pool stay. The block
  must be well-formed, one longer than its predecessor when that is stored, below the largest
  length, and not the missing predecessor of a stored root.\<close>

theorem Miner_ReceiveBlock_keeps_mining:
  assumes "miner_ok H m" and "incoming_ok H m b" and "orders_ok os"
  shows "\<exists>m' r effs. Miner_ReceiveBlock H now os m b = ret (m', r, effs) \<and> miner_ok H m'
    \<and> (r \<noteq> None \<longleftrightarrow> admissible H m b)
    \<and> (\<exists>h cb. LastBlock m' = Some h \<and> CurrentBlock m' = Some cb
        \<and> PrevBlockHash cb = GetHashStr H h \<and> ChainLength cb = ChainLength h + 1)
    \<and> (if r \<noteq> None \<and> moves_head m b
        then LastBlock m' = r \<and> items (Miner_Transactions m') = []
        else LastBlock m' = LastBlock m \<and> CurrentBlock m' = CurrentBlock m
          \<and> Miner_Transactions m' = Miner_Transactions m)"
proof -
  obtain m' r effs where run: "Miner_ReceiveBlock H now os m b = ret (m', r, effs)" "miner_ok H m'"
    "r \<noteq> None \<longleftrightarrow> admissible H m b"
    "\<And>b'. r = Some b' \<Longrightarrow> header b' = header b \<and> Transactions b' = Transactions b
       \<and> LastBlock m' = (if moves_head m b then Some b' else LastBlock m)
       \<and> Blocks m' = map_put (GetHashStr H b) b' (Blocks m)"
    "\<And>b'. r = Some b' \<Longrightarrow> moves_head m b \<Longrightarrow> items (Miner_Transactions m') = []"
    "\<not> (r \<noteq> None \<and> moves_head m b) \<Longrightarrow> CurrentBlock m' = CurrentBlock m
       \<and> Miner_Transactions m' = Miner_Transactions m"
    "r = None \<Longrightarrow> LastBlock m' = LastBlock m"
    by (rule Miner_ReceiveBlock_effect [OF assms, of now]) (rule that)
  have "\<exists>h cb. LastBlock m' = Some h \<and> CurrentBlock m' = Some cb
      \<and> PrevBlockHash cb = GetHashStr H h \<and> ChainLength cb = ChainLength h + 1"
    using run(2) built_on_fields(1,2) unfolding miner_ok_def by blast
  then show ?thesis
    using run by (intro exI [of _ m'] exI [of _ r] exI [of _ effs]) (cases r; simp)
qed

theorem Miner_ReceiveBlock_keeps_mining_witness:
  "\<exists>(m :: miner) m' r effs. Miner_ReceiveBlock demo_crypto demo_time demo_orders m demo_one = ret (m', Some r, effs)
     \<and> LastBlock m = Some demo_genesis \<and> LastBlock m' = Some r \<and> miner_ok demo_crypto m'"
proof -
  obtain m :: miner and cb where m: "miner_ok demo_crypto m" "LastBlock m = Some demo_genesis"
    "Blocks m = [(demo_id, demo_genesis)]"
    by (rule demo_miner) blast
  have one: "PrevBlockHash demo_one = demo_id" "ChainLength demo_one = 1" "elems (Transactions demo_one) = []"
    "GetHash demo_crypto demo_one = Inr (demo_hash demo_id)"
    by (simp_all add: demo_one_def demo_child_id)
  have root: "PrevBlockHash demo_genesis = []" by (simp add: demo_genesis_def)
  have "incoming_ok demo_crypto m demo_one"
    using m(3) one root demo_one_two(1,5,7)
    by (auto simp: incoming_ok_def fits_def fair_block_def split: if_splits)
  note run = Miner_ReceiveBlock_keeps_mining [OF m(1) this demo_orders_ok, of demo_time]
  have "admissible demo_crypto m demo_one"
    using demo_admissible m(3) by (simp add: admissible_def demo_one_def)
  moreover have "moves_head m demo_one" using m(2) one(2) by (simp add: moves_head_def)
  ultimately show ?thesis using run m(2) by fastforce
qed

section \<open>The search for a proof\<close>

text \<open>C38: FindProof tries the proofs from the current one up to the pause point, in order: it stops at
  the first valid one, which it broadcasts as PROOF_FOUND and receives itself, or else at the pause
  point; nothing but the current block's proof changes, and unless it is asked to run once it asks
  to be called again. (The sum of proof and rounds must not wrap around.)\<close>

theorem FindProof_searches_in_order:
  assumes "CurrentBlock m = Some cb" and "10 \<le> length (Address m)"
    and "unat (Proof cb) + unat (MiningRounds m) < 2 ^ 32"
  shows "\<exists>p effs. FindProof H m oneAndDone = ret (m\<lparr>CurrentBlock := Some (cb\<lparr>Proof := p\<rparr>)\<rparr>, effs)
    \<and> unat (Proof cb) \<le> unat p \<and> unat p \<le> unat (Proof cb) + unat (MiningRounds m)
    \<and> (\<forall>i. Proof cb \<le> i \<and> i < p \<longrightarrow> \<not> hasValidProof H (cb\<lparr>Proof := i\<rparr>))
    \<and> (GoEmit START_MINING False \<in> set effs \<longleftrightarrow> \<not> oneAndDone)
    \<and> (if hasValidProof H (cb\<lparr>Proof := p\<rparr>) \<and> unat p < unat (Proof cb) + unat (MiningRounds m)
        then GoReceiveBlock (cb\<lparr>Proof := p\<rparr>) \<in> set effs
          \<and> (\<exists>data. BlockToBytes (cb\<lparr>Proof := p\<rparr>) = Inr data \<and> Broadcast PROOF_FOUND data \<in> set effs)
        else unat p = unat (Proof cb) + unat (MiningRounds m) \<and> set effs \<subseteq> {GoEmit START_MINING False})"
proof -
  let ?n = "Proof cb + MiningRounds m"
  obtain b found where run: "find_proof H ?n cb = (b, found)" by fastforce
  have n: "unat ?n = unat (Proof cb) + unat (MiningRounds m)" using assms(3) by (simp add: unat_u32_plus)
  note found = find_proof_cases [OF run]
  have b: "b = cb\<lparr>Proof := Proof b\<rparr>" "unat (Proof cb) \<le> unat (Proof b)"
    "\<forall>i. Proof cb \<le> i \<and> i < Proof b \<longrightarrow> \<not> hasValidProof H (cb\<lparr>Proof := i\<rparr>)"
    using found by (simp_all add: word_le_nat_alt)
  show ?thesis
  proof (cases found)
    case True
    then have "hasValidProof H b" "unat (Proof b) < unat ?n" using found by (simp_all add: word_less_nat_alt)
    moreover obtain data where "BlockToBytes b = Inr data" using valid_proof_bytes calculation(1) by blast
    ultimately show ?thesis
      unfolding b(1) [symmetric] using FindProof_effect [OF assms(1) _ run, of oneAndDone] True assms(2) b(2,3) n
      by (intro exI [of _ "Proof b"]) (simp add: b(1) [symmetric])
  next
    case False
    have "max ?n (Proof cb) = ?n" using n by (simp add: max_def word_le_nat_alt unat_u32_zero)
    then have "Proof b = ?n" using found False by simp
    then show ?thesis
      using FindProof_effect [OF assms(1) _ run, of oneAndDone] False assms(2) b n
      by (intro exI [of _ "Proof b"]) (cases oneAndDone; simp add: b(1) [symmetric])
  qed
qed

theorem FindProof_searches_in_order_witness:
  "\<exists>(m :: miner) cb p effs. CurrentBlock m = Some cb \<and> FindProof demo_crypto m True = ret (m\<lparr>CurrentBlock := Some (cb\<lparr>Proof := p\<rparr>)\<rparr>, effs)
     \<and> GoReceiveBlock (cb\<lparr>Proof := p\<rparr>) \<in> set effs"
proof -
  obtain m :: miner and cb where m: "miner_ok demo_crypto m" "CurrentBlock m = Some cb" "Proof cb = 0"
    "MiningRounds m = 2000" "LastBlock m = Some demo_genesis" "\<And>p. hasValidProof demo_crypto (cb\<lparr>Proof := p\<rparr>)"
    by (rule demo_miner) blast
  have "10 \<le> length (Address m)" using m(1) by (simp add: miner_ok_def node_ok_def)
  moreover have "unat (Proof cb) + unat (MiningRounds m) < 2 ^ 32" using m(3,4) by simp
  ultimately obtain p effs where run: "FindProof demo_crypto m True = ret (m\<lparr>CurrentBlock := Some (cb\<lparr>Proof := p\<rparr>)\<rparr>, effs)"
    "\<forall>i. Proof cb \<le> i \<and> i < p \<longrightarrow> \<not> hasValidProof demo_crypto (cb\<lparr>Proof := i\<rparr>)"
    "if hasValidProof demo_crypto (cb\<lparr>Proof := p\<rparr>) \<and> unat p < unat (Proof cb) + unat (MiningRounds m)
        then GoReceiveBlock (cb\<lparr>Proof := p\<rparr>) \<in> set effs
          \<and> (\<exists>data. BlockToBytes (cb\<lparr>Proof := p\<rparr>) = Inr data \<and> Broadcast PROOF_FOUND data \<in> set effs)
        else unat p = unat (Proof cb) + unat (MiningRounds m) \<and> set effs \<subseteq> {GoEmit START_MINING False}"
    using FindProof_searches_in_order [OF m(2), of demo_crypto True] by blast
  have "\<not> Proof cb < p" using run(2) m(6) by auto
  then have "unat p < unat (Proof cb) + unat (MiningRounds m)" using m(3,4) by (simp add: word_less_nat_alt)
  then have "GoReceiveBlock (cb\<lparr>Proof := p\<rparr>) \<in> set effs" using run(3) m(6) by simp
  then show ?thesis using run(1) m(2) by blast
qed

text \<open>The search stalls at the end of the proofs: when the proof plus the rounds wraps around, the
  pause point lies before the proof, FindProof tries nothing, changes nothing and only asks to be
  called again, so it never tries another proof for this block.\<close>

lemma FindProof_stalls:
  assumes "CurrentBlock m = Some cb" and "2 ^ 32 \<le> unat (Proof cb) + unat (MiningRounds m)"
  shows "FindProof H m False = ret (m, [GoEmit START_MINING False])"
proof -
  have "unat (Proof cb + MiningRounds m) = unat (Proof cb) + unat (MiningRounds m) - 2 ^ 32"
    using assms(2) unat_u32_less [of "Proof cb"] unat_u32_less [of "MiningRounds m"]
    by (simp add: unat_word_ariths mod_if del: unat_u32_less)
  then have "\<not> Proof cb < Proof cb + MiningRounds m"
    using unat_u32_less [of "MiningRounds m"] by (simp add: word_less_nat_alt del: unat_u32_less)
  then have "find_proof H (Proof cb + MiningRounds m) cb = (cb, False)"
    by (simp add: find_proof.simps)
  then show ?thesis using assms(1) by (simp add: FindProof_def Let_def)
qed

section \<open>The block a miner finds\<close>

text \<open>C37: A miner's own block becomes its head: in a miner that satisfies the invariant, whose gold
  leaves room for the reward, the block FindProof announces has a valid proof, is broadcast, and is
  stored when the miner receives it; it is then the head, with the same transactions and the miner as
  the one to reward, and the miner goes on mining. (Its hash must be new, and the length not at its
  end.)\<close>

theorem found_block_becomes_head:
  assumes "miner_ok H m" and "LastBlock m = Some h" and "orders_ok os"
    and "gold h + reward_of h < 2 ^ 32" and "unat (ChainLength h) + 2 < 2 ^ 32"
    and "FindProof H m oneAndDone = ret (m', effs)" and "GoReceiveBlock b \<in> set effs"
    and "map_get (Blocks m) (GetHashStr H b) = None"
    and "\<forall>k g. map_get (Blocks m) k = Some g \<and> map_get (Blocks m) (PrevBlockHash g) = None \<longrightarrow>
      PrevBlockHash g \<noteq> GetHashStr H b"
  shows "hasValidProof H b \<and> (\<exists>data. BlockToBytes b = Inr data \<and> Broadcast PROOF_FOUND data \<in> set effs)
    \<and> (\<exists>m'' b' effs'. Miner_ReceiveBlock H now os m' b = ret (m'', Some b', effs') \<and> miner_ok H m''
        \<and> LastBlock m'' = Some b' \<and> Transactions b' = Transactions b
        \<and> GetHash H b' = GetHash H b \<and> RewardAddr b' = Address m)"
proof -
  obtain cb where cb: "CurrentBlock m = Some cb" using assms(1) by (auto elim!: miner_okD)
  have addr: "\<not> length (Address m) < 10" using assms(1) by (simp add: miner_ok_def node_ok_def)
  obtain b1 found where run: "find_proof H (Proof cb + MiningRounds m) cb = (b1, found)" by fastforce
  note eff = FindProof_effect [OF cb addr run, of oneAndDone] and search = find_proof_cases [OF run]
  have found: "found" using eff assms(6,7) by (cases found; cases oneAndDone) auto
  then have eq: "b1 = b" "m' = m\<lparr>CurrentBlock := Some b\<rparr>"
    using eff assms(6,7) by (cases oneAndDone; auto)+
  have "hasValidProof H b1" using search found by simp
  note found = found eq this [unfolded eq]
  then obtain data where data: "BlockToBytes b = Inr data" using valid_proof_bytes by blast
  have "Broadcast PROOF_FOUND data \<in> set effs" using eff found assms(6) data by auto
  moreover have ok: "miner_ok H m'"
    using miner_ok_current [OF assms(1) cb, of "Proof b"] search found(2,3) by simp
  have m': "CurrentBlock m' = Some b" "LastBlock m' = Some h" "Blocks m' = Blocks m" "Address m' = Address m"
    using found(3) assms(2) by simp_all
  note inc = found_block_incoming [OF ok m'(1,2) found(4) assms(4,5), unfolded m'(3), OF assms(8,9)]
  obtain m'' b' effs' where recv: "Miner_ReceiveBlock H now os m' b = ret (m'', Some b', effs')" "miner_ok H m''"
    "header b' = header b" "Transactions b' = Transactions b" "LastBlock m'' = Some b'"
  proof (rule Miner_ReceiveBlock_effect [OF ok inc(1) assms(3), of now])
    fix m'' r effs'
    assume r: "r \<noteq> None \<longleftrightarrow> admissible H m' b"
      "\<And>b'. r = Some b' \<Longrightarrow> header b' = header b \<and> Transactions b' = Transactions b
         \<and> LastBlock m'' = (if moves_head m' b then Some b' else LastBlock m')
         \<and> Blocks m'' = map_put (GetHashStr H b) b' (Blocks m')"
      and run: "Miner_ReceiveBlock H now os m' b = ret (m'', r, effs')" "miner_ok H m''"
    obtain b' where "r = Some b'" using r(1) inc(2) by auto
    then show thesis using that [of m'' b' effs'] run r(2) inc(3) by simp
  qed
  obtain h' where "built_on H m' h' b" using ok m'(1) by (auto elim!: miner_okD)
  then have "RewardAddr b = Address m" using built_on_fields(3) m'(4) by metis
  moreover have "GetHash H b' = GetHash H b" "RewardAddr b' = RewardAddr b"
    using same_hash(1) [OF recv(3,4)] header_fields(6) [OF recv(3)] .
  ultimately show ?thesis
    using found(4) data recv(1,2,4,5)
    by (intro conjI exI [of _ data] exI [of _ m''] exI [of _ b'] exI [of _ effs']) simp_all
qed

theorem found_block_becomes_head_witness:
  "\<exists>(m :: miner) m' effs b m'' b' effs'. FindProof demo_crypto m True = ret (m', effs) \<and> GoReceiveBlock b \<in> set effs
     \<and> Miner_ReceiveBlock demo_crypto demo_time demo_orders m' b = ret (m'', Some b', effs')
     \<and> LastBlock m'' = Some b'"
proof -
  obtain m :: miner and cb where m: "miner_ok demo_crypto m" "CurrentBlock m = Some cb" "Proof cb = 0"
    "MiningRounds m = 2000" "LastBlock m = Some demo_genesis"
    "\<And>p. hasValidProof demo_crypto (cb\<lparr>Proof := p\<rparr>)" "Blocks m = [(demo_id, demo_genesis)]"
    "GetHashStr demo_crypto cb = demo_hash demo_id"
    by (rule demo_miner) blast
  have "hasValidProof demo_crypto cb" using m(6) [of "Proof cb"] by simp
  then have "find_proof demo_crypto (Proof cb + MiningRounds m) cb = (cb, True)"
    using m(3,4) by (simp add: find_proof.simps)
  moreover have "\<not> length (Address m) < 10" using m(1) by (simp add: miner_ok_def node_ok_def)
  ultimately obtain m' effs where run: "FindProof demo_crypto m True = ret (m', effs)" "GoReceiveBlock cb \<in> set effs"
    using FindProof_effect [OF m(2), of demo_crypto cb True True] by auto
  have new: "map_get (Blocks m) (GetHashStr demo_crypto cb) = None" using m(7,8) demo_child_id(3) by simp
  have roots: "\<forall>k g. map_get (Blocks m) k = Some g \<and> map_get (Blocks m) (PrevBlockHash g) = None \<longrightarrow>
      PrevBlockHash g \<noteq> GetHashStr demo_crypto cb"
    using m(7,8) by (auto simp: demo_genesis_def split: if_splits)
  have "gold demo_genesis + reward_of demo_genesis < 2 ^ 32" "unat (ChainLength demo_genesis) + 2 < 2 ^ 32"
    by simp_all
  then show ?thesis
    using found_block_becomes_head [OF m(1,5) demo_orders_ok _ _ run new roots, of demo_time] run by metis
qed

section \<open>Transactions lost when the chain changes\<close>

text \<open>C39: SyncTransaction, where the stored blocks and the current one are each one longer than their
  predecessor, returns; but of the transactions of the blocks it abandons only the last one of each
  block can be in the set it returns, because all pointers taken in one loop are the same. When the
  current block is abandoned for a block of the same length with the same predecessor and without
  transactions, each entry of the set is the last of the abandoned transactions.\<close>

theorem SyncTransaction_keeps_last_only:
  assumes "CurrentBlock m = Some cb" and "all_stepped (Blocks m)" and "stepped (Blocks m) cb"
    and "map_get (Blocks m) k = Some nb" and "ChainLength cb \<le> ChainLength nb" and "orders_ok os"
  shows "\<exists>s. SyncTransaction H os m nb = ret s \<and> set_ok s
    \<and> (\<forall>k tx. set_view s k = Some tx \<longrightarrow> (\<exists>b. (b = cb \<or> stored m b) \<and> last_tx b tx))
    \<and> (ChainLength cb = ChainLength nb \<and> PrevBlockHash cb = PrevBlockHash nb
       \<and> GetHashStr H cb \<noteq> GetHashStr H nb \<and> elems (Transactions nb) = [] \<longrightarrow>
        (\<forall>k tx. set_view s k = Some tx \<longrightarrow> last_tx cb tx)
        \<and> dom (set_view s) = (\<lambda>v. Tx_GetHashStr H (Tx v)) ` set (elems (Transactions cb)))"
proof -
  obtain s where s: "SyncTransaction H os m nb = ret s" "set_ok s"
    "\<And>k tx. set_view s k = Some tx \<Longrightarrow> \<exists>b. (b = cb \<or> stored m b) \<and> last_tx b tx"
    using SyncTransaction_effect [OF assms(1-5), of H os] by blast
  have "is_order (pointer_order os)" using assms(6) by (simp add: orders_ok_def)
  note sibling = SyncTransaction_sibling [OF assms(1) _ _ _ _ this s(1)]
  show ?thesis
    using s sibling by (intro exI [of _ s]) blast
qed

theorem SyncTransaction_keeps_last_only_witness:
  "\<exists>(m :: miner) t1 t2 cb s. t1 \<noteq> t2 \<and> CurrentBlock m = Some cb \<and> map Tx (elems (Transactions cb)) = [t1, t2]
     \<and> SyncTransaction demo_crypto demo_orders m demo_one = ret s
     \<and> set_view s \<noteq> (\<lambda>k. None) \<and> t1 \<notin> ran (set_view s)"
proof -
  let ?t1 = "demo_pay ''alice'' 0 1 [demo_out ''bob'' 30]" and ?t2 = "demo_pay ''bob'' 0 1 [demo_out ''alice'' 30]"
  let ?cb = "(demo_child demo_genesis [?t1, ?t2])\<lparr>Timestamp := demo_time\<lparr>t_year := 10000\<rparr>\<rparr>"
  let ?m = "demo_miner_start\<lparr>CurrentBlock := Some ?cb, Blocks := [(demo_hash demo_id, demo_one), (demo_id, demo_genesis)]\<rparr>"
  have b: "Blocks ?m = [(demo_hash demo_id, demo_one), (demo_id, demo_genesis)]" by simp
  have "GetHashStr demo_crypto ?cb = []"
    by (simp add: GetHashStr_def BlockToBytes_def json_block_def block4hash_def json_time_def)
  then have ids: "GetHashStr demo_crypto ?cb \<noteq> GetHashStr demo_crypto demo_one" using demo_one_two(1) by simp
  have one: "PrevBlockHash demo_one = demo_id" "ChainLength demo_one = 1" "elems (Transactions demo_one) = []"
    by (simp_all add: demo_one_def)
  have root: "PrevBlockHash demo_genesis = []" by (simp add: demo_genesis_def)
  have steps: "all_stepped (Blocks ?m)" "stepped (Blocks ?m) ?cb"
    using one root by (auto simp: all_stepped_def stepped_def split: if_splits)
  have cur: "CurrentBlock ?m = Some ?cb" "map_get (Blocks ?m) (demo_hash demo_id) = Some demo_one" by simp_all
  have len: "ChainLength ?cb = ChainLength demo_one" "PrevBlockHash ?cb = PrevBlockHash demo_one"
    using one by simp_all
  then have "ChainLength ?cb \<le> ChainLength demo_one" by simp
  from SyncTransaction_keeps_last_only [OF cur(1) steps cur(2) this demo_orders_ok, of demo_crypto] len ids one(3)
  obtain s where s: "SyncTransaction demo_crypto demo_orders ?m demo_one = ret s"
    "\<forall>k tx. set_view s k = Some tx \<longrightarrow> last_tx ?cb tx"
    "dom (set_view s) = (\<lambda>v. Tx_GetHashStr demo_crypto (Tx v)) ` set (elems (Transactions ?cb))"
    by blast
  have ne: "?t1 \<noteq> ?t2" by (simp add: demo_pay_def)
  then have "?t1 \<notin> ran (set_view s)" using s(2) by (fastforce simp: ran_def last_tx_def)
  moreover have "dom (set_view s) \<noteq> {}" using s(3) by simp
  then have "set_view s \<noteq> (\<lambda>k. None)" by auto
  ultimately show ?thesis
    using s(1) ne cur(1)
    by (intro exI [of _ ?m] exI [of _ ?t1] exI [of _ ?t2] exI [of _ ?cb] exI [of _ s]) simp
qed

end
