(* ===== verification/JsonRoundtrip.thy ===== *)
theory JsonRoundtrip
  imports GoJson
begin

text \<open>
  The reader of \<open>GoJson\<close> inverts \<open>render\<close>: the document of a value is read as the tokens of that
  value, and these build it again (\<open>parse_render\<close>).
\<close>

section \<open>Reading what \<open>render\<close> writes: strings\<close>

definition prefixed :: "string \<Rightarrow> (string \<times> 'r) option \<Rightarrow> (string \<times> 'r) option" where
  "prefixed p x = (case x of None \<Rightarrow> None | Some (s, r) \<Rightarrow> Some (p @ s, r))"

lemma push_char_prefixed [simp]: "push_char c x = prefixed [c] x"
  by (auto simp: push_char_def prefixed_def split: option.split)

lemma prefixed_simps [simp]:
  "prefixed p (Some (s, r)) = Some (p @ s, r)" "prefixed p None = None"
  "prefixed p (prefixed q x) = prefixed (p @ q) x"
  by (simp_all add: prefixed_def split: option.split prod.split)

lemma prefixed_Nil [simp]: "prefixed [] x = x"
  by (auto simp: prefixed_def split: option.split)

lemma digit_hex_char: "n < 16 \<Longrightarrow> hex_char (digit n)"
proof -
  have "list_all hex_char hextable" by (simp add: hextable_def hex_char_def digit_char_def)
  then show "n < 16 \<Longrightarrow> hex_char (digit n)"
    using digit_hextable [of n] by (auto simp: list_all_iff)
qed

lemma backslash_neq [simp]: "backslash \<noteq> CHR 0x22"
  by (simp add: backslash_def)

lemma lex_unicode:
  assumes "hex_char a" "hex_char b" "hex_char c" "hex_char d"
  shows "lex_string InString (backslash # CHR ''u'' # a # b # c # d # r) =
    prefixed (backslash # CHR ''u'' # a # b # c # [d]) (lex_string InString r)"
  using assms by (simp add: backslash_def)

lemma hex_char_zero [simp]: "hex_char (CHR ''0'')" "hex_char (CHR ''2'')" "hex_char (CHR ''f'')" "hex_char (CHR ''d'')"
  by (simp_all add: hex_char_def digit_char_def)

lemma lex_escape_two:
  "c \<in> set ''bfnrt/'' \<or> c = CHR 0x22 \<or> c = backslash \<Longrightarrow>
    lex_string InString (backslash # c # r) = prefixed [backslash, c] (lex_string InString r)"
  by (auto simp: backslash_def)

lemma lex_escape_ascii:
  assumes "byte c < 128"
  shows "lex_string InString (escape_ascii c @ r) = prefixed (escape_ascii c) (lex_string InString r)"
proof -
  consider (quoted) "c = CHR 0x22 \<or> c = backslash" | (control) "c = CHR 0x0A \<or> c = CHR 0x0D \<or> c = CHR 0x09"
    | (coded) "escape_ascii c = backslash # ''u00'' @ [digit (byte c div 16), digit (byte c mod 16)]"
    | (same) "escape_ascii c = [c]" "32 \<le> byte c" "c \<noteq> CHR 0x22" "c \<noteq> backslash"
    unfolding escape_ascii_def by (smt (verit) not_less)
  then show ?thesis
  proof cases
    case quoted
    then show ?thesis by (auto simp: escape_ascii_def lex_escape_two)
  next
    case control
    then show ?thesis by (auto simp: escape_ascii_def lex_escape_two backslash_def)
  next
    case coded
    then show ?thesis by (simp add: lex_unicode digit_hex_char byte_div_16 del: lex_string.simps)
  next
    case same
    then show ?thesis by simp
  qed
qed

text \<open>A multi-byte sequence is as long as its width says, and has no ASCII byte.\<close>

lemma utf8_width_4:
  "utf8_width (a # b # d # e # bs) =
     (if 240 \<le> a \<and> a \<le> 244 \<and> (a = 240 \<longrightarrow> 144 \<le> b) \<and> (a = 244 \<longrightarrow> b \<le> 143) \<and> 128 \<le> b \<and> b \<le> 191
        \<and> 128 \<le> d \<and> d \<le> 191 \<and> 128 \<le> e \<and> e \<le> 191
      then 4 else utf8_width [a, b, d])"
  by (simp only: utf8_width.simps continuation_def) (rule if_cong; arith)

lemma utf8_width_3:
  "utf8_width [a, b, d] =
     (if 224 \<le> a \<and> a \<le> 239 \<and> (a = 224 \<longrightarrow> 160 \<le> b) \<and> (a = 237 \<longrightarrow> b \<le> 159) \<and> 128 \<le> b \<and> b \<le> 191
        \<and> 128 \<le> d \<and> d \<le> 191
      then 3 else utf8_width [a, b])"
  by (simp only: utf8_width.simps continuation_def) (rule if_cong; arith)

lemmas utf8_widths = utf8_width_4 utf8_width_3

lemma utf8_width_cases:
  assumes "utf8_width (map byte (take 4 (c # cs))) = w" "w \<noteq> 0"
  obtains (two) b r where "cs = b # r" "w = 2" "194 \<le> byte c" "byte c \<le> 223" "128 \<le> byte b" "byte b \<le> 191"
  | (three) b d r where "cs = b # d # r" "w = 3" "224 \<le> byte c" "byte c \<le> 239" "128 \<le> byte b" "byte b \<le> 191"
      "128 \<le> byte d" "byte d \<le> 191" "byte c = 224 \<longrightarrow> 160 \<le> byte b" "byte c = 237 \<longrightarrow> byte b \<le> 159"
  | (four) b d e r where "cs = b # d # e # r" "w = 4" "240 \<le> byte c" "byte c \<le> 244" "128 \<le> byte b" "byte b \<le> 191"
      "128 \<le> byte d" "byte d \<le> 191" "128 \<le> byte e" "byte e \<le> 191"
      "byte c = 240 \<longrightarrow> 144 \<le> byte b" "byte c = 244 \<longrightarrow> byte b \<le> 143"
proof -
  have pair: thesis if "cs = b # r" "utf8_width [byte c, byte b] = w" for b r
    using that assms(2) two by (simp add: continuation_def split: if_splits)
  have triple: thesis if "cs = b # d # r" "utf8_width [byte c, byte b, byte d] = w" for b d r
    using that(2) three [OF that(1)] pair [of b "d # r"] that(1) unfolding utf8_width_3 by (metis (full_types))
  consider "cs = []" | b where "cs = [b]" | b d where "cs = [b, d]" | b d e r where "cs = b # d # e # r"
    by (metis list.exhaust)
  then show thesis
  proof cases
    case 1
    then show ?thesis using assms by simp
  next
    case 2
    then show ?thesis using assms(1) pair by simp
  next
    case 3
    then show ?thesis using assms(1) triple by (simp del: utf8_width.simps)
  next
    case (4 b d e r)
    then have "utf8_width [byte c, byte b, byte d, byte e] = w" using assms(1) by (simp del: utf8_width.simps)
    then show ?thesis
      using four [OF 4] triple [of b d "e # r"] 4 unfolding utf8_width_4 by (metis (full_types))
  qed
qed

lemma utf8_take_high:
  assumes "utf8_width (map byte (take 4 (c # cs))) = w" "w \<noteq> 0" "b \<in> set (take w (c # cs))"
  shows "128 \<le> byte b"
  using assms(1,2) by (cases rule: utf8_width_cases) (use assms(3) in auto)

lemma lex_high: "\<forall>b \<in> set p. 128 \<le> byte b \<Longrightarrow> lex_string InString (p @ r) = prefixed p (lex_string InString r)"
  by (induction p) (auto simp: backslash_def)

lemma lex_escape: "lex_string InString (escape s @ CHR 0x22 # r) = Some (escape s, r)"
proof (induction s rule: escape.induct)
  case 1
  then show ?case by simp
next
  case (2 c cs)
  let ?w = "utf8_width (map byte (take 4 (c # cs)))"
  show ?case
  proof (cases "byte c < 128")
    case True
    with 2(1) show ?thesis by (simp add: lex_escape_ascii)
  next
    case high: False
    consider "?w = 0" | "?w \<noteq> 0" "line_separator (c # cs)" | "?w \<noteq> 0" "\<not> line_separator (c # cs)" by blast
    then show ?thesis
    proof cases
      case 1
      have "escape (c # cs) = backslash # CHR ''u'' # CHR ''f'' # CHR ''f'' # CHR ''f'' # CHR ''d'' # escape cs"
        using high 1 by (simp add: Let_def)
      then show ?thesis using 2(2) [OF high refl 1] by (simp only: append_Cons lex_unicode hex_char_zero) simp
    next
      case 2
      have "escape (c # cs) = backslash # CHR ''u'' # CHR ''2'' # CHR ''0'' # CHR ''2'' # digit (byte (cs ! 1) mod 16)
          # escape (drop 2 cs)"
        using high 2 by (simp add: Let_def)
      then show ?thesis
        using "2.IH"(3) [OF high refl 2] by (simp only: append_Cons lex_unicode hex_char_zero digit_hex_char) simp
    next
      case 3
      have "escape (c # cs) = take ?w (c # cs) @ escape (drop (?w - 1) cs)"
        using high 3 by (simp add: Let_def)
      moreover have "\<forall>b \<in> set (take ?w (c # cs)). 128 \<le> byte b" using utf8_take_high [OF refl 3(1)] by blast
      ultimately show ?thesis using "2.IH"(4) [OF high refl 3] by (simp add: lex_high)
    qed
  qed
qed

section \<open>Reading what \<open>render\<close> writes: tokens\<close>

lemma hextable_nth: "list_all P hextable \<Longrightarrow> n < 16 \<Longrightarrow> P (digit n)"
  using digit_hextable by (auto simp: list_all_iff)

lemma decimal_digit: "n < 10 \<Longrightarrow> digit_char (digit n) \<and> digit_value (digit n) = n \<and> (digit n = CHR ''0'' \<longleftrightarrow> n = 0)"
proof -
  have "\<forall>n \<in> set [0..<10]. digit_char (digit n) \<and> digit_value (digit n) = n \<and> (digit n = CHR ''0'' \<longleftrightarrow> n = 0)"
    by (simp add: digit_def hextable_def digit_char_def digit_value_def upt_rec)
  then show "n < 10 \<Longrightarrow> digit_char (digit n) \<and> digit_value (digit n) = n \<and> (digit n = CHR ''0'' \<longleftrightarrow> n = 0)" by simp
qed

lemma decimal_digits: "c \<in> set (decimal n) \<Longrightarrow> digit_char c"
proof (induction n rule: decimal.induct)
  case (1 n)
  then show ?case
    by (subst (asm) (2) decimal.simps) (auto simp: decimal_digit split: if_splits)
qed

lemma decimal_nonempty [simp]: "decimal n \<noteq> []"
  by (subst decimal.simps) simp

text \<open>The characters that may follow a number in a document.\<close>

definition stops :: "string \<Rightarrow> bool" where
  "stops r \<longleftrightarrow> r = [] \<or> hd r \<in> set '',]}''"

lemma stops_simps [simp]: "stops []" "stops (c # r) \<longleftrightarrow> c \<in> set '',]}''"
  by (simp_all add: stops_def)

lemma num_next_stops: "c \<in> set '',]}'' \<Longrightarrow> num_next st c = None"
  by (cases st) (auto simp: num_next_def digit_char_def)

lemma lex_number_stops: "stops r \<Longrightarrow> num_end st \<Longrightarrow> lex_number st r = Some ([], r)"
  by (cases r) (auto simp: num_next_stops)

lemma lex_digits:
  "\<forall>c \<in> set p. digit_char c \<Longrightarrow> stops r \<Longrightarrow> lex_number NumDigits (p @ r) = Some (p, r)"
  by (induction p) (auto simp: lex_number_stops num_end_def num_next_def push_char_def)

lemma decimal_head:
  "n \<noteq> 0 \<Longrightarrow> \<exists>c cs. decimal n = c # cs \<and> c \<noteq> CHR ''0''"
proof (induction n rule: decimal.induct)
  case (1 n)
  show ?case
  proof (cases "n < 10")
    case True
    then show ?thesis using 1(2) by (subst decimal.simps) (simp add: decimal_digit)
  next
    case False
    then have "n div 10 \<noteq> 0" by simp
    with False 1(1) show ?thesis by (subst decimal.simps) auto
  qed
qed

lemma digit_char_not_minus: "digit_char c \<Longrightarrow> c \<noteq> CHR ''-''"
  by (auto simp: digit_char_def)

lemma lex_decimal:
  assumes "stops r" "st \<in> {NumStart, NumNeg}"
  shows "lex_number st (decimal n @ r) = Some (decimal n, r)"
proof (cases "n = 0")
  case True
  have zero: "num_next st (CHR ''0'') = Some NumZero" using assms(2) by (elim insertE; simp add: num_next_def)
  from True have "decimal n = ''0''" by (subst decimal.simps) (simp add: digit_def hextable_def)
  then show ?thesis
    using assms(2) lex_number_stops [OF assms(1), of NumZero] zero by (simp add: num_end_def)
next
  case False
  then obtain c cs where c: "decimal n = c # cs" "c \<noteq> CHR ''0''" using decimal_head by blast
  then have d: "digit_char c" "\<forall>x \<in> set cs. digit_char x" using decimal_digits [of _ n] by auto
  have "num_next st c = Some NumDigits"
    using assms(2) c(2) d(1) digit_char_not_minus [OF d(1)] by (elim insertE; simp add: num_next_def)
  then show ?thesis using c(1) lex_digits [OF d(2) assms(1)] by (simp add: push_char_def)
qed

lemma lex_decimal_int: "stops r \<Longrightarrow> lex_number NumStart (decimal_int i @ r) = Some (decimal_int i, r)"
  by (simp add: decimal_int_def lex_decimal num_next_def push_char_def)

definition before :: "token list \<Rightarrow> token list option \<Rightarrow> token list option" where
  "before ts = map_option ((@) ts)"

lemma before_simps [simp]: "before ts (before us x) = before (ts @ us) x" "before [] x = x"
  by (cases x; simp add: before_def)+

lemma before_one: "map_option ((#) t) x = before [t] x"
  by (cases x) (simp_all add: before_def)

lemma tokens_step:
  assumes "next_token (c # cs) = Some (t, r)" "\<not> space_char c"
  shows "tokens (c # cs) = before [t] (tokens r)"
  using assms by (subst tokens.simps) (simp add: before_one)

lemma tokens_punctuation: "punctuation c = Some t \<Longrightarrow> tokens (c # cs) = before [t] (tokens cs)"
  by (rule tokens_step) (auto simp: next_token_def punctuation_def space_char_def split: if_splits)

lemma tokens_quote: "tokens (quote s @ r) = before [(TStr (escape s))] (tokens r)"
  unfolding quote_def append_Cons
  by (rule tokens_step) (simp_all add: next_token_def punctuation_def space_char_def lex_escape)

lemma tokens_number:
  assumes "stops r"
  shows "tokens (decimal_int i @ r) = before [(TNum (decimal_int i))] (tokens r)"
proof -
  obtain c cs where c: "decimal_int i = c # cs" by (cases "decimal_int i") (auto simp: decimal_int_def split: if_splits)
  then have "c = CHR ''-'' \<or> decimal (nat i) = c # cs" by (auto simp: decimal_int_def split: if_splits)
  then have "c = CHR ''-'' \<or> digit_char c" using decimal_digits list.set_intros(1) by metis
  then have "punctuation c = None" "\<not> space_char c" "c \<noteq> CHR 0x22" "c = CHR ''-'' \<or> digit_char c"
    by (auto simp: punctuation_def space_char_def digit_char_def)
  then show ?thesis
    using lex_decimal_int [OF assms, of i] unfolding c append_Cons
    by (intro tokens_step) (simp_all add: next_token_def)
qed

lemma tokens_null: "tokens (''null'' @ r) = before [TNull] (tokens r)"
  unfolding append_Cons
  by (rule tokens_step) (simp_all add: next_token_def punctuation_def space_char_def digit_char_def)

text \<open>The tokens of a document and the value they stand for.\<close>

fun comma_tokens :: "token list list \<Rightarrow> token list" where
  "comma_tokens [] = []"
| "comma_tokens [ts] = ts"
| "comma_tokens (ts # us # tss) = ts @ TComma # comma_tokens (us # tss)"

fun tokens_of :: "json \<Rightarrow> token list" where
  "tokens_of JNull = [TNull]"
| "tokens_of (JInt i) = [TNum (decimal_int i)]"
| "tokens_of (JStr s) = [TStr (escape s)]"
| "tokens_of (JArr js) = TOpenArray # comma_tokens (map tokens_of js) @ [TCloseArray]"
| "tokens_of (JObj kvs) =
     TOpenObject # comma_tokens (map (\<lambda>(k, v). TStr (escape k) # TColon # tokens_of v) kvs) @ [TCloseObject]"

fun value_of :: "json \<Rightarrow> jvalue" where
  "value_of JNull = VNull"
| "value_of (JInt i) = VNum (decimal_int i)"
| "value_of (JStr s) = VStr (escape s)"
| "value_of (JArr js) = VArr (map value_of js)"
| "value_of (JObj kvs) = VObj (map (\<lambda>(k, v). (escape k, value_of v)) kvs)"

fun json_depth :: "json \<Rightarrow> nat" where
  "json_depth (JArr js) = Suc (foldr max (map json_depth js) 0)"
| "json_depth (JObj kvs) = Suc (foldr max (map (\<lambda>(k, v). json_depth v) kvs) 0)"
| "json_depth _ = 0"

lemma foldr_max_le: "foldr max ns 0 \<le> (n :: nat) \<longleftrightarrow> (\<forall>m \<in> set ns. m \<le> n)"
  by (induction ns) auto

text \<open>A list of parts each of which is read on its own is read with its commas.\<close>

lemma tokens_commas:
  assumes "\<And>s ts r. (s, ts) \<in> set parts \<Longrightarrow> stops r \<Longrightarrow> tokens (s @ r) = before ts (tokens r)"
    and "stops r"
  shows "tokens (commas (map fst parts) @ r) = before (comma_tokens (map snd parts)) (tokens r)"
  using assms(1)
proof (induction parts)
  case Nil
  then show ?case by simp
next
  case (Cons p ps)
  obtain s ts where p: "p = (s, ts)" by fastforce
  have head: "stops r \<Longrightarrow> tokens (s @ r) = before ts (tokens r)" for r using Cons.prems p by simp
  show ?case
  proof (cases ps)
    case Nil
    then show ?thesis using head [OF assms(2)] p by simp
  next
    case (Cons q qs)
    have "tokens (commas (map fst ps) @ r) = before (comma_tokens (map snd ps)) (tokens r)"
      using Cons.IH Cons.prems by auto
    then show ?thesis
      using p Cons head [of "CHR '','' # commas (map fst ps) @ r"]
      by (simp add: tokens_punctuation [of _ TComma] punctuation_def)
  qed
qed

lemma tokens_render:
  "stops r \<Longrightarrow> tokens (render j @ r) = before (tokens_of j) (tokens r)"
proof (induction j arbitrary: r)
  case JNull
  then show ?case using tokens_null [of r] by simp
next
  case (JInt i)
  then show ?case by (simp add: tokens_number)
next
  case (JStr s)
  then show ?case by (simp add: tokens_quote)
next
  case (JArr js)
  have "tokens (commas (map render js) @ CHR '']'' # r) =
      before (comma_tokens (map tokens_of js)) (tokens (CHR '']'' # r))"
    by (rule tokens_commas [of "map (\<lambda>j. (render j, tokens_of j)) js", simplified, unfolded o_def, simplified])
       (use JArr.IH in auto)
  then show ?case
    by (simp add: tokens_punctuation [of _ TOpenArray] tokens_punctuation [of _ TCloseArray] punctuation_def)
next
  case (JObj kvs)
  let ?s = "\<lambda>(k, v). quote k @ CHR '':'' # render v" and ?t = "\<lambda>(k, v). TStr (escape k) # TColon # tokens_of v"
  have member: "tokens (?s kv @ r) = before (?t kv) (tokens r)" if "kv \<in> set kvs" "stops r" for kv r
  proof -
    obtain k v where kv: "kv = (k, v)" by fastforce
    have "tokens (render v @ r) = before (tokens_of v) (tokens r)" using that JObj.IH [of kv v] kv by simp
    then show ?thesis
      using kv by (simp add: tokens_quote tokens_punctuation [of _ TColon] punctuation_def)
  qed
  have "tokens (commas (map ?s kvs) @ CHR ''}'' # r) =
      before (comma_tokens (map ?t kvs)) (tokens (CHR ''}'' # r))"
    by (rule tokens_commas [of "map (\<lambda>kv. (?s kv, ?t kv)) kvs", simplified, unfolded o_def, simplified])
       (use member in auto)
  then show ?case
    by (simp add: tokens_punctuation [of _ TOpenObject] tokens_punctuation [of _ TCloseObject] punctuation_def)
qed


section \<open>Reading what \<open>render\<close> writes: values\<close>

lemma scan_append: "scan (ts @ us) s = (case scan ts s of None \<Rightarrow> None | Some s' \<Rightarrow> scan us s')"
  by (induction ts arbitrary: s) (simp_all split: option.split)

lemma tokens_of_head: "\<exists>t ts. tokens_of j = t # ts \<and> t \<noteq> TCloseArray"
  by (cases j) auto

lemma scan_element: "t \<noteq> TCloseArray \<Longrightarrow> scan (t # ts) (BeginElement, fs) = scan (t # ts) (BeginValue, fs)"
  by (simp add: scan_step_def)

lemma scan_elements:
  assumes "\<And>j ts frames. j \<in> set js \<Longrightarrow> length frames \<le> n \<Longrightarrow>
      scan (tokens_of j @ ts) (BeginValue, frames) = scan ts (AfterValue (value_of j), frames)"
    and "Suc (length frames) \<le> n" and "js \<noteq> []"
  shows "scan (comma_tokens (map tokens_of js) @ TCloseArray # ts) (BeginValue, InArray vs # frames) =
    scan ts (AfterValue (VArr (vs @ map value_of js)), frames)"
  using assms(1,3)
proof (induction js arbitrary: vs)
  case Nil
  then show ?case by simp
next
  case (Cons j js)
  have j: "scan (tokens_of j @ us) (BeginValue, InArray vs # frames) =
      scan us (AfterValue (value_of j), InArray vs # frames)" for us
    using Cons.prems(1) assms(2) by simp
  show ?case
  proof (cases js)
    case Nil
    then show ?thesis using j by (simp add: scan_step_def)
  next
    case (Cons j' js')
    then have "scan (comma_tokens (map tokens_of js) @ TCloseArray # ts) (BeginValue, InArray (vs @ [value_of j]) # frames)
        = scan ts (AfterValue (VArr ((vs @ [value_of j]) @ map value_of js)), frames)"
      using Cons.IH [of "vs @ [value_of j]"] Cons.prems(1) by simp
    then show ?thesis using j Cons by (simp add: scan_step_def)
  qed
qed

abbreviation member_tokens :: "string \<times> json \<Rightarrow> token list" where
  "member_tokens \<equiv> (\<lambda>(k, v). TStr (escape k) # TColon # tokens_of v)"

abbreviation member_value :: "string \<times> json \<Rightarrow> string \<times> jvalue" where
  "member_value \<equiv> (\<lambda>(k, v). (escape k, value_of v))"

lemma scan_members:
  assumes "\<And>k v ts frames. (k, v) \<in> set kvs \<Longrightarrow> length frames \<le> n \<Longrightarrow>
      scan (tokens_of v @ ts) (BeginValue, frames) = scan ts (AfterValue (value_of v), frames)"
    and "Suc (length frames) \<le> n" and "kvs \<noteq> []"
  shows "scan (comma_tokens (map member_tokens kvs) @ TCloseObject # ts) (BeginKey, InObject vs # frames) =
    scan ts (AfterValue (VObj (vs @ map member_value kvs)), frames)"
  using assms(1,3)
proof (induction kvs arbitrary: vs)
  case Nil
  then show ?case by simp
next
  case (Cons kv kvs)
  obtain k v where kv: "kv = (k, v)" by fastforce
  have v: "scan (tokens_of v @ us) (BeginValue, InMember vs (escape k) # frames) =
      scan us (AfterValue (value_of v), InMember vs (escape k) # frames)" for us
    using Cons.prems(1) [of k v] assms(2) kv by simp
  show ?case
  proof (cases kvs)
    case Nil
    then show ?thesis using v kv by (simp add: scan_step_def)
  next
    case (Cons kv' kvs')
    then have "scan (comma_tokens (map member_tokens kvs) @ TCloseObject # ts) (BeginKey, InObject (vs @ [(escape k, value_of v)]) # frames)
        = scan ts (AfterValue (VObj ((vs @ [(escape k, value_of v)]) @ map member_value kvs)), frames)"
      using Cons.prems(1) by (intro Cons.IH) (metis list.set_intros(2), simp)
    then show ?thesis using v kv Cons by (simp add: scan_step_def)
  qed
qed

lemma scan_first_member:
  "kvs \<noteq> [] \<Longrightarrow> scan (comma_tokens (map member_tokens kvs) @ ts) (BeginMember, fs) =
     scan (comma_tokens (map member_tokens kvs) @ ts) (BeginKey, fs)"
  by (cases "map member_tokens kvs" rule: comma_tokens.cases) (auto simp: scan_step_def split: prod.splits)

lemma scan_tokens_of:
  "length frames + json_depth j \<le> max_depth \<Longrightarrow>
     scan (tokens_of j @ ts) (BeginValue, frames) = scan ts (AfterValue (value_of j), frames)"
proof (induction j arbitrary: frames ts)
  case (JArr js)
  let ?n = "max_depth - foldr max (map json_depth js) 0"
  have open_array: "length frames < max_depth" using JArr.prems by simp
  show ?case
  proof (cases "js = []")
    case True
    then show ?thesis using open_array by (simp add: scan_step_def begin_value_def push_frame_def)
  next
    case False
    have IH: "scan (tokens_of j @ us) (BeginValue, fs) = scan us (AfterValue (value_of j), fs)"
      if "j \<in> set js" "length fs \<le> ?n" for j us fs
    proof (rule JArr.IH [OF that(1)])
      have "json_depth j \<le> foldr max (map json_depth js) 0" using that(1) foldr_max_le [of "map json_depth js"] by auto
      then show "length fs + json_depth j \<le> max_depth" using that(2) JArr.prems by simp
    qed
    obtain j js' where "js = j # js'" using False by (cases js) auto
    then obtain t us where "comma_tokens (map tokens_of js) = t # us" "t \<noteq> TCloseArray"
      using tokens_of_head [of j] by (cases js') auto
    then have "scan (comma_tokens (map tokens_of js) @ TCloseArray # ts) (BeginElement, InArray [] # frames) =
        scan (comma_tokens (map tokens_of js) @ TCloseArray # ts) (BeginValue, InArray [] # frames)"
      using scan_element by simp
    also have "\<dots> = scan ts (AfterValue (VArr (map value_of js)), frames)"
      using scan_elements [of js ?n frames ts "[]"] IH False JArr.prems by simp
    finally show ?thesis using open_array by (simp add: scan_step_def begin_value_def push_frame_def)
  qed
next
  case (JObj kvs)
  let ?n = "max_depth - foldr max (map (\<lambda>(k, v). json_depth v) kvs) 0"
  have open_object: "length frames < max_depth" using JObj.prems by simp
  show ?case
  proof (cases "kvs = []")
    case True
    then show ?thesis using open_object by (simp add: scan_step_def begin_value_def push_frame_def)
  next
    case False
    have IH: "scan (tokens_of v @ us) (BeginValue, fs) = scan us (AfterValue (value_of v), fs)"
      if "(k, v) \<in> set kvs" "length fs \<le> ?n" for k v us fs
    proof (rule JObj.IH [OF that(1)])
      have "json_depth v \<le> foldr max (map (\<lambda>(k, v). json_depth v) kvs) 0"
        using that(1) foldr_max_le [of "map (\<lambda>(k, v). json_depth v) kvs"] by force
      then show "length fs + json_depth v \<le> max_depth" using that(2) JObj.prems by simp
    qed simp
    have "scan (comma_tokens (map member_tokens kvs) @ TCloseObject # ts) (BeginMember, InObject [] # frames) =
        scan ts (AfterValue (VObj (map member_value kvs)), frames)"
      using scan_members [of kvs ?n frames ts "[]"] IH False JObj.prems scan_first_member [OF False] by simp
    then show ?thesis using open_object by (simp add: scan_step_def begin_value_def push_frame_def)
  qed
qed (simp_all add: scan_step_def begin_value_def)

theorem parse_render:
  assumes "json_depth j \<le> max_depth"
  shows "parse_json (render j) = Some (value_of j)"
proof -
  have "tokens (render j) = before (tokens_of j) (tokens [])"
    using tokens_render [of "[]" j] by simp
  also have "\<dots> = Some (tokens_of j)" by (subst tokens.simps) (simp add: before_def)
  finally show ?thesis
    using scan_tokens_of [of "[]" j "[]"] assms by (simp add: parse_json_def)
qed

end
