(* ===== verification/DecodeRoundtrip.thy ===== *)
theory DecodeRoundtrip
  imports GoDecode JsonRoundtrip
begin

text \<open>
  The decoders of \<open>GoDecode\<close> invert the encodings of \<open>GoText\<close>: strings that are valid UTF-8, numbers,
  slices, byte slices, times and structs, each whatever the variable held before.
\<close>

section \<open>Strings\<close>

text \<open>Valid UTF-8, as the encoder checks it.\<close>

fun valid_utf8 :: "string \<Rightarrow> bool" where
  "valid_utf8 [] = True"
| "valid_utf8 (c # cs) =
     (if byte c < 128 then valid_utf8 cs
      else (let w = utf8_width (map byte (take 4 (c # cs))) in w \<noteq> 0 \<and> valid_utf8 (drop (w - 1) cs)))"

lemma unquote_Nil [simp]: "unquote [] = []"
  by (subst unquote.simps) simp

lemma unicode_escape_None:
  "c \<noteq> backslash \<Longrightarrow> unicode_escape (c # r) = None" "d \<noteq> CHR ''u'' \<Longrightarrow> unicode_escape (c # d # r) = None"
  by (simp_all add: unicode_escape_def)

lemma unquote_ascii: "byte c < 128 \<Longrightarrow> c \<noteq> backslash \<Longrightarrow> unquote (c # r) = c # unquote r"
  by (subst unquote.simps) (simp add: unicode_escape_None)

lemma unquote_two: "c \<noteq> CHR ''u'' \<Longrightarrow> unquote (backslash # c # r) = unescape c # unquote r"
  by (subst unquote.simps) (simp add: unicode_escape_None)

lemma unquote_unicode:
  assumes "code_unit [a, b, c, d] < 55296"
  shows "unquote (backslash # CHR ''u'' # a # b # c # d # r) = encode_rune (code_unit [a, b, c, d]) @ unquote r"
proof -
  let ?s = "backslash # CHR ''u'' # a # b # c # d # r"
  have "unicode_escape ?s = Some (code_unit [a, b, c, d])" by (simp add: unicode_escape_def numeral_2_eq_2 eval_nat_numeral)
  moreover have "surrogate_pair (code_unit [a, b, c, d]) r' = None" for r' using assms by (simp add: surrogate_pair_def)
  ultimately show ?thesis by (subst unquote.simps) (simp add: eval_nat_numeral split: option.split)
qed

lemma utf8_width_take:
  assumes "utf8_width (map byte (take 4 (c # cs))) = w" "w \<noteq> 0"
  shows "utf8_width (map byte (take 4 (take w (c # cs) @ r))) = w" "take w (c # cs) \<noteq> []" "length (take w (c # cs)) = w"
proof -
  have "utf8_width (map byte (take 4 (take w (c # cs) @ r))) = w \<and> take w (c # cs) \<noteq> [] \<and> length (take w (c # cs)) = w"
    using assms
  proof (cases rule: utf8_width_cases)
    case (two b t)
    consider "r = []" | x where "r = [x]" | x y r' where "r = x # y # r'" by (metis list.exhaust)
    then show ?thesis
      using two by cases (simp_all add: eval_nat_numeral utf8_widths continuation_def del: utf8_width.simps(1,2))
  next
    case (three b d t)
    then show ?thesis
      by (cases r) (auto simp: eval_nat_numeral utf8_widths simp del: utf8_width.simps(1,2))
  next
    case (four b d e t)
    then show ?thesis by (auto simp: eval_nat_numeral utf8_widths simp del: utf8_width.simps(1,2))
  qed
  then show "utf8_width (map byte (take 4 (take w (c # cs) @ r))) = w" "take w (c # cs) \<noteq> []"
    "length (take w (c # cs)) = w" by auto
qed

lemma unquote_wide:
  assumes "utf8_width (map byte (take 4 (c # s))) = w" "w \<noteq> 0" "\<not> byte c < 128" "c \<noteq> backslash"
  shows "unquote (c # s) = take w (c # s) @ unquote (drop w (c # s))"
  using assms by (subst unquote.simps) (simp add: unicode_escape_None Let_def del: take_Suc_Cons)

lemma unquote_high:
  assumes "utf8_width (map byte (take 4 (c # cs))) = w" "w \<noteq> 0" "\<not> byte c < 128"
  shows "unquote (take w (c # cs) @ r) = take w (c # cs) @ unquote r"
proof -
  note w = utf8_width_take [OF assms(1,2)]
  obtain k where k: "w = Suc k" using assms(2) by (cases w) auto
  have c: "take w (c # cs) @ r = c # take k cs @ r" by (simp add: k)
  have "c \<noteq> backslash" using assms(3) by (auto simp: backslash_def)
  then have "unquote (take w (c # cs) @ r) = take w (take w (c # cs) @ r) @ unquote (drop w (take w (c # cs) @ r))"
    using unquote_wide [of c "take k cs @ r"] assms(2,3) w(1) [of r] unfolding c by blast
  then show ?thesis using w(3) by simp
qed

lemma hex_digit_digit: "n < 16 \<Longrightarrow> hex_digit (digit n) = n"
proof -
  have "\<forall>n \<in> set [0..<16]. hex_digit (digit n) = n"
    by (simp add: digit_def hextable_def hex_digit_def digit_char_def upt_rec)
  then show "n < 16 \<Longrightarrow> hex_digit (digit n) = n" by simp
qed

lemma unquote_escape_ascii:
  assumes "byte c < 128"
  shows "unquote (escape_ascii c @ r) = c # unquote r"
proof -
  consider (quoted) "c = CHR 0x22 \<or> c = backslash" | (control) "c = CHR 0x0A \<or> c = CHR 0x0D \<or> c = CHR 0x09"
    | (coded) "escape_ascii c = backslash # ''u00'' @ [digit (byte c div 16), digit (byte c mod 16)]"
    | (same) "escape_ascii c = [c]" "c \<noteq> backslash"
    unfolding escape_ascii_def by (smt (verit) not_less)
  then show ?thesis
  proof cases
    case quoted
    then have "c \<noteq> CHR ''u''" "escape_ascii c = [backslash, c]" "unescape c = c"
      by (auto simp: escape_ascii_def unescape_def backslash_def)
    then show ?thesis by (simp add: unquote_two)
  next
    case control
    then obtain x where "escape_ascii c = [backslash, x]" "x \<noteq> CHR ''u''" "unescape x = c"
      by (auto simp: escape_ascii_def unescape_def backslash_def)
    then show ?thesis by (simp add: unquote_two)
  next
    case coded
    have unit: "code_unit [CHR ''0'', CHR ''0'', digit (byte c div 16), digit (byte c mod 16)] = byte c"
      using hex_digit_digit [OF byte_div_16, of c] hex_digit_digit [of "byte c mod 16"]
      by (simp add: code_unit_def hex_digit_def digit_char_def)
    then show ?thesis
      using coded assms by (simp add: unquote_unicode encode_rune_def char_bytes_def)
  next
    case same
    then show ?thesis using assms by (simp add: unquote_ascii)
  qed
qed

lemma separator_cases:
  assumes "line_separator (c # cs)"
  obtains x y cs' where "cs = x # y # cs'" "byte c = 226" "byte x = 128" "byte y = 168 \<or> byte y = 169"
proof -
  consider "cs = []" | x where "cs = [x]" | x y cs' where "cs = x # y # cs'" by (metis list.exhaust)
  then show thesis
    using assms that by cases (auto simp: line_separator_def eval_nat_numeral)
qed

lemma separator_bytes:
  assumes "line_separator (c # cs)"
  shows "take 3 (c # cs) = encode_rune (code_unit [CHR ''2'', CHR ''0'', CHR ''2'', digit (byte (cs ! 1) mod 16)])"
    "code_unit [CHR ''2'', CHR ''0'', CHR ''2'', digit (byte (cs ! 1) mod 16)] < 55296"
proof -
  obtain x y cs' where cs: "cs = x # y # cs'" "byte c = 226" "byte x = 128" "byte y = 168 \<or> byte y = 169"
    using assms by (rule separator_cases)
  have unit: "code_unit ''2028'' = 8232" "code_unit ''2029'' = 8233"
    "digit 8 = CHR ''8''" "digit 9 = CHR ''9''"
    by (simp_all add: code_unit_def hex_digit_def digit_char_def digit_def hextable_def)
  have chars: "take 3 (c # cs) = map char_of [226, 128, byte y]"
    using cs(1) cs(2,3) [symmetric] by (simp only: list.map char_of_char) (simp add: eval_nat_numeral)
  from cs(4) have "take 3 (c # cs) = encode_rune (code_unit [CHR ''2'', CHR ''0'', CHR ''2'', digit (byte (cs ! 1) mod 16)])
      \<and> code_unit [CHR ''2'', CHR ''0'', CHR ''2'', digit (byte (cs ! 1) mod 16)] < 55296"
    unfolding chars by (rule disjE) (simp_all add: cs(1) unit encode_rune_def char_bytes_def)
  then show "take 3 (c # cs) = encode_rune (code_unit [CHR ''2'', CHR ''0'', CHR ''2'', digit (byte (cs ! 1) mod 16)])"
    "code_unit [CHR ''2'', CHR ''0'', CHR ''2'', digit (byte (cs ! 1) mod 16)] < 55296" by blast+
qed

theorem unquote_escape: "valid_utf8 s \<Longrightarrow> unquote (escape s) = s"
proof (induction s rule: escape.induct)
  case 1
  then show ?case by simp
next
  case (2 c cs)
  let ?w = "utf8_width (map byte (take 4 (c # cs)))"
  show ?case
  proof (cases "byte c < 128")
    case True
    with 2 show ?thesis by (simp add: unquote_escape_ascii)
  next
    case high: False
    then have w: "?w \<noteq> 0" and valid: "valid_utf8 (drop (?w - 1) cs)" using 2(5) by (auto simp: Let_def simp del: utf8_width.simps)
    show ?thesis
    proof (cases "line_separator (c # cs)")
      case True
      have "byte c = 226" using True by (rule separator_cases)
      with refl [of ?w] w have three: "?w = 3" by (cases rule: utf8_width_cases) simp_all
      have "escape (c # cs) = backslash # CHR ''u'' # CHR ''2'' # CHR ''0'' # CHR ''2'' # digit (byte (cs ! 1) mod 16)
          # escape (drop 2 cs)"
        using high w True by (simp add: Let_def)
      then have "unquote (escape (c # cs)) = take 3 (c # cs) @ unquote (escape (drop 2 cs))"
        by (simp only: unquote_unicode [OF separator_bytes(2) [OF True]] separator_bytes(1) [OF True])
      moreover have "unquote (escape (drop 2 cs)) = drop 2 cs"
        using "2.IH"(3) [OF high refl w True] valid three by simp
      moreover have "drop 2 cs = drop 3 (c # cs)" by simp
      ultimately show ?thesis by (metis append_take_drop_id)
    next
      case False
      have "escape (c # cs) = take ?w (c # cs) @ escape (drop (?w - 1) cs)"
        using high w False by (simp add: Let_def)
      moreover have "drop (?w - 1) cs = drop ?w (c # cs)" using w by (cases ?w) simp_all
      moreover have "unquote (escape (drop (?w - 1) cs)) = drop (?w - 1) cs"
        using "2.IH"(4) [OF high refl w False] valid by simp
      ultimately show ?thesis using unquote_high [OF refl w high] by (metis append_take_drop_id)
    qed
  qed
qed

section \<open>Numbers\<close>

lemma digits_value_append: "digits_value (s @ [c]) = digits_value s * 10 + digit_value c"
  by (simp add: digits_value_def)

lemma digits_value_decimal [simp]: "digits_value (decimal n) = n"
proof (induction n rule: decimal.induct)
  case (1 n)
  then show ?case
    by (subst decimal.simps) (auto simp: decimal_digit digits_value_append, simp add: digits_value_def decimal_digit)
qed

lemma all_digits_decimal [simp]: "all_digits (decimal n)"
  using decimal_digits by (auto simp: all_digits_def list_all_iff)

lemma all_digits_minus [simp]: "\<not> all_digits (CHR ''-'' # s)"
  by (simp add: all_digits_def digit_char_def)

lemma integer_literal_decimal [simp]: "integer_literal (decimal_int i) = Some i"
  by (simp add: integer_literal_def decimal_int_def)

lemma decode_json_u32 [simp]: "decode_u32 (value_of (json_u32 w)) old = Some w"
proof -
  have "decimal_int (uint w) = decimal (unat w)" by (simp add: decimal_int_def not_less)
  then show ?thesis using unat_u32_less [of w] by (simp add: decode_u32_def json_u32_def)
qed

lemma decode_json_int: "- (2 ^ 63) \<le> i \<Longrightarrow> i < 2 ^ 63 \<Longrightarrow> decode_int (value_of (JInt i)) old = Some i"
  by (simp add: decode_int_def)

lemma decode_json_bigint [simp]: "decode_bigint (value_of (JInt i)) old = Some i"
  by (simp add: decode_bigint_def)

lemma decode_json_bigptr [simp]: "decode_bigptr (value_of (json_bigptr p)) old = Some p"
  by (cases p) (simp_all add: decode_bigptr_def json_bigptr_def)

lemma decode_json_string [simp]: "valid_utf8 s \<Longrightarrow> decode_string (value_of (JStr s)) old = Some s"
  by (simp add: decode_string_def unquote_escape)

section \<open>Slices and byte slices\<close>

lemma decode_json_elements:
  assumes "\<And>x old. x \<in> set xs \<Longrightarrow> f (value_of (g x)) old = Some x"
  shows "decode_elements f z (map (\<lambda>x. value_of (g x)) xs) old = Some xs"
  using assms by (induction xs arbitrary: old) simp_all

lemma decode_json_slice:
  assumes "\<And>x old. x \<in> set (elems s) \<Longrightarrow> f (value_of (g x)) old = Some x"
  shows "decode_slice f z (value_of (json_slice g s)) old = Some s"
  using decode_json_elements [of "elems s" f g z "elems old"] assms
  by (cases s) (simp_all add: decode_slice_def json_slice_def o_def)

lemma base64_char:
  assumes "n < 64"
  shows "base64_value (base64_char n) = Some n" "base64_char n \<notin> {CHR ''='', CHR 0x0A, CHR 0x0D}"
    "byte (base64_char n) < 128"
proof -
  let ?abc = "''ABCDEFGHIJKLMNOPQRSTUVWXYZabcdefghijklmnopqrstuvwxyz0123456789+/''"
  have n: "n < length ?abc" using assms by simp
  have "map base64_value ?abc = map Some [0..<64]"
    by (simp add: base64_value_def digit_char_def upt_rec)
  then have "map base64_value ?abc ! n = map Some [0..<64] ! n" by (rule arg_cong)
  then show "base64_value (base64_char n) = Some n" using n by (simp only: nth_map base64_char_def) (simp add: assms)
  have "list_all (\<lambda>c. c \<notin> {CHR ''='', CHR 0x0A, CHR 0x0D} \<and> byte c < 128) ?abc" by simp
  then show "base64_char n \<notin> {CHR ''='', CHR 0x0A, CHR 0x0D}" "byte (base64_char n) < 128"
    using n unfolding base64_char_def list_all_length by blast+
qed

lemma sextet_step: "(n div (64 * k)) * 64 + n div k mod 64 = (n :: nat) div k"
proof -
  have "n div (64 * k) = n div k div 64" by (simp add: div_mult2_eq mult.commute)
  then show ?thesis by simp
qed

lemma sextet_sum:
  "(n div 262144) * 64 + n div 4096 mod 64 = (n :: nat) div 4096"
  "(n div 4096) * 64 + n div 64 mod 64 = (n :: nat) div 64"
  "(n div 64) * 64 + n mod 64 = (n :: nat)"
  using sextet_step [of n 4096] sextet_step [of n 64] by simp_all

lemma split_first: "r < k \<Longrightarrow> (a * k + r) div k = (a :: nat)" "r < k \<Longrightarrow> (a * k + r) mod k = (r :: nat)"
  by simp_all

lemma bytes_three:
  assumes "b < 256" "c < (256 :: nat)"
  shows "(a * 65536 + b * 256 + c) div 65536 = a" "(a * 65536 + b * 256 + c) div 256 mod 256 = b"
    "(a * 65536 + b * 256 + c) mod 256 = c" "a < 256 \<Longrightarrow> a * 65536 + b * 256 + c < 16777216"
proof -
  have r: "b * 256 + c < 65536" using assms by linarith
  show "(a * 65536 + b * 256 + c) div 65536 = a" using split_first(1) [OF r, of a] by (simp add: add.assoc)
  have eq: "a * 65536 + b * 256 + c = (a * 256 + b) * 256 + c" by simp
  show "(a * 65536 + b * 256 + c) mod 256 = c" unfolding eq by (rule split_first(2) [OF assms(2)])
  show "(a * 65536 + b * 256 + c) div 256 mod 256 = b"
    unfolding eq split_first(1) [OF assms(2)] by (rule split_first(2) [OF assms(1)])
  show "a < 256 \<Longrightarrow> a * 65536 + b * 256 + c < 16777216" using r by linarith
qed

lemma sextets_four:
  assumes "n < 16777216"
  shows "sextets [base64_char (n div 262144), base64_char (n div 4096 mod 64),
      base64_char (n div 64 mod 64), base64_char (n mod 64)] = Some n"
    "sextets [base64_char (n div 262144), base64_char (n div 4096 mod 64), base64_char (n div 64 mod 64)] = Some (n div 64)"
    "sextets [base64_char (n div 262144), base64_char (n div 4096 mod 64)] = Some (n div 4096)"
proof -
  have "n div 262144 < 64" using assms by (simp add: less_mult_imp_div_less)
  then show "sextets [base64_char (n div 262144), base64_char (n div 4096 mod 64),
      base64_char (n div 64 mod 64), base64_char (n mod 64)] = Some n"
    "sextets [base64_char (n div 262144), base64_char (n div 4096 mod 64), base64_char (n div 64 mod 64)] = Some (n div 64)"
    "sextets [base64_char (n div 262144), base64_char (n div 4096 mod 64)] = Some (n div 4096)"
    by (simp_all add: sextets_def base64_char(1) sextet_sum)
qed

lemma byte_less [simp]: "byte c < 256"
  by (rule nat_of_char_less_256)

lemma base64_groups_encode: "base64_groups (base64_encode bs) = Some bs"
proof (induction bs rule: base64_encode.induct)
  case 1
  then show ?case by simp
next
  case (2 a)
  let ?n = "byte a * 65536"
  have "?n < 16777216" "?n div 4096 div 16 = byte a" using byte_less [of a] by (simp_all del: byte_less)
  then show ?case using sextets_four(3) [of ?n] by (simp only: base64_encode.simps base64_groups.simps Let_def
        char_bytes_def) simp
next
  case (3 a b)
  let ?n = "byte a * 65536 + byte b * 256"
  note n = bytes_three [of "byte b" 0 "byte a", OF byte_less, simplified]
  have "base64_char (?n div 64 mod 64) \<noteq> CHR ''=''" using base64_char(2) [of "?n div 64 mod 64"] by simp
  moreover have "?n div 64 div 1024 = byte a" "?n div 64 div 4 mod 256 = byte b"
    using n(1,2) by (simp_all add: div_mult2_eq [symmetric])
  then have "char_bytes [?n div 64 div 1024, ?n div 64 div 4 mod 256] = [a, b]"
    unfolding char_bytes_def by (simp only: list.map char_of_char)
  ultimately show ?case
    using sextets_four(2) [OF n(4)] by (simp only: base64_encode.simps base64_groups.simps Let_def if_False option.map)
      (simp only: simp_thms if_True if_False list.inject)
next
  case (4 a b c bs)
  let ?n = "byte a * 65536 + byte b * 256 + byte c"
  note n = bytes_three [of "byte b" "byte c" "byte a", OF byte_less byte_less]
  have "base64_char (?n mod 64) \<noteq> CHR ''=''" using base64_char(2) [of "?n mod 64"] by simp
  then show ?case
    using n sextets_four(1) [OF n(4)] 4 by (simp add: Let_def char_bytes_def)
qed

lemma base64_head: "n < 16777216 \<Longrightarrow> n div 262144 < (64 :: nat)"
  by (simp add: less_mult_imp_div_less)

lemma base64_encode_chars: "\<forall>c \<in> set (base64_encode bs). c \<noteq> CHR 0x0A \<and> c \<noteq> CHR 0x0D \<and> byte c < 128"
proof (induction bs rule: base64_encode.induct)
  case 1
  then show ?case by simp
next
  case (2 a)
  have "byte a * 65536 < (16777216 :: nat)" using byte_less [of a] by (simp del: byte_less)
  from base64_head [OF this] show ?case
    using base64_char(2,3) by (auto simp: Let_def)
next
  case (3 a b)
  have "byte a * 65536 + byte b * 256 < (16777216 :: nat)"
    using bytes_three(4) [of "byte b" 0 "byte a"] by simp
  from base64_head [OF this] show ?case using base64_char(2,3) by (auto simp: Let_def)
next
  case (4 a b c bs)
  have "byte a * 65536 + byte b * 256 + byte c < (16777216 :: nat)"
    using bytes_three(4) [of "byte b" "byte c" "byte a"] by simp
  from base64_head [OF this] show ?case using base64_char(2,3) 4 by (auto simp: Let_def)
qed

lemma valid_ascii: "\<forall>c \<in> set s. byte c < 128 \<Longrightarrow> valid_utf8 s"
  by (induction s) simp_all

lemma decode_json_bytes [simp]: "decode_bytes (value_of (json_bytes b)) old = Some b"
proof (cases b)
  case None
  then show ?thesis by (simp add: decode_bytes_def decode_slice_def json_bytes_def)
next
  case (Some bs)
  have "filter (\<lambda>c. c \<noteq> CHR 0x0A \<and> c \<noteq> CHR 0x0D) (base64_encode bs) = base64_encode bs"
    using base64_encode_chars [of bs] by (auto simp: filter_id_conv)
  moreover have "valid_utf8 (base64_encode bs)" using base64_encode_chars [of bs] by (intro valid_ascii) blast
  ultimately show ?thesis
    using Some by (simp add: decode_bytes_def json_bytes_def base64_decode_def base64_groups_encode unquote_escape)
qed

section \<open>Time\<close>

definition valid_time :: "go_time \<Rightarrow> bool" where
  "valid_time t \<longleftrightarrow> 0 \<le> t_year t \<and> t_year t \<le> 9999 \<and> 1 \<le> t_month t \<and> t_month t \<le> 12 \<and> 1 \<le> t_day t
     \<and> t_day t \<le> days_in (t_month t) (nat (t_year t)) \<and> t_hour t < 24 \<and> t_minute t < 60 \<and> t_second t < 60
     \<and> t_nanosecond t < 10 ^ 9 \<and> \<bar>t_offset t\<bar> < 6000"

lemma length_decimal: "n < 10 ^ w \<Longrightarrow> 0 < w \<Longrightarrow> length (decimal n) \<le> w"
proof (induction n arbitrary: w rule: decimal.induct)
  case (1 n)
  show ?case
  proof (cases "n < 10")
    case True
    then show ?thesis using 1(3) by (subst decimal.simps) simp
  next
    case False
    then obtain v where v: "w = Suc v" "0 < v" using 1(2,3) by (cases w; cases "w - 1") auto
    then have "n div 10 < 10 ^ v" using 1(2) by (simp add: less_mult_imp_div_less mult.commute)
    then show ?thesis using 1(1) [OF False _ v(2)] v(1) False by (subst decimal.simps) simp
  qed
qed

lemma digits_value_zeros: "digits_value (replicate k (CHR ''0'') @ s) = digits_value s"
proof -
  have "foldl (\<lambda>n c. n * 10 + digit_value c) 0 (replicate k (CHR ''0'')) = 0"
    by (induction k) (simp_all add: digit_value_def)
  then show ?thesis by (simp add: digits_value_def)
qed

lemma digits_value_trailing: "digits_value (s @ replicate k (CHR ''0'')) = digits_value s * 10 ^ k"
  by (induction k) (simp_all add: replicate_append_same [symmetric] digits_value_append digit_value_def
      append_assoc [symmetric] del: append_assoc)

lemma padded:
  assumes "n < 10 ^ w" "0 < w"
  shows "length (padded w n) = w" "list_all digit_char (padded w n)" "digits_value (padded w n) = n"
proof -
  have "set (padded w n) \<subseteq> insert (CHR ''0'') (set (decimal n))" by (auto simp: padded_def Let_def)
  then show "list_all digit_char (padded w n)"
    using decimal_digits [of _ n] by (auto simp: list_all_iff digit_char_def)
  show "length (padded w n) = w" "digits_value (padded w n) = n"
    using length_decimal [OF assms] by (simp_all add: padded_def Let_def digits_value_zeros)
qed

lemma padded_cases:
  assumes "n < 100"
  obtains a b where "padded 2 n = [a, b]" "digit_char a" "digit_char b" "digits_value [a, b] = n"
proof -
  have n: "n < 10 ^ 2" using assms by simp
  note p = padded [OF n]
  obtain a b where "padded 2 n = [a, b]" using p(1) by (auto simp: length_Suc_conv numeral_2_eq_2)
  then show thesis using that p by simp
qed

lemma getnum_padded: "n < 100 \<Longrightarrow> getnum f (padded 2 n @ r) = Some (n, r)"
  by (rule padded_cases [of n]) (simp_all add: getnum_def)

lemma getyear_padded: "n < 10000 \<Longrightarrow> getyear (padded 4 n @ r) = Some (n, r)"
  using padded [of n 4] by (simp add: getyear_def)

lemma expect_Cons [simp]: "expect c (c # s) = Some s"
  by (simp add: expect_def)

lemma getzone_zone:
  assumes "\<bar>off\<bar> < 6000"
  shows "getzone (zone off) = Some (off, [])"
proof (cases "off = 0")
  case True
  then show ?thesis by (simp add: zone_def getzone_def)
next
  case False
  let ?h = "nat \<bar>off\<bar> div 60" and ?m = "nat \<bar>off\<bar> mod 60"
  have "nat \<bar>off\<bar> < 6000" using assms by linarith
  then have "?h < 100" by (simp add: less_mult_imp_div_less)
  then obtain a b where h: "padded 2 ?h = [a, b]" "digit_char a" "digit_char b" "digits_value [a, b] = ?h"
    by (rule padded_cases)
  have "?m < 60" by simp
  then have "?m < 100" by linarith
  then obtain d e where m: "padded 2 ?m = [d, e]" "digit_char d" "digit_char e" "digits_value [d, e] = ?m"
    by (rule padded_cases)
  have "?h * 60 + ?m = nat \<bar>off\<bar>" by simp
  then have sum: "int ?h * 60 + int ?m = \<bar>off\<bar>" by linarith
  have "signed_pair [a, b] = Some (int ?h)" "signed_pair [d, e] = Some (int ?m)"
    using h m by (simp_all add: signed_pair_def all_digits_def)
  moreover have "zone off = (if off < 0 then CHR ''-'' else CHR ''+'') # a # b # CHR '':'' # d # e # []"
    using False h(1) m(1) by (simp add: zone_def)
  ultimately show ?thesis using sum by (cases "off < 0") (simp_all add: getzone_def)
qed

lemma zone_head: "\<exists>c s. zone off = c # s \<and> c \<in> set ''Z+-''"
  by (simp add: zone_def)

text \<open>A fraction without its trailing zeros.\<close>

lemma trim_zeros:
  obtains k where "s = rev (dropWhile (\<lambda>c. c = CHR ''0'') (rev s)) @ replicate k (CHR ''0'')"
proof -
  have "\<exists>k. takeWhile (\<lambda>c. c = CHR ''0'') t = replicate k (CHR ''0'')" for t
    by (induction t) (auto intro: exI [of _ "Suc k" for k] exI [of _ 0])
  then obtain k where "takeWhile (\<lambda>c. c = CHR ''0'') (rev s) = replicate k (CHR ''0'')" by blast
  then have "rev s = replicate k (CHR ''0'') @ dropWhile (\<lambda>c. c = CHR ''0'') (rev s)"
    using takeWhile_dropWhile_id [of "\<lambda>c. c = CHR ''0''" "rev s"] by simp
  then have "rev (rev s) = rev (replicate k (CHR ''0'') @ dropWhile (\<lambda>c. c = CHR ''0'') (rev s))" by (rule arg_cong)
  then have "s = rev (dropWhile (\<lambda>c. c = CHR ''0'') (rev s)) @ replicate k (CHR ''0'')"
    unfolding rev_append rev_rev_ident rev_replicate .
  then show thesis by (rule that)
qed

lemma getfraction_digits:
  assumes "d \<noteq> []" "list_all digit_char d" "length d \<le> 9" "s = [] \<or> \<not> digit_char (hd s)"
  shows "getfraction (CHR ''.'' # d @ s) = (digits_value d * 10 ^ (9 - length d), s)"
proof -
  have "takeWhile digit_char (d @ s) = d"
    using assms(2,4) by (cases s) (auto simp: takeWhile_append list_all_iff)
  moreover obtain e d' where "d = e # d'" "digit_char e" using assms(1,2) by (cases d) auto
  ultimately show ?thesis using assms(3) by (simp add: getfraction_def Let_def)
qed

lemma getfraction_fraction:
  assumes "ns < 10 ^ 9"
  shows "getfraction (fraction ns @ zone off) = (ns, zone off)"
proof -
  obtain c z where z: "zone off = c # z" "c \<in> set ''Z+-''" using zone_head by blast
  then have c: "\<not> digit_char c" "c \<notin> set ''.,''" by (auto simp: digit_char_def)
  show ?thesis
  proof (cases "ns = 0")
    case True
    then show ?thesis using z c by (simp add: fraction_def getfraction_def)
  next
    case False
    define d where "d = rev (dropWhile (\<lambda>c. c = CHR ''0'') (rev (padded 9 ns)))"
    obtain k where split: "padded 9 ns = d @ replicate k (CHR ''0'')"
      unfolding d_def by (rule trim_zeros)
    note p = padded [OF assms zero_less_numeral, unfolded split]
    have len: "length d + k = 9" using p(1) by simp
    have val: "digits_value d * 10 ^ k = ns" using p(3) by (simp add: digits_value_trailing)
    have "d \<noteq> []" using val False by (auto simp: digits_value_def)
    moreover have "list_all digit_char d" using p(2) by simp
    moreover have "9 - length d = k" using len by simp
    ultimately have "getfraction (CHR ''.'' # d @ zone off) = (ns, zone off)"
      using getfraction_digits [of d "zone off"] val z c len by simp
    moreover have "fraction ns = CHR ''.'' # d" using False by (simp add: fraction_def d_def)
    ultimately show ?thesis by simp
  qed
qed

theorem parse_rfc3339:
  assumes "valid_time t"
  shows "parse_time (rfc3339 t) = Some t"
proof -
  have t: "int (nat (t_year t)) = t_year t" "nat (t_year t) < 10000" "t_month t < 100" "t_day t < 100"
    "t_hour t < 100" "t_minute t < 100" "t_second t < 100"
    using assms by (auto simp: valid_time_def days_in_def split: if_splits)
  then show ?thesis
    using assms by (simp add: parse_time_def rfc3339_def obind_def getyear_padded getnum_padded
        getfraction_fraction getzone_zone valid_time_def)
qed

text \<open>The text of a time needs no escapes.\<close>

abbreviation ordinary :: "char \<Rightarrow> bool" where
  "ordinary c \<equiv> 32 \<le> byte c \<and> byte c < 128 \<and> c \<notin> {CHR 0x22, backslash, CHR ''<'', CHR ''>'', CHR ''&''}"

lemma printable_no_control:
  "32 \<le> byte c \<Longrightarrow> c \<noteq> CHR 0x0A" "32 \<le> byte c \<Longrightarrow> c \<noteq> CHR 0x0D" "32 \<le> byte c \<Longrightarrow> c \<noteq> CHR 0x09"
  by auto

lemma escape_ascii_ordinary: "ordinary c \<Longrightarrow> escape_ascii c = [c]"
  unfolding escape_ascii_def using printable_no_control [of c] by simp

lemma escape_ordinary: "list_all ordinary s \<Longrightarrow> escape s = s"
proof (induction s)
  case Nil
  then show ?case by simp
next
  case (Cons c s)
  have "ordinary c" using Cons.prems by simp
  then have "escape_ascii c = [c]" "byte c < 128" using escape_ascii_ordinary by blast+
  moreover have "escape s = s" using Cons by simp
  ultimately show ?case by simp
qed

lemma digit_char_ordinary:
  "digit_char c \<Longrightarrow> ordinary c"
  by (auto simp: digit_char_def backslash_def)

lemma padded_digits: "c \<in> set (padded w n) \<Longrightarrow> digit_char c"
  using decimal_digits [of c n] by (auto simp: padded_def Let_def digit_char_def)

lemma fraction_chars: "c \<in> set (fraction ns) \<Longrightarrow> c = CHR ''.'' \<or> digit_char c"
  using padded_digits [of c 9 ns] by (auto simp: fraction_def split: if_splits dest: set_dropWhileD)

lemma escape_rfc3339: "escape (rfc3339 t) = rfc3339 t"
proof (rule escape_ordinary, unfold list_all_iff, rule ballI)
  fix c
  assume "c \<in> set (rfc3339 t)"
  then have "digit_char c \<or> c \<in> set ''-T:.Z+''"
    using padded_digits [of c] fraction_chars [of c] by (auto simp: rfc3339_def zone_def split: if_splits)
  then show "ordinary c"
    using digit_char_ordinary [of c] by (auto simp: backslash_def)
qed

section \<open>Structs\<close>

lemma decode_members_Cons:
  "valid_utf8 k \<Longrightarrow> decode_members members ((escape k, v) # kvs) r =
     (case find_field members k of
        None \<Rightarrow> decode_members members kvs r
      | Some f \<Rightarrow> (case f v r of None \<Rightarrow> None | Some r' \<Rightarrow> decode_members members kvs r'))"
  by (simp add: unquote_escape)

lemma fst_field [simp]: "fst (field n f get put) = n"
  by (simp add: field_def)

lemma find_field_here [simp]:
  "find_field (field n f get put # members) n = Some (\<lambda>v r. map_option (\<lambda>x. put x r) (f v (get r)))"
  by (simp add: find_field_def field_def)

lemma find_field_later [simp]:
  assumes "k \<noteq> n" "k \<in> fst ` set members"
  shows "find_field (field n f get put # members) k = find_field members k"
proof -
  obtain g where "map_of members k = Some g" using assms(2) by (metis domD dom_map_of_conv_image_fst)
  then show ?thesis using assms(1) by (simp add: find_field_def field_def)
qed

end
