(* ===== verification/Codec.thy ===== *)
theory Codec
  imports Client DecodeRoundtrip
begin

text \<open>
  What a node sends is what its peers read: the round trips of transactions, blocks and messages
  through their JSON form, for values whose strings are valid UTF-8 and whose numbers Go's types
  hold, and the request for a missing block with its answer.
\<close>

section \<open>Depth of the documents\<close>

lemma json_depth_slice:
  assumes "\<And>x. json_depth (f x) \<le> n"
  shows "json_depth (json_slice f s) \<le> Suc n"
proof (cases s)
  case (Some xs)
  have "foldr max (map json_depth (map f xs)) 0 \<le> n" unfolding foldr_max_le using assms by auto
  then show ?thesis using Some by (simp add: json_slice_def)
qed (simp add: json_slice_def)

lemma json_depth_leaves [simp]:
  "json_depth (json_u32 w) = 0" "json_depth (json_bytes b) = 0" "json_depth (json_bigptr p) = 0"
  by (simp_all add: json_u32_def json_bytes_def json_bigptr_def split: option.split)

lemma json_depth_pubkey: "json_depth (json_pubkey k) \<le> 1"
  by (simp add: json_pubkey_def)

lemma json_depth_output: "json_depth (json_output v) \<le> 1"
  by (simp add: json_output_def)

lemma json_depth_info: "json_depth (json_info t) \<le> 3"
  using json_depth_slice [of json_output 1 "Outputs t", OF json_depth_output] json_depth_pubkey [of "Pubkey t"]
  by (simp add: json_info_def)

lemma json_depth_transaction: "json_depth (json_transaction tx) \<le> 4"
  using json_depth_info [of "Info tx"] by (simp add: json_transaction_def)

lemma json_depth_rows:
  "json_depth (json_transaction_type v) \<le> 5" "json_depth (json_balance r) \<le> 5" "json_depth (json_next_nonce n) \<le> 5"
  using json_depth_transaction [of "Tx v"]
  by (simp_all add: json_transaction_type_def json_balance_def json_next_nonce_def)

lemma json_depth_block: "json_block b = Inr j \<Longrightarrow> json_depth j \<le> 7"
  using json_depth_slice [of json_transaction_type 5 "Transactions b", OF json_depth_rows(1)]
    json_depth_slice [of json_balance 5 "Balances b", OF json_depth_rows(2)]
    json_depth_slice [of json_next_nonce 5 "NextNonce b", OF json_depth_rows(3)]
  by (auto simp: json_block_def json_time_def split: if_splits)

text \<open>An encoder and a decoder that fit give a round trip through the text.\<close>

lemma Unmarshal_render:
  assumes "json_depth j \<le> 7" and "f (value_of j) zero = Some x"
  shows "Unmarshal f zero (render j) = Inr x"
  using assms by (simp add: Unmarshal_def parse_render max_depth_def)

section \<open>Values that survive\<close>

lemma plain_valid: "plain s \<Longrightarrow> valid_utf8 s"
  by (rule valid_ascii) (auto simp: plain_def dest!: subsetD hextable_chars)

definition sendable_key :: "PublicKey \<Rightarrow> bool" where
  "sendable_key k \<longleftrightarrow> - (2 ^ 63) \<le> E k \<and> E k < 2 ^ 63"

definition sendable_tx :: "Transaction \<Rightarrow> bool" where
  "sendable_tx tx \<longleftrightarrow> valid_utf8 (From (Info tx)) \<and> sendable_key (Pubkey (Info tx))
     \<and> (\<forall>v \<in> set (tx_outputs tx). valid_utf8 (Out_Address v))"

definition sendable_block :: "Block \<Rightarrow> bool" where
  "sendable_block b \<longleftrightarrow> valid_utf8 (PrevBlockHash b) \<and> valid_utf8 (RewardAddr b) \<and> valid_time (Timestamp b)
     \<and> (\<forall>r \<in> set (elems (Balances b)). valid_utf8 (Balance_id r))
     \<and> (\<forall>r \<in> set (elems (NextNonce b)). valid_utf8 (Nonce_id r))
     \<and> (\<forall>v \<in> set (elems (Transactions b)). valid_utf8 (Tx_id v) \<and> sendable_tx (Tx v))"

section \<open>Decoding what was encoded\<close>

lemma decode_json_pubkey: "sendable_key k \<Longrightarrow> decode_pubkey (value_of (json_pubkey k)) old = Some k"
  by (simp add: decode_pubkey_def decode_struct_def json_pubkey_def decode_members_Cons decode_json_int
      sendable_key_def del: value_of.simps(2) escape.simps decode_members.simps(2))

lemma decode_json_output:
  "valid_utf8 (Out_Address v) \<Longrightarrow> decode_output (value_of (json_output v)) old = Some v"
  by (simp add: decode_output_def decode_struct_def json_output_def decode_members_Cons del: value_of.simps(3) escape.simps decode_members.simps(2))

lemma decode_json_info:
  assumes "valid_utf8 (From t)" "sendable_key (Pubkey t)" "\<forall>v \<in> set (elems (Outputs t)). valid_utf8 (Out_Address v)"
  shows "decode_info (value_of (json_info t)) old = Some t"
  using assms decode_json_slice [of "Outputs t" decode_output json_output zero_output] decode_json_output
  by (simp add: decode_info_def decode_struct_def json_info_def decode_members_Cons decode_json_pubkey
      del: value_of.simps(3) escape.simps decode_members.simps(2))

lemma decode_json_transaction:
  "sendable_tx tx \<Longrightarrow> decode_transaction (value_of (json_transaction tx)) old = Some tx"
  by (simp add: decode_transaction_def decode_struct_def json_transaction_def decode_members_Cons
      decode_json_info sendable_tx_def del: escape.simps decode_members.simps(2))

lemma decode_json_transaction_type:
  "valid_utf8 (Tx_id v) \<Longrightarrow> sendable_tx (Tx v) \<Longrightarrow>
    decode_transaction_type (value_of (json_transaction_type v)) old = Some v"
  by (simp add: decode_transaction_type_def decode_struct_def json_transaction_type_def decode_members_Cons
      decode_json_transaction del: value_of.simps(3) escape.simps decode_members.simps(2))

lemma decode_json_balance:
  "valid_utf8 (Balance_id r) \<Longrightarrow> decode_balance (value_of (json_balance r)) old = Some r"
  by (simp add: decode_balance_def decode_struct_def json_balance_def decode_members_Cons del: value_of.simps(3) escape.simps decode_members.simps(2))

lemma decode_json_next_nonce:
  "valid_utf8 (Nonce_id r) \<Longrightarrow> decode_next_nonce (value_of (json_next_nonce r)) old = Some r"
  by (simp add: decode_next_nonce_def decode_struct_def json_next_nonce_def decode_members_Cons del: value_of.simps(3) escape.simps decode_members.simps(2))


lemma decode_json_block:
  assumes "sendable_block b" "json_block b = Inr j"
  shows "decode_block (value_of j) old = Some b"
proof -
  have time: "json_time (Timestamp b) = Inr (JStr (rfc3339 (Timestamp b)))"
    using assms by (simp add: sendable_block_def valid_time_def json_time_def)
  have stamp: "decode_time (value_of (JStr (rfc3339 (Timestamp b)))) t = Some (Timestamp b)" for t
    using assms by (simp add: decode_time_def parse_rfc3339 escape_rfc3339 sendable_block_def)
  have tables:
    "decode_slice decode_balance zero_balance (value_of (json_slice json_balance (Balances b))) x = Some (Balances b)"
    "decode_slice decode_next_nonce zero_next_nonce (value_of (json_slice json_next_nonce (NextNonce b))) y = Some (NextNonce b)"
    "decode_slice decode_transaction_type zero_transaction_type
       (value_of (json_slice json_transaction_type (Transactions b))) z = Some (Transactions b)" for x y z
    using assms(1)
    by (auto intro!: decode_json_slice decode_json_balance decode_json_next_nonce decode_json_transaction_type
        simp: sendable_block_def)
  have "valid_utf8 (PrevBlockHash b)" "valid_utf8 (RewardAddr b)" using assms(1) by (simp_all add: sendable_block_def)
  moreover have j: "j = JObj
          [(''PrevBlockHash'', JStr (PrevBlockHash b)), (''Target'', JInt (Target b)),
           (''Proof'', json_u32 (Proof b)),
           (''Balances'', json_slice json_balance (Balances b)),
           (''NextNonce'', json_slice json_next_nonce (NextNonce b)),
           (''Transactions'', json_slice json_transaction_type (Transactions b)),
           (''ChainLength'', json_u32 (ChainLength b)), (''Timestamp'', JStr (rfc3339 (Timestamp b))),
           (''RewardAddr'', JStr (RewardAddr b)),
           (''CoinbaseReward'', json_u32 (CoinbaseReward b))]"
    using assms(2) time by (simp add: json_block_def)
  ultimately show ?thesis
    unfolding j
    by (simp add: decode_block_def decode_struct_def decode_members_Cons stamp tables
        del: value_of.simps(2,3) escape.simps decode_members.simps(2))
qed

lemma decode_json_message:
  "valid_utf8 (Msg_Address x) \<Longrightarrow> valid_utf8 (Msg_PrevBlockHash x) \<Longrightarrow>
    decode_message (value_of (json_message x)) old = Some x"
  by (simp add: decode_message_def decode_struct_def json_message_def decode_members_Cons
      del: value_of.simps(3) escape.simps decode_members.simps(2))

section \<open>What is sent is what is read\<close>

lemma sendable_bytes:
  assumes "sendable_block b"
  obtains data where "BlockToBytes b = Inr data" "BytesToBlock data = Inr b"
proof -
  have "\<exists>t. json_time (Timestamp b) = Inr t"
    using assms by (simp add: sendable_block_def valid_time_def json_time_def)
  then obtain j where j: "json_block b = Inr j" by (auto simp: json_block_def)
  have "BytesToBlock (render j) = Inr b"
    unfolding BytesToBlock_def by (rule Unmarshal_render, rule json_depth_block [OF j], rule decode_json_block [OF assms j])
  then show thesis using that j by (simp add: BlockToBytes_def)
qed

lemma BytesToBlock_sent: "sendable_block b \<Longrightarrow> BlockToBytes b = Inr data \<Longrightarrow> BytesToBlock data = Inr b"
  by (metis sendable_bytes sum.inject(2))

lemma BytesToTransaction_sent: "sendable_tx tx \<Longrightarrow> BytesToTransaction (render (json_transaction tx)) = Inr tx"
  using json_depth_transaction [of tx] unfolding BytesToTransaction_def
  by (intro Unmarshal_render decode_json_transaction) simp_all

lemma BytesToMessage_sent:
  assumes "valid_utf8 (Msg_Address x)" "valid_utf8 (Msg_PrevBlockHash x)"
  shows "BytesToMessage (render (json_message x)) = Inr x"
proof -
  have "json_depth (json_message x) \<le> 7" by (simp add: json_message_def)
  then show ?thesis
    unfolding BytesToMessage_def by (rule Unmarshal_render) (rule decode_json_message [OF assms])
qed

end
