(* ===== verification/CodecProps.thy ===== *)
theory CodecProps
  imports Codec DemoMiner
begin

text \<open>
  Properties of the messages: what is sent is what is received, a request for a missing block is
  answered, and what a message of four letters can do.
\<close>

section \<open>Round trips\<close>

text \<open>C9: A transaction survives the wire: TransactionToBytes followed by BytesToTransaction gives the
  same transaction, so a miner that receives the bytes puts that transaction in its pool; likewise
  for the part that is signed. (Strings must be valid UTF-8, and the exponent an int.)\<close>

theorem transaction_roundtrip:
  assumes "sendable_tx tx"
  shows "(\<exists>data. TransactionToBytes tx = Inr data \<and> BytesToTransaction data = Inr tx
      \<and> (\<forall>m :: 'a miner_scheme. AddTransactionBytes H m data = Ok (Miner_AddTransaction H m tx)))
    \<and> (\<exists>data. TransactionInfoToBytes (Info tx) = Inr data \<and> BytesToTransactionInfo data = Inr (Info tx))"
proof (rule conjI)
  have depth: "json_depth (json_info (Info tx)) \<le> 7" using json_depth_info [of "Info tx"] by simp
  have "BytesToTransaction (render (json_transaction tx)) = Inr tx" using assms by (rule BytesToTransaction_sent)
  then show "\<exists>data. TransactionToBytes tx = Inr data \<and> BytesToTransaction data = Inr tx
      \<and> (\<forall>m :: 'a miner_scheme. AddTransactionBytes H m data = Ok (Miner_AddTransaction H m tx))"
    by (simp add: TransactionToBytes_def AddTransactionBytes_def)
  have "BytesToTransactionInfo (render (json_info (Info tx))) = Inr (Info tx)"
    unfolding BytesToTransactionInfo_def
    by (rule Unmarshal_render, rule depth, rule decode_json_info) (use assms in \<open>simp_all add: sendable_tx_def\<close>)
  then show "\<exists>data. TransactionInfoToBytes (Info tx) = Inr data \<and> BytesToTransactionInfo data = Inr (Info tx)"
    by (simp add: TransactionInfoToBytes_def)
qed

theorem transaction_roundtrip_witness:
  "BytesToTransaction (render (json_transaction (demo_pay ''alice'' 0 1 [demo_out ''bob'' 30])))
     = Inr (demo_pay ''alice'' 0 1 [demo_out ''bob'' 30])"
proof -
  have "sendable_tx (demo_pay ''alice'' 0 1 [demo_out ''bob'' 30])"
    by (simp add: sendable_tx_def sendable_key_def) (simp add: demo_pay_def demo_key_def)
  from transaction_roundtrip [OF this, of demo_crypto] show ?thesis by (auto simp: TransactionToBytes_def)
qed

text \<open>C8: A block survives the wire: BlockToBytes followed by BytesToBlock gives the same block, tables,
  time stamp and target included, so a client or a miner that receives the bytes does what it does
  with the block itself.\<close>

theorem block_roundtrip:
  assumes "sendable_block b"
  shows "\<exists>data. BlockToBytes b = Inr data \<and> BytesToBlock data = Inr b
    \<and> (\<forall>ord c. ReceiveBlockBytes H ord c data = ReceiveBlock H ord c b)
    \<and> (\<forall>now os m. Miner_ReceiveBlockBytes H now os m data = Miner_ReceiveBlock H now os m b)"
proof -
  obtain data where "BlockToBytes b = Inr data" "BytesToBlock data = Inr b"
    using assms by (rule sendable_bytes)
  then show ?thesis by (simp add: ReceiveBlockBytes_def Miner_ReceiveBlockBytes_def)
qed

lemma demo_valid_time: "valid_time demo_time"
  by (simp add: valid_time_def demo_time_def days_in_def)

lemma demo_sendable: "sendable_block demo_genesis" "sendable_block demo_one"
  using demo_valid_time plain_valid [OF demo_ids(2)]
  by (simp add: sendable_block_def demo_genesis_def, simp add: sendable_block_def demo_one_def, simp add: demo_child_def)

theorem block_roundtrip_witness: "\<exists>data. BlockToBytes demo_one = Inr data \<and> BytesToBlock data = Inr demo_one"
  using block_roundtrip [OF demo_sendable(2), of demo_crypto] by blast

section \<open>Asking for a missing block\<close>

text \<open>C10: A request for a missing block is answered: what RequestMissingBlock broadcasts for a block
  whose predecessor it lacks, a node that stores that predecessor reads as the same request, and
  sends the predecessor to the address of the asking node, which receives exactly that block.\<close>

theorem missing_block_is_provided:
  assumes "10 \<le> length (Address c)" and "10 \<le> length (Address p)"
    and "valid_utf8 (Address c)" and "valid_utf8 (PrevBlockHash b)"
    and "map_get (Blocks p) (PrevBlockHash b) = Some g" and "sendable_block g"
  shows "\<exists>req data. RequestMissingBlock c b = ret [Broadcast MISSING_BLOCK req]
    \<and> ProvideMissingBlock p req = ret [SendMessage (Address c) PROOF_FOUND data]
    \<and> ReceiveBlockBytes H ord c data = ReceiveBlock H ord c g"
proof -
  let ?msg = "\<lparr>Msg_Address = Address c, Msg_PrevBlockHash = PrevBlockHash b\<rparr>"
  have "BytesToMessage (render (json_message ?msg)) = Inr ?msg"
    by (rule BytesToMessage_sent) (use assms in simp_all)
  moreover obtain data where data: "BlockToBytes g = Inr data" "BytesToBlock data = Inr g"
    using assms(6) by (rule sendable_bytes)
  moreover have "ReceiveBlockBytes H ord c data = ReceiveBlock H ord c g"
    using data(2) by (simp add: ReceiveBlockBytes_def)
  ultimately show ?thesis
    using assms(1,2,5) by (simp add: RequestMissingBlock_def ProvideMissingBlock_def Log_def)
qed

theorem missing_block_is_provided_witness:
  "\<exists>req data. RequestMissingBlock demo_node demo_one = ret [Broadcast MISSING_BLOCK req]
    \<and> ProvideMissingBlock demo_node req = ret [SendMessage ''alice-alice'' PROOF_FOUND data]
    \<and> ReceiveBlockBytes demo_crypto id demo_node data = ReceiveBlock demo_crypto id demo_node demo_genesis"
proof -
  have b: "PrevBlockHash demo_one = demo_id" by (simp add: demo_one_def)
  have "map_get (Blocks demo_node) (PrevBlockHash demo_one) = Some demo_genesis" by (simp add: b)
  moreover have "valid_utf8 (PrevBlockHash demo_one)" unfolding b by (rule plain_valid [OF demo_ids(2)])
  ultimately show ?thesis
    using missing_block_is_provided [of demo_node demo_node demo_one, OF _ _ _ _ _ demo_sendable(1), of demo_crypto id]
    by simp
qed

section \<open>The message null\<close>

text \<open>The four bytes \<open>null\<close> are a block: they decode to the zero block, which counts as a genesis
  block because its length is 0, needs no proof and has no transactions, so any node that satisfies
  the store invariant stores it when it receives them (unless it has it already).\<close>

lemma null_is_stored:
  assumes "node_ok H c" and "map_get (Blocks c) (GetHashStr H zero_block) = None"
  shows "BytesToBlock ''null'' = Inr zero_block
    \<and> (\<exists>c' effs. ReceiveBlockBytes H ord c ''null'' = ret (c', Some zero_block, effs)
         \<and> map_get (Blocks c') (GetHashStr H zero_block) = Some zero_block)"
proof -
  have null: "BytesToBlock ''null'' = Inr zero_block"
    using parse_render [of JNull]
    by (simp add: BytesToBlock_def Unmarshal_def max_depth_def decode_block_def decode_struct_def)
  have zero: "IsGenesisBlock zero_block" by (simp add: zero_block_def IsGenesisBlock_def)
  then have "ReceiveBlock H ord c zero_block = accept_block H ord c zero_block"
    using assms(2) by (simp add: ReceiveBlock_def Let_def)
  moreover have "linked (Blocks c) zero_block" using zero by (simp add: linked_def)
  ultimately show ?thesis
    using null by (auto intro: accept_block_effect [OF assms, of ord] simp: ReceiveBlockBytes_def)
qed

end
