(* ===== verification/FakeNet.thy ===== *)
theory FakeNet
  imports GoSet
begin

text \<open>
  \<open>blockchain/FakeNet.go\<close>: the clients of a simulated network by address. A client is a reference
  (the interface's \<open>GetAddress\<close> is the argument \<open>addr\<close>); what a message becomes is the list of the
  calls \<open>client.GetEmitter().Emit(msg, data)\<close>, each in a goroutine of its own. The mutex makes each
  operation a step. The locale is the part both networks share: \<open>RealNet\<close> provides it too.
\<close>

section \<open>The interface\<close>

lemma find_the:
  assumes "e \<in> set es" "p e" "\<forall>x \<in> set es. p x \<longrightarrow> x = e"
  shows "List.find p es = Some e"
proof (cases "List.find p es")
  case None
  then show ?thesis using assms(1,2) by (simp add: find_None_iff)
next
  case (Some x)
  then have "x \<in> set es" "p x" by (auto simp: find_Some_iff)
  then show ?thesis using Some assms(3) by simp
qed

locale registry =
  fixes empty :: "'n"
    and register :: "'n \<Rightarrow> 'e \<Rightarrow> 'n"
    and recognizes :: "'n \<Rightarrow> 'e \<Rightarrow> bool"
    and entry :: "'n \<Rightarrow> string \<Rightarrow> 'e option"
    and address :: "'e \<Rightarrow> string"
  assumes entry_empty: "entry empty k = None"
    and entry_register: "entry (register n e) k = (if k = address e then Some e else entry n k)"
    and recognizes_entry: "recognizes n e \<longleftrightarrow> entry n (address e) \<noteq> None"
begin

lemma recognizes_register: "recognizes (register n e) e' \<longleftrightarrow> address e' = address e \<or> recognizes n e'"
  by (simp add: recognizes_entry entry_register)

lemma not_recognizes_empty: "\<not> recognizes empty e"
  by (simp add: recognizes_entry entry_empty)

lemma recognizes_register_all:
  "recognizes (foldl register n es) e \<longleftrightarrow> address e \<in> address ` set es \<or> recognizes n e"
  by (induction es arbitrary: n) (auto simp: recognizes_register)

text \<open>The last registration of an address counts.\<close>

lemma entry_register_all:
  "entry (foldl register n es) k =
     (case List.find (\<lambda>e. address e = k) (rev es) of None \<Rightarrow> entry n k | Some e \<Rightarrow> Some e)"
  by (induction es arbitrary: n) (auto simp: entry_register find_append split: option.split)

lemma entry_register_all_distinct:
  assumes "distinct (map address es)" "e \<in> set es"
  shows "entry (foldl register n es) (address e) = Some e"
proof -
  have "\<forall>e' \<in> set (rev es). address e' = address e \<longrightarrow> e' = e"
    using assms by (auto simp: distinct_map inj_on_def)
  then have "List.find (\<lambda>e'. address e' = address e) (rev es) = Some e"
    using assms(2) by (intro find_the) simp_all
  then show ?thesis by (simp add: entry_register_all)
qed

end

section \<open>The model\<close>

record 'c fakenet =
  Clients :: "'c gomap"

definition NewFakeNet :: "'c fakenet" where
  "NewFakeNet = \<lparr>Clients = []\<rparr>"

definition Register :: "('c \<Rightarrow> string) \<Rightarrow> 'c fakenet \<Rightarrow> 'c list \<Rightarrow> 'c fakenet" where
  "Register addr f clientList =
     foldl (\<lambda>f client. f\<lparr>Clients := map_put (addr client) client (Clients f)\<rparr>) f clientList"

definition Recognizes :: "('c \<Rightarrow> string) \<Rightarrow> 'c fakenet \<Rightarrow> 'c \<Rightarrow> bool" where
  "Recognizes addr f client \<longleftrightarrow> map_get (Clients f) (addr client) \<noteq> None"

text \<open>The order is the one in which the map yields the clients.\<close>

definition FakeNet_Broadcast ::
  "('c list \<Rightarrow> 'c list) \<Rightarrow> 'c fakenet \<Rightarrow> string \<Rightarrow> string \<Rightarrow> ('c \<times> string \<times> string) list" where
  "FakeNet_Broadcast ord f msg data =
     map (\<lambda>client. (client, msg, data)) (ord (map_values (Clients f)))"

text \<open>An unknown address gives a nil interface, whose method is called before the goroutine starts.\<close>

definition FakeNet_SendMessage ::
  "'c fakenet \<Rightarrow> string \<Rightarrow> string \<Rightarrow> string \<Rightarrow> ('c \<times> string \<times> string) res" where
  "FakeNet_SendMessage f addr msg jsonByte =
     (case map_get (Clients f) addr of
        None \<Rightarrow> Panic NilDeref
      | Some client \<Rightarrow> Ok (client, msg, jsonByte))"

interpretation fn: registry NewFakeNet "\<lambda>f c. Register addr f [c]" "Recognizes addr"
  "\<lambda>f. map_get (Clients f)" addr for addr :: "'c \<Rightarrow> string"
  by unfold_locales (simp_all add: NewFakeNet_def Register_def Recognizes_def)

lemma Register_all: "Register addr f cs = foldl (\<lambda>f c. Register addr f [c]) f cs"
  by (simp add: Register_def)

lemma FakeNet_Broadcast_set:
  assumes "map_ok (Clients f)" "is_order ord"
  shows "set (FakeNet_Broadcast ord f msg data) = {(c, msg, data) | c k. map_get (Clients f) k = Some c}"
proof -
  have "set (ord (map_values (Clients f))) = ran (map_get (Clients f))"
    using assms by (metis is_order_def mset_eq_setD set_map_values)
  then show ?thesis by (auto simp: FakeNet_Broadcast_def ran_def)
qed

lemma Register_values:
  assumes "distinct (map addr cs)" "\<forall>c \<in> set cs. map_get (Clients f) (addr c) = None"
  shows "mset (map_values (Clients (Register addr f cs))) = mset (map_values (Clients f)) + mset cs"
  using assms
proof (induction cs arbitrary: f)
  case Nil
  then show ?case by (simp add: Register_def)
next
  case (Cons c cs)
  let ?f = "Register addr f [c]"
  have "addr d \<noteq> addr c" if "d \<in> set cs" for d
    using Cons.prems(1) that by (metis distinct.simps(2) image_eqI list.simps(9) set_map)
  then have "\<forall>d \<in> set cs. map_get (Clients ?f) (addr d) = None"
    using Cons.prems(2) by (simp add: Register_def)
  moreover have "mset (map_values (Clients ?f)) = add_mset c (mset (map_values (Clients f)))"
    using Cons.prems by (simp add: Register_def map_values_def map_put_fresh)
  moreover have "Register addr f (c # cs) = Register addr ?f cs" by (simp add: Register_def)
  ultimately show ?case using Cons.IH [of ?f] Cons.prems(1) by simp
qed

end
