(* ===== verification/System.thy ===== *)
theory System
  imports FakeNet Mining Posting
begin

text \<open>
  Clients and miners on a \<open>FakeNet\<close>, as the tests of the repository run them: a handler runs with the
  node's mutex, so it is one step; every \<open>go\<close> statement makes a task that runs some time later, and a
  step runs any of the tasks. A panic in a task ends the process. The dispatch of events to the
  listeners is the library \<open>emission\<close>, an argument of the definitions: what the theorems ask of it is
  \<open>dispatches\<close>, that \<open>Emit\<close> calls the listeners that \<open>On\<close> registered for the event.
\<close>

section \<open>Nodes and tasks\<close>

datatype node = ClientNode client | MinerNode miner

definition GetAddress :: "node \<Rightarrow> string" where
  "GetAddress n = (case n of ClientNode c \<Rightarrow> Address c | MinerNode m \<Rightarrow> Address m)"

definition GetEmitter :: "node \<Rightarrow> (string \<times> handler) list" where
  "GetEmitter n = (case n of ClientNode c \<Rightarrow> Emitter c | MinerNode m \<Rightarrow> Emitter m)"

text \<open>A node is a reference into \<open>Nodes\<close>.\<close>

datatype argument = Bytes string | Flag bool

datatype task = Emit nat string argument | Call nat handler argument | Receive nat Block

record system =
  Nodes :: "node list"
  Net :: "nat fakenet"
  Tasks :: "task list"

type_synonym dispatcher = "(string \<times> handler) list \<Rightarrow> string \<Rightarrow> handler list"

definition dispatches :: "dispatcher \<Rightarrow> bool" where
  "dispatches emit \<longleftrightarrow> (\<forall>on event. set (emit on event) = {h. (event, h) \<in> set on})"

section \<open>Handlers\<close>

text \<open>What the runtime decides in a step: the time and the orders of maps.\<close>

record environment =
  env_now :: go_time
  env_orders :: map_orders
  env_clients :: "nat list \<Rightarrow> nat list"

text \<open>A listener called with an argument of another type panics in \<open>reflect\<close>.\<close>

definition bad_argument :: panic where
  "bad_argument = Explicit ''reflect: Call using wrong type as type argument''"

definition handle :: "crypto \<Rightarrow> environment \<Rightarrow> node \<Rightarrow> handler \<Rightarrow> argument \<Rightarrow> (node \<times> effect list) go" where
  "handle H e n h a =
     (case (n, h, a) of
        (ClientNode c, ReceiveBlockBytes_handler, Bytes bs) \<Rightarrow>
          go_bind (ReceiveBlockBytes H (block_order (env_orders e)) c bs)
            (\<lambda>(c', r, effs). ret (ClientNode c', effs))
      | (ClientNode c, ProvideMissingBlock_handler, Bytes bs) \<Rightarrow>
          go_bind (ProvideMissingBlock c bs) (\<lambda>effs. ret (ClientNode c, effs))
      | (MinerNode m, ReceiveBlockBytes_handler, Bytes bs) \<Rightarrow>
          go_bind (Miner_ReceiveBlockBytes H (env_now e) (env_orders e) m bs)
            (\<lambda>(m', r, effs). ret (MinerNode m', effs))
      | (MinerNode m, ProvideMissingBlock_handler, Bytes bs) \<Rightarrow>
          go_bind (Miner_ProvideMissingBlock m bs) (\<lambda>effs. ret (MinerNode m, effs))
      | (MinerNode m, FindProof_handler, Flag oneAndDone) \<Rightarrow>
          go_bind (FindProof H m oneAndDone) (\<lambda>(m', effs). ret (MinerNode m', effs))
      | (MinerNode m, AddTransactionBytes_handler, Bytes bs) \<Rightarrow>
          go_bind (Some (AddTransactionBytes H m bs)) (\<lambda>m'. ret (MinerNode m', []))
      | _ \<Rightarrow> Some (Panic bad_argument))"

definition receive :: "crypto \<Rightarrow> environment \<Rightarrow> node \<Rightarrow> Block \<Rightarrow> (node \<times> effect list) go" where
  "receive H e n b =
     (case n of
        ClientNode c \<Rightarrow> go_bind (ReceiveBlock H (block_order (env_orders e)) c b)
          (\<lambda>(c', r, effs). ret (ClientNode c', effs))
      | MinerNode m \<Rightarrow> go_bind (Miner_ReceiveBlock H (env_now e) (env_orders e) m b)
          (\<lambda>(m', r, effs). ret (MinerNode m', effs)))"

section \<open>Steps\<close>

text \<open>What an effect of node \<open>n\<close> leaves to be run.\<close>

definition spawn :: "environment \<Rightarrow> nat fakenet \<Rightarrow> nat \<Rightarrow> effect \<Rightarrow> task list res" where
  "spawn e f n eff =
     (case eff of
        Broadcast msg data \<Rightarrow>
          Ok (map (\<lambda>(r, msg, data). Emit r msg (Bytes data)) (FakeNet_Broadcast (env_clients e) f msg data))
      | SendMessage addr msg data \<Rightarrow>
          res_bind (FakeNet_SendMessage f addr msg data) (\<lambda>(r, msg, data). Ok [Emit r msg (Bytes data)])
      | GoReceiveBlock b \<Rightarrow> Ok [Receive n b]
      | GoEmit event flag \<Rightarrow> Ok [Emit n event (Flag flag)])"

fun spawn_all :: "environment \<Rightarrow> nat fakenet \<Rightarrow> nat \<Rightarrow> effect list \<Rightarrow> task list res" where
  "spawn_all e f n [] = Ok []"
| "spawn_all e f n (eff # effs) =
     res_bind (spawn e f n eff) (\<lambda>ts. res_bind (spawn_all e f n effs) (\<lambda>us. Ok (ts @ us)))"

definition update_node ::
  "environment \<Rightarrow> system \<Rightarrow> nat \<Rightarrow> (node \<times> effect list) go \<Rightarrow> (system \<times> task list) go" where
  "update_node e s n run =
     go_bind run (\<lambda>(node', effs).
       go_bind (Some (spawn_all e (Net s) n effs)) (\<lambda>new.
         ret (s\<lparr>Nodes := (Nodes s)[n := node']\<rparr>, new)))"

definition run_task :: "crypto \<Rightarrow> dispatcher \<Rightarrow> environment \<Rightarrow> system \<Rightarrow> task \<Rightarrow> (system \<times> task list) go" where
  "run_task H emit e s t =
     (case t of
        Emit n event a \<Rightarrow> ret (s, map (\<lambda>h. Call n h a) (emit (GetEmitter (Nodes s ! n)) event))
      | Call n h a \<Rightarrow> update_node e s n (handle H e (Nodes s ! n) h a)
      | Receive n b \<Rightarrow> update_node e s n (receive H e (Nodes s ! n) b))"

text \<open>A user of a node posts a payment; the effects of \<open>PostTransaction\<close> are spawned like others.\<close>

definition post :: "crypto \<Rightarrow> node \<Rightarrow> Output slice \<Rightarrow> u32 \<Rightarrow> (node \<times> effect list) go" where
  "post H n outputs fee =
     (case n of
        ClientNode c \<Rightarrow> go_bind (Some (PostTransaction H c outputs fee))
          (\<lambda>(c', tx, effs). ret (ClientNode c', effs))
      | MinerNode m \<Rightarrow> go_bind (Some (Miner_PostTransaction H m outputs fee))
          (\<lambda>(m', effs). ret (MinerNode m', effs)))"

definition env_ok :: "environment \<Rightarrow> bool" where
  "env_ok e \<longleftrightarrow> orders_ok (env_orders e) \<and> is_order (env_clients e)"

inductive sys_step :: "crypto \<Rightarrow> dispatcher \<Rightarrow> (node \<Rightarrow> Output slice \<Rightarrow> u32 \<Rightarrow> bool) \<Rightarrow> (go_time \<Rightarrow> bool)
    \<Rightarrow> system \<Rightarrow> system \<Rightarrow> bool"
  for H emit user clock where
  task: "Tasks s = pre @ t # rest \<Longrightarrow> env_ok e \<Longrightarrow> clock (env_now e) \<Longrightarrow>
    run_task H emit e s t = ret (s', new) \<Longrightarrow> sys_step H emit user clock s (s'\<lparr>Tasks := pre @ rest @ new\<rparr>)"
| pay: "n < length (Nodes s) \<Longrightarrow> user (Nodes s ! n) outputs fee \<Longrightarrow> env_ok e \<Longrightarrow>
    update_node e s n (post H (Nodes s ! n) outputs fee) = ret (s', new) \<Longrightarrow>
    sys_step H emit user clock s (s'\<lparr>Tasks := Tasks s @ new\<rparr>)"

inductive_cases sys_stepE: "sys_step H emit user clock s s'"

end
