(* ===== verification/Sendable.thy ===== *)
theory Sendable
  imports Codec Mining
begin

text \<open>
  Blocks that can be sent stay so: adding transactions and re-running only put addresses of
  transactions and of reward takers in the tables, so valid UTF-8 in gives valid UTF-8 out. The
  lemmas follow the operations of \<open>block.go\<close>, then those of the miner that build blocks.
\<close>

section \<open>The names in the tables\<close>

definition names_ok :: "Block \<Rightarrow> bool" where
  "names_ok b \<longleftrightarrow> (\<forall>r \<in> set (elems (Balances b)). valid_utf8 (Balance_id r))
     \<and> (\<forall>r \<in> set (elems (NextNonce b)). valid_utf8 (Nonce_id r))"

lemma names_ok_Balances:
  "names_ok b \<Longrightarrow> (\<And>r. r \<in> set rows \<Longrightarrow> valid_utf8 (Balance_id r)) \<Longrightarrow> names_ok (b\<lparr>Balances := Some rows\<rparr>)"
  "names_ok b \<Longrightarrow> valid_utf8 (Balance_id r) \<Longrightarrow> names_ok (b\<lparr>Balances := append_slice (Balances b) [r]\<rparr>)"
  by (auto simp: names_ok_def)

lemma row_update: "r' \<in> set (rows[n := f (rows ! n)]) \<Longrightarrow> n < length rows \<Longrightarrow> \<exists>r \<in> set rows. r' = r \<or> r' = f r"
  by (metis in_set_conv_nth length_list_update nth_list_update nth_mem)

lemma names_set_balance: "names_ok b \<Longrightarrow> set_balance b i v = Ok b' \<Longrightarrow> names_ok b'"
  using row_update [where f = "\<lambda>r. r\<lparr>Balance := v\<rparr>" and rows = "elems (Balances b)" and n = "nat i"]
  by (fastforce simp: set_balance_def Let_def names_ok_def split: if_splits)

lemma names_set_nonce: "names_ok b \<Longrightarrow> set_nonce b i v = Ok b' \<Longrightarrow> names_ok b'"
  using row_update [where f = "\<lambda>r. r\<lparr>Nonce := v\<rparr>" and rows = "elems (NextNonce b)" and n = "nat i"]
  by (fastforce simp: set_nonce_def Let_def names_ok_def split: if_splits)

lemma names_nonce_row: "names_ok b \<Longrightarrow> valid_utf8 k \<Longrightarrow> nonce_row b k = (b', i) \<Longrightarrow> names_ok b'"
  by (auto simp: nonce_row_def Let_def names_ok_def split: if_splits)

lemma names_credit: "names_ok b \<Longrightarrow> valid_utf8 (Out_Address v) \<Longrightarrow> credit b v = Ok b' \<Longrightarrow> names_ok b'"
  by (auto simp: credit_def Let_def intro: names_ok_Balances(2) dest: names_set_balance split: if_splits)

lemma names_credit_all:
  "names_ok b \<Longrightarrow> \<forall>v \<in> set vs. valid_utf8 (Out_Address v) \<Longrightarrow> credit_all b vs = Ok b' \<Longrightarrow> names_ok b'"
  by (induction vs arbitrary: b) (auto simp: res_simps dest: names_credit)

lemma names_Transactions [simp]: "names_ok (b\<lparr>Transactions := ts\<rparr>) = names_ok b"
  by (simp add: names_ok_def)

lemma names_book:
  assumes "names_ok b" "sendable_tx tx" "book H b i n tx = Ok b'"
  shows "names_ok b'"
proof -
  obtain b1 where b1: "set_nonce b i (n + 1) = Ok b1"
    using assms(3) by (auto simp: book_def res_simps)
  define b2 where "b2 = b1\<lparr>Transactions := append_slice (Transactions b1) [\<lparr>Tx_id = Tx_Id H tx, Tx = tx\<rparr>]\<rparr>"
  have "res_bind (set_balance b2 (FindBalanceIndex b2 (From (Info tx))) (BalanceOf b2 (From (Info tx)) - TotalOutput tx))
      (\<lambda>b3. credit_all b3 (tx_outputs tx)) = Ok b'"
    using assms(3) b1 by (simp add: book_def Let_def b2_def)
  then obtain b3 where b: "set_balance b2 (FindBalanceIndex b2 (From (Info tx)))
      (BalanceOf b2 (From (Info tx)) - TotalOutput tx) = Ok b3" "credit_all b3 (tx_outputs tx) = Ok b'"
    unfolding res_bind_Ok_iff by blast
  have "names_ok b1" using assms(1) b1 by (rule names_set_nonce)
  then have "names_ok b2" by (simp add: b2_def)
  then have "names_ok b3" using b(1) by (rule names_set_balance)
  then show ?thesis using names_credit_all [OF _ _ b(2)] assms(2) by (simp add: sendable_tx_def)
qed

lemma names_AddTransaction:
  assumes "names_ok b" "sendable_tx tx" "AddTransaction H b tx = Ok (b', added)"
  shows "names_ok b'"
proof -
  obtain c i where row: "nonce_row b (From (Info tx)) = (c, i)" by fastforce
  then have "names_ok c" using names_nonce_row assms(1,2) by (auto simp: sendable_tx_def)
  then show ?thesis
    using assms row by (auto simp: AddTransaction_def Let_def res_simps dest: names_book split: if_splits)
qed

lemma names_pay_reward:
  "names_ok b \<Longrightarrow> valid_utf8 (RewardAddr prev) \<Longrightarrow> pay_reward b prev = Ok b' \<Longrightarrow> names_ok b'"
  by (auto simp: pay_reward_def Let_def intro: names_ok_Balances(2) dest: names_set_balance split: if_splits)

text \<open>The contract of a loop over \<open>AddTransaction\<close>, for tables and for listed transactions.\<close>

interpretation names: ledger_invariant H sendable_tx names_ok for H
  by unfold_locales (rule names_AddTransaction)

definition entries_ok :: "Block \<Rightarrow> bool" where
  "entries_ok b \<longleftrightarrow> (\<forall>v \<in> set (elems (Transactions b)). valid_utf8 (Tx_id v) \<and> sendable_tx (Tx v))"

lemma valid_id: "valid_utf8 (Tx_Id H tx)"
  by (simp add: Tx_Id_def Tx_GetHashStr_def hex_encode_plain plain_valid)

interpretation entries: ledger_invariant H sendable_tx entries_ok for H
proof
  fix b b' tx added
  assume "sendable_tx tx" "entries_ok b" "AddTransaction H b tx = Ok (b', added)"
  then show "entries_ok b'"
    using valid_id by (cases rule: AddTransaction_outcome [of H b tx]) (auto simp: entries_ok_def)
qed

lemma sendable_block_parts:
  "sendable_block b \<longleftrightarrow> valid_utf8 (PrevBlockHash b) \<and> valid_utf8 (RewardAddr b) \<and> valid_time (Timestamp b)
     \<and> names_ok b \<and> entries_ok b"
  by (auto simp: sendable_block_def names_ok_def entries_ok_def)

section \<open>Re-running and building\<close>

lemma Rerun_sendable:
  assumes "sendable_block b" "sendable_block p" "Rerun H b (Some p) = Ok (b', ok)"
  shows "sendable_block b'"
proof -
  let ?b = "b\<lparr>Balances := copy_slice (Balances p), NextNonce := copy_slice (NextNonce p)\<rparr>"
  obtain c where c: "pay_reward ?b p = Ok c"
    "Rerun_loop H (c\<lparr>Transactions := Some []\<rparr>) (elems (Transactions b)) = Ok (b', ok)"
    using assms(3) by (auto simp: Rerun_def res_simps)
  have "names_ok ?b" using assms(2) by (simp add: sendable_block_parts names_ok_def)
  then have names: "names_ok (c\<lparr>Transactions := Some []\<rparr>)"
    using names_pay_reward [OF _ _ c(1)] assms(2) by (simp add: sendable_block_parts)
  have txs: "\<forall>v \<in> set (elems (Transactions b)). sendable_tx (Tx v)"
    using assms(1) by (simp add: sendable_block_def)
  have "entries_ok (c\<lparr>Transactions := Some []\<rparr>)" by (simp add: entries_ok_def)
  then have "names_ok b'" "entries_ok b'"
    using names.rerun_inv [OF txs names c(2)] entries.rerun_inv [OF txs _ c(2)] by blast+
  moreover have "header b' = header b" using assms(3) by (rule Rerun_header)
  ultimately show ?thesis
    using assms(1) header_fields [of b' b] by (simp add: sendable_block_parts)
qed

lemma valid_hash: "GetHash H b = Inr h \<Longrightarrow> valid_utf8 h"
  by (auto simp: GetHash_def hex_encode_plain plain_valid split: sum.splits)

lemma built_sendable:
  assumes "NewBlock H now addr (Some p) target reward = Some b0" "add_transactions H b0 txs = Ok b"
    and "sendable_block p" "valid_utf8 addr" "valid_time now" "\<forall>tx \<in> set txs. sendable_tx tx"
  shows "sendable_block (b\<lparr>Proof := q\<rparr>)"
proof -
  note new = NewBlock_child [OF assms(1)]
  have all: "\<forall>tx \<in> set txs. True" by simp
  have names: "names_ok b0"
    using assms(1,3) by (auto simp: NewBlock_def Let_def sendable_block_parts names_ok_def split: sum.splits)
  have entries: "entries_ok b0" using new(8) by (simp add: entries_ok_def)
  have "header b = header b0" using hdr.add_transactions_inv [OF all _ assms(2)] by simp
  note head = header_fields [OF this]
  have "names_ok b" "entries_ok b"
    using names.add_transactions_inv [OF assms(6) names assms(2)]
      entries.add_transactions_inv [OF assms(6) entries assms(2)] by blast+
  then show ?thesis
    using head new valid_hash [OF new(1)] assms(4,5)
    by (simp add: sendable_block_parts names_ok_def entries_ok_def)
qed

end
