(* ===== verification/SystemInv.thy ===== *)
theory SystemInv
  imports System Sendable
begin

text \<open>
  The invariant of a network of well-behaved nodes: every block that is stored, waits, is mined or
  is on its way is well-formed, can be sent and follows its predecessor; every message on its way
  decodes to what its listeners expect, and its answers go to a registered address. Every handler
  runs to its end on such a node and leaves such a node, and what it sends is such a message.
\<close>

section \<open>Blocks\<close>

text \<open>
  The documented behaviour of the hash: a digest is not empty, and blocks that can be sent and differ
  in their length have different hashes (a consequence of collision resistance).
\<close>

definition separates :: "crypto \<Rightarrow> bool" where
  "separates H \<longleftrightarrow> (\<forall>d. Sum256 H d \<noteq> []) \<and> (\<forall>b c. sendable_block b \<longrightarrow> sendable_block c \<longrightarrow>
     GetHashStr H b = GetHashStr H c \<longrightarrow> ChainLength b = ChainLength c)"

definition legit :: "crypto \<Rightarrow> nat \<Rightarrow> Block \<Rightarrow> bool" where
  "legit H L b \<longleftrightarrow> good_block H b \<and> fair_block b \<and> sendable_block b \<and> unat (ChainLength b) \<le> L
     \<and> (IsGenesisBlock b \<longrightarrow> PrevBlockHash b = [])
     \<and> (\<forall>p. sendable_block p \<longrightarrow> GetHashStr H p = PrevBlockHash b \<longrightarrow>
          unat (ChainLength b) = Suc (unat (ChainLength p)))"

lemma legitD:
  assumes "legit H L b"
  shows "good_block H b" "fair_block b" "sendable_block b" "unat (ChainLength b) \<le> L"
  using assms by (simp_all add: legit_def)

lemma legit_mono: "legit H L b \<Longrightarrow> L \<le> M \<Longrightarrow> legit H M b"
  by (auto simp: legit_def)

lemma sendable_hash:
  assumes "sendable_block b"
  shows "GetHash H b = Inr (GetHashStr H b)"
proof -
  have "Timestamp (block4hash b) = Timestamp b" by (simp add: block4hash_def)
  then obtain data where "BlockToBytes (block4hash b) = Inr data"
    using assms by (auto simp: BlockToBytes_def json_block_def json_time_def sendable_block_def valid_time_def)
  then show ?thesis by (simp add: GetHash_def GetHashStr_def)
qed

lemma hash_not_empty: "separates H \<Longrightarrow> sendable_block b \<Longrightarrow> GetHashStr H b \<noteq> []"
  using sendable_hash [of b H] by (auto simp: separates_def GetHash_def hex_encode_def split: sum.splits)

lemma legit_fits: "legit H L b \<Longrightarrow> L + 1 < 2 ^ 32 \<Longrightarrow> fits H b"
  using legitD [of H L b] sendable_hash [of b H] by (auto simp: fits_def)

text \<open>The block as stored is legitimate again.\<close>

lemma legit_stored:
  assumes "legit H L b" "header b' = header b" "Transactions b' = Transactions b" "sendable_block b'"
  shows "legit H L b'"
proof -
  note head = header_fields [OF assms(2)] and hash = same_hash(1,2) [OF assms(2,3), of H]
  have "good_block H b'" using assms(1,3) by (simp add: legit_def good_block_def honest_def)
  moreover have "fair_block b'" using assms(1,3) by (simp add: legit_def fair_block_def)
  ultimately show ?thesis using assms(1,4) head by (simp add: legit_def IsGenesisBlock_def)
qed

text \<open>The block a miner builds on a legitimate head is legitimate.\<close>

lemma legit_built:
  assumes "separates H" "built_on H m h cb" "legit H L h" "sendable_block cb" "L + 1 < 2 ^ 32"
  shows "legit H (Suc L) cb"
proof -
  note cb = built_on_fields [OF assms(2)] and h = legitD [OF assms(3)]
  have len: "unat (ChainLength cb) = Suc (unat (ChainLength h))"
    using cb(2) h(4) assms(5) by (simp add: unat_u32_plus)
  moreover have "unat (ChainLength p) = unat (ChainLength h)" if "sendable_block p" "GetHashStr H p = PrevBlockHash cb" for p
    using assms(1) that h(3) cb(1) unfolding separates_def by metis
  moreover have "good_block H cb" using cb(4,5) by (simp add: good_block_def fair_block_def fair_tx_def)
  moreover have "\<not> IsGenesisBlock cb" using len by (auto simp: IsGenesisBlock_def)
  ultimately show ?thesis using cb(5) assms(4) h(4) by (simp add: legit_def)
qed

section \<open>Nodes\<close>

definition store_ok :: "crypto \<Rightarrow> nat \<Rightarrow> 'a client_scheme \<Rightarrow> bool" where
  "store_ok H L c \<longleftrightarrow> valid_utf8 (Address c)
     \<and> (\<forall>k b. map_get (Blocks c) k = Some b \<longrightarrow> legit H L b)
     \<and> (\<forall>k s. map_get (PendingBlocks c) k = Some s \<longrightarrow>
          set_ok s \<and> (\<forall>j b. set_view s j = Some b \<longrightarrow> legit H L b))"

lemma store_ok_cong:
  "store_ok H L c \<Longrightarrow> Address d = Address c \<Longrightarrow> Blocks d = Blocks c \<Longrightarrow> PendingBlocks d = PendingBlocks c \<Longrightarrow>
   store_ok H L d"
  by (simp add: store_ok_def)

lemma store_ok_mono: "store_ok H L c \<Longrightarrow> L \<le> M \<Longrightarrow> store_ok H M c"
  unfolding store_ok_def using legit_mono by blast

lemma store_waiting:
  "store_ok H L c \<Longrightarrow> is_order ord \<Longrightarrow> b \<in> set (waiting ord c k) \<Longrightarrow> legit H L b"
  by (cases "map_get (PendingBlocks c) k") (auto simp: waiting_def store_ok_def gs.array_view ran_def)

lemma held_view: "set_view (held H c b) j = Some v \<Longrightarrow>
    v = b \<or> (\<exists>s. map_get (PendingBlocks c) (PrevBlockHash b) = Some s \<and> set_view s j = Some v)"
  by (auto simp: held_def gs.view_add gs.view_empty split: option.splits if_splits)

lemma store_hold:
  assumes "store_ok H L c" "legit H L b"
  shows "store_ok H L (c\<lparr>PendingBlocks := map_put (PrevBlockHash b) (held H c b) (PendingBlocks c)\<rparr>)"
proof -
  have "set_ok (held H c b)"
    using assms(1) by (auto simp: held_def store_ok_def intro!: gs.ok_add gs.ok_empty split: option.split)
  moreover have "legit H L v" if "set_view (held H c b) j = Some v" for j v
    using held_view [OF that] assms unfolding store_ok_def by blast
  ultimately show ?thesis using assms(1) by (auto simp: store_ok_def split: if_splits)
qed

text \<open>What no reception changes: who the node is and what it listens to; transactions only leave.\<close>

definition client_frame :: "'a client_scheme \<Rightarrow> 'a client_scheme \<Rightarrow> bool" where
  "client_frame c c' \<longleftrightarrow> Name c' = Name c \<and> Address c' = Address c \<and> PrivKey c' = PrivKey c \<and> PubKey c' = PubKey c
     \<and> Config c' = Config c \<and> Client_Nonce c' = Client_Nonce c \<and> Emitter c' = Emitter c
     \<and> client.more c' = client.more c
     \<and> set (PendingOutgoingTransactions c') \<subseteq> set (PendingOutgoingTransactions c)
     \<and> (LastBlock c \<noteq> None \<longrightarrow> LastBlock c' \<noteq> None)
     \<and> (LastConfirmedBlock c \<noteq> None \<longrightarrow> LastConfirmedBlock c' \<noteq> None)"

lemma client_frame_refl [simp]: "client_frame c c"
  by (simp add: client_frame_def)

lemma SetLastConfirmed_frame:
  assumes "SetLastConfirmed H c = ret c'"
  shows "client_frame c c'"
proof -
  obtain b where "c' = c\<lparr>LastConfirmedBlock := Some b,
      PendingOutgoingTransactions := map_drop (Contains H b) (PendingOutgoingTransactions c)\<rparr>"
    using assms by (auto simp: SetLastConfirmed_def res_simps split: option.splits)
  then show ?thesis by (auto simp: client_frame_def map_drop_def)
qed

lemma ReceiveBlock_frame:
  assumes "ReceiveBlock H ord c b = ret (c', r, effs)"
  shows "client_frame c c'"
proof -
  have hold: "client_frame c c'" if "hold_block H c b = ret (c', r, effs)"
    using that by (auto simp: hold_block_def res_simps client_frame_def split: option.splits)
  have acc: "client_frame c c'" if run: "accept_block H ord c b' = ret (c', r, effs)" for b'
  proof -
    let ?c = "c\<lparr>Blocks := map_put (GetHashStr H b') b' (Blocks c)\<rparr>"
    obtain d where d: "d = ?c \<or> SetLastConfirmed H (?c\<lparr>LastBlock := Some b'\<rparr>) = ret d"
      "\<exists>pending. c' = d\<lparr>PendingBlocks := pending\<rparr>"
      using run by (auto simp: accept_block_def Let_def res_simps split: option.splits if_splits)
    then have "client_frame ?c d"
      using SetLastConfirmed_frame [of H "?c\<lparr>LastBlock := Some b'\<rparr>" d] by (auto simp: client_frame_def)
    then show ?thesis using d(2) by (auto simp: client_frame_def)
  qed
  show ?thesis using assms hold acc by (auto simp: ReceiveBlock_def Let_def res_simps split: if_splits)
qed

lemma ReceiveBlock_Emitter:
  assumes "ReceiveBlock H ord c b = ret (c', r, effs)"
  shows "Emitter c' = Emitter c" "Address c' = Address c"
  using ReceiveBlock_frame [OF assms] by (simp_all add: client_frame_def)

section \<open>Messages\<close>

text \<open>What each method that listens expects of its argument.\<close>

definition node_handlers :: "(string \<times> handler) list" where
  "node_handlers = [(PROOF_FOUND, ReceiveBlockBytes_handler), (MISSING_BLOCK, ProvideMissingBlock_handler),
     (START_MINING, FindProof_handler), (POST_TRANSACTION, AddTransactionBytes_handler)]"

definition payload_ok :: "crypto \<Rightarrow> nat \<Rightarrow> nat fakenet \<Rightarrow> handler \<Rightarrow> argument \<Rightarrow> bool" where
  "payload_ok H L f h a =
     (case (h, a) of
        (ReceiveBlockBytes_handler, Bytes bs) \<Rightarrow> (\<exists>b. BytesToBlock bs = Inr b \<and> legit H L b)
      | (ProvideMissingBlock_handler, Bytes bs) \<Rightarrow>
          (\<exists>msg. BytesToMessage bs = Inr msg \<and> map_get (Clients f) (Msg_Address msg) \<noteq> None)
      | (FindProof_handler, Flag _) \<Rightarrow> True
      | (AddTransactionBytes_handler, Bytes bs) \<Rightarrow>
          (\<exists>tx. BytesToTransaction bs = Inr tx \<and> fair_tx tx \<and> sendable_tx tx)
      | _ \<Rightarrow> False)"

definition message_ok :: "crypto \<Rightarrow> nat \<Rightarrow> nat fakenet \<Rightarrow> string \<Rightarrow> argument \<Rightarrow> bool" where
  "message_ok H L f msg a \<longleftrightarrow> (\<forall>h. (msg, h) \<in> set node_handlers \<longrightarrow> payload_ok H L f h a)"

definition effect_ok :: "crypto \<Rightarrow> nat \<Rightarrow> nat fakenet \<Rightarrow> effect \<Rightarrow> bool" where
  "effect_ok H L f eff =
     (case eff of
        Broadcast msg data \<Rightarrow> valid_utf8 msg \<and> message_ok H L f msg (Bytes data)
      | SendMessage addr msg data \<Rightarrow> map_get (Clients f) addr \<noteq> None \<and> valid_utf8 msg \<and> message_ok H L f msg (Bytes data)
      | GoReceiveBlock b \<Rightarrow> legit H L b
      | GoEmit event flag \<Rightarrow> message_ok H L f event (Flag flag))"

lemma message_cases [simp]:
  "message_ok H L f PROOF_FOUND a = payload_ok H L f ReceiveBlockBytes_handler a"
  "message_ok H L f MISSING_BLOCK a = payload_ok H L f ProvideMissingBlock_handler a"
  "message_ok H L f START_MINING a = payload_ok H L f FindProof_handler a"
  "message_ok H L f POST_TRANSACTION a = payload_ok H L f AddTransactionBytes_handler a"
  by (simp_all add: message_ok_def node_handlers_def PROOF_FOUND_def MISSING_BLOCK_def START_MINING_def
      POST_TRANSACTION_def)

lemma valid_messages [simp]:
  "valid_utf8 PROOF_FOUND" "valid_utf8 MISSING_BLOCK" "valid_utf8 START_MINING" "valid_utf8 POST_TRANSACTION"
  by (simp_all add: plain_valid plain_def PROOF_FOUND_def MISSING_BLOCK_def START_MINING_def POST_TRANSACTION_def)

lemma payload_mono: "payload_ok H L f h a \<Longrightarrow> L \<le> M \<Longrightarrow> payload_ok H M f h a"
  by (auto simp: payload_ok_def intro: legit_mono split: handler.splits argument.splits)

lemma payload_block: "legit H L b \<Longrightarrow> BlockToBytes b = Inr data \<Longrightarrow> payload_ok H L f ReceiveBlockBytes_handler (Bytes data)"
  by (auto simp: payload_ok_def legit_def dest: BytesToBlock_sent)

section \<open>Receiving a block\<close>

lemma request_ok:
  assumes "valid_utf8 (Address c)" "sendable_block b" "map_get (Clients f) (Address c) \<noteq> None"
  shows "effect_ok H L f (missing_request c b)"
proof -
  have "valid_utf8 (PrevBlockHash b)" using assms(2) by (simp add: sendable_block_def)
  then show ?thesis
    using assms(1,3) by (simp add: effect_ok_def missing_request_def payload_ok_def BytesToMessage_sent)
qed

lemma ReceiveBlock_keeps:
  assumes ok: "node_ok H c" "store_ok H L c" and b: "legit H L b" and ord: "is_order ord"
    and reg: "map_get (Clients f) (Address c) \<noteq> None"
  obtains c' r effs where "ReceiveBlock H ord c b = ret (c', r, effs)" "node_ok H c'" "store_ok H L c'"
    "Address c' = Address c" "Emitter c' = Emitter c" "client.more c' = client.more c"
    "\<forall>eff \<in> set effs. effect_ok H L f eff"
proof (cases rule: ReceiveBlock_effect [OF ok(1) legitD(1) [OF b], of ord])
  case 1
  then show thesis using that ok by simp
next
  case (2 c')
  have "effect_ok H L f (missing_request c b)"
    using request_ok [OF _ legitD(3) [OF b] reg] ok(2) by (simp add: store_ok_def)
  then show thesis using that [OF 2(1,4)] store_hold [OF ok(2) b] 2(5) by simp
next
  case (3 c' b')
  have "sendable_block b'"
  proof (cases "IsGenesisBlock b")
    case True
    then show ?thesis using 3(6) legitD(3) [OF b] by simp
  next
    case False
    then obtain p where p: "map_get (Blocks c) (PrevBlockHash b) = Some p" "Rerun H b (Some p) = Ok (b', True)"
      using 3(6) by auto
    then have "sendable_block p" using ok(2) legitD(3) unfolding store_ok_def by blast
    then show ?thesis using Rerun_sendable legitD(3) [OF b] p(2) by blast
  qed
  then have b': "legit H L b'" using legit_stored [OF b 3(4,5)] by simp
  have "legit H L v" if "map_get (Blocks c') k = Some v" for k v
    using that ok(2) b' by (auto simp: 3(8) store_ok_def split: if_splits)
  then have "store_ok H L c'" using ok(2) 3(10,11) by (auto simp: store_ok_def split: if_splits)
  moreover have "\<forall>eff \<in> set (map GoReceiveBlock (waiting ord c (GetHashStr H b))). effect_ok H L f eff"
    using store_waiting [OF ok(2) ord] by (auto simp: effect_ok_def)
  ultimately show thesis using that [OF 3(1,7)] 3(11,13) ReceiveBlock_Emitter [OF 3(1)] by simp
qed

section \<open>Miners\<close>

definition mining_ok :: "'a miner_scheme \<Rightarrow> bool" where
  "mining_ok m \<longleftrightarrow> (\<forall>tx \<in> ran (set_view (Miner_Transactions m)). sendable_tx tx)
     \<and> (\<forall>cb. CurrentBlock m = Some cb \<longrightarrow> sendable_block cb)"

lemma legit_incoming:
  assumes "node_ok H m" "store_ok H L m" "legit H L b" "separates H" "L + 1 < 2 ^ 32"
  shows "incoming_ok H m b"
proof -
  note b = legitD [OF assms(3)]
  have id: "GetHashStr H b \<noteq> []" using assms(4) b(3) by (rule hash_not_empty)
  have "unat (ChainLength b) = Suc (unat (ChainLength p))" if "map_get (Blocks m) (PrevBlockHash b) = Some p" for p
  proof -
    have "sendable_block p" using that assms(2) legitD(3) unfolding store_ok_def by blast
    moreover have "GetHashStr H p = PrevBlockHash b" using node_okD(7) [OF assms(1) that] .
    ultimately show ?thesis using assms(3) by (simp add: legit_def)
  qed
  moreover have "PrevBlockHash g \<noteq> GetHashStr H b"
    if "map_get (Blocks m) k = Some g" "map_get (Blocks m) (PrevBlockHash g) = None" for k g
  proof -
    have "IsGenesisBlock g" using rooted_linked [OF node_okD(5) [OF assms(1)] that(1)] that(2) by (simp add: linked_def)
    moreover have "legit H L g" using assms(2) that(1) unfolding store_ok_def by blast
    ultimately show ?thesis using id by (simp add: legit_def)
  qed
  moreover have "IsGenesisBlock b \<Longrightarrow> PrevBlockHash b \<noteq> GetHashStr H b" using assms(3) id by (simp add: legit_def)
  ultimately show ?thesis using b(1) legit_fits [OF assms(3,5)] unfolding incoming_ok_def by blast
qed

lemma search_sendable:
  assumes "search_with H target now os m txSet = Ok m'" "LastBlock m = Some h" "sendable_block h"
    "valid_utf8 (Address m)" "valid_time now" "orders_ok os"
    "set_ok (Miner_Transactions m)" "\<forall>tx \<in> ran (set_view (Miner_Transactions m)). sendable_tx tx"
    "\<And>s. txSet = Some s \<Longrightarrow> set_ok s \<and> (\<forall>tx \<in> ran (set_view s). sendable_tx tx)"
  shows "mining_ok m'" "Blocks m' = Blocks m" "PendingBlocks m' = PendingBlocks m" "Address m' = Address m"
    "Emitter m' = Emitter m"
proof -
  let ?set = "case txSet of None \<Rightarrow> NewSet | Some s \<Rightarrow> s"
  let ?pool = "gs.add_all (Tx_GetHashStr H) (Miner_Transactions m) (Set_ToArray (synced_order os) ?set)"
  let ?txs = "Set_ToArray (pool_order os) ?pool"
  obtain b0 b where run: "NewBlock H now (Address m) (Some h) target
      (coinbaseAmount (Config m)) = Some b0" "add_transactions H b0 ?txs = Ok b"
    "m' = m\<lparr>CurrentBlock := Some (b\<lparr>Proof := 0\<rparr>), Miner_Transactions := \<lparr>items = []\<rparr>\<rparr>"
    using assms(1,2) by (auto simp: search_with_def Let_def gs.add_all_def res_simps split: option.splits)
  have set: "set_ok ?set" "\<forall>tx \<in> ran (set_view ?set). sendable_tx tx"
    using assms(9) by (auto simp: gs.ok_empty gs.view_empty split: option.split)
  have "is_order (synced_order os)" "is_order (pool_order os)" using assms(6) by (simp_all add: orders_ok_def)
  then have "set ?txs \<subseteq> ran (set_view (Miner_Transactions m)) \<union> ran (set_view ?set)"
    using gs.ran_add_all [of "Tx_GetHashStr H" "Miner_Transactions m" "Set_ToArray (synced_order os) ?set"]
    by (simp add: gs.array_view gs.ok_add_all assms(7) set(1))
  then have "\<forall>tx \<in> set ?txs. sendable_tx tx" using assms(8) set(2) by blast
  then have "sendable_block (b\<lparr>Proof := 0\<rparr>)" by (rule built_sendable [OF run(1,2) assms(3-5)])
  then show "mining_ok m'" by (simp add: run(3) mining_ok_def set_view_def ran_def)
  show "Blocks m' = Blocks m" "PendingBlocks m' = PendingBlocks m" "Address m' = Address m" "Emitter m' = Emitter m"
    by (simp_all add: run(3))
qed

definition miner_inv :: "crypto \<Rightarrow> nat \<Rightarrow> 'a miner_scheme \<Rightarrow> bool" where
  "miner_inv H L m \<longleftrightarrow> miner_ok H m \<and> store_ok H L m \<and> mining_ok m"

lemma last_tx_sendable: "sendable_block b \<Longrightarrow> last_tx b tx \<Longrightarrow> sendable_tx tx"
  by (auto simp: sendable_block_def last_tx_def)

text \<open>Both kinds of miner keep the invariant when they receive a block.\<close>

context searcher
begin

lemma receive_keeps:
  assumes inv: "miner_inv H L m" and b: "legit H L b" and ord: "orders_ok os" and now: "valid_time now"
    and H: "separates H" "L + 1 < 2 ^ 32" and reg: "map_get (Clients f) (Address m) \<noteq> None"
  obtains m' r effs where "go_bind (ReceiveBlock H (block_order os) m b) (cut_over H start now os) = ret (m', r, effs)"
    "miner_inv H L m'"
    "Address m' = Address m" "Emitter m' = Emitter m" "\<forall>eff \<in> set effs. effect_ok H L f eff"
proof -
  have m: "miner_ok H m" "node_ok H m" "store_ok H L m" "mining_ok m"
    using inv by (simp_all add: miner_inv_def miner_ok_def)
  have bord: "is_order (block_order os)" using ord by (simp add: orders_ok_def)
  obtain m' r effs c' where run: "go_bind (ReceiveBlock H (block_order os) m b) (cut_over H start now os) = ret (m', r, effs)"
    "miner_ok H m'"
    "ReceiveBlock H (block_order os) m b = ret (c', r, effs)" "m' = c' \<or> new_search start now os m c' r m'"
    by (rule receive_effect [OF m(1) legit_incoming [OF m(2,3) b H] ord, of now]) blast
  obtain c'' r' effs' where keep: "ReceiveBlock H (block_order os) m b = ret (c'', r', effs')" "node_ok H c''"
    "store_ok H L c''" "Address c'' = Address m" "Emitter c'' = Emitter m" "client.more c'' = client.more m"
    "\<forall>eff \<in> set effs'. effect_ok H L f eff"
    by (rule ReceiveBlock_keeps [OF m(2,3) b bord reg])
  have eqs: "c'' = c'" "effs' = effs" using keep(1) run(3) by simp_all
  note keep = keep [unfolded eqs]
  note more = client_more_miner [OF keep(6)]
  have mining: "mining_ok c'" using m(4) more by (simp add: mining_ok_def)
  obtain h k where h: "LastBlock c' = Some h" "map_get (Blocks c') k = Some h"
    using node_okD(6) [OF keep(2)] by (auto simp: head_ok_def stored_def)
  have stored: "sendable_block v" if "map_get (Blocks c') j = Some v" for j v
    using keep(3) legitD(3) that unfolding store_ok_def by blast
  have "mining_ok m' \<and> store_ok H L m' \<and> Address m' = Address m \<and> Emitter m' = Emitter m"
  proof (cases "m' = c'")
    case True
    then show ?thesis using keep mining by simp
  next
    case False
    then obtain s where s: "set_ok s" "start now os c' (Some s) = Ok m'"
      "\<And>k tx. set_view s k = Some tx \<Longrightarrow> \<exists>b. (CurrentBlock m = Some b \<or> stored c' b) \<and> last_tx b tx"
      using run(4) unfolding new_search_def by blast
    have txs: "sendable_tx tx" if tx: "tx \<in> ran (set_view s)" for tx
    proof -
      obtain k where "set_view s k = Some tx" using tx by (auto simp: ran_def)
      then obtain v where "CurrentBlock m = Some v \<or> stored c' v" "last_tx v tx" using s(3) by blast
      moreover from this have "sendable_block v"
        using m(4) stored unfolding mining_ok_def stored_def by blast
      ultimately show ?thesis by (simp add: last_tx_sendable)
    qed
    have pool: "set_ok (Miner_Transactions c')" using m(1) more by (simp add: miner_ok_def pool_ok_def)
    have addr: "valid_utf8 (Address c')" using keep(3) by (simp add: store_ok_def)
    obtain target where t: "search_with H target now os c' (Some s) = Ok m'"
      using s(2) searches [OF h(1), of now os "Some s"] by auto
    have known: "\<forall>tx \<in> ran (set_view (Miner_Transactions c')). sendable_tx tx"
      using mining by (simp add: mining_ok_def)
    have new: "mining_ok m'" "Blocks m' = Blocks c'" "PendingBlocks m' = PendingBlocks c'"
        "Address m' = Address c'" "Emitter m' = Emitter c'"
      by (rule search_sendable [OF t h(1) stored [OF h(2)] addr now ord pool known]; use s(1) txs in auto)+
    then show ?thesis using store_ok_cong [OF keep(3) new(4,2,3)] keep(4,5) by simp
  qed
  then show thesis using that [OF run(1)] run(2) keep(7) by (simp add: miner_inv_def)
qed

text \<open>And they establish it when they start on a genesis block.\<close>

lemma first_keeps:
  assumes m: "fresh_on H g m" and g: "legit H 0 g" "IsGenesisBlock g" and H: "separates H"
    and ord: "orders_ok os" and now: "valid_time now" and addr: "valid_utf8 (Address m)"
  obtains cb where "start now os m None = Ok (m\<lparr>CurrentBlock := Some cb, Miner_Transactions := \<lparr>items = []\<rparr>\<rparr>)"
    "miner_inv H 0 (m\<lparr>CurrentBlock := Some cb, Miner_Transactions := \<lparr>items = []\<rparr>\<rparr>)"
    "PrevBlockHash cb = GetHashStr H g" "ChainLength cb = 1" "Transactions cb = Some []"
proof -
  have send: "sendable_block g" by (rule legitD(3) [OF g(1)])
  have f: "LastBlock m = Some g" "Miner_Transactions m = NewSet" "Blocks m = [(GetHashStr H g, g)]" "PendingBlocks m = []"
    using m by (simp_all add: fresh_on_def)
  have prev: "PrevBlockHash g \<noteq> GetHashStr H g" using g hash_not_empty [OF H send] by (auto simp: legit_def)
  have fit: "fits H g" using g(1) by (rule legit_fits) simp
  obtain cb where cb: "start now os m None = Ok (m\<lparr>CurrentBlock := Some cb, Miner_Transactions := \<lparr>items = []\<rparr>\<rparr>)"
    "miner_ok H (m\<lparr>CurrentBlock := Some cb, Miner_Transactions := \<lparr>items = []\<rparr>\<rparr>)"
    "PrevBlockHash cb = GetHashStr H g" "ChainLength cb = 1" "Transactions cb = Some []"
    by (rule first_search [OF m g(2) fit prev ord])
  obtain target where t: "start now os m None = search_with H target now os m None" using searches [OF f(1)] by blast
  have pool: "set_ok (Miner_Transactions m)" "\<forall>tx \<in> ran (set_view (Miner_Transactions m)). sendable_tx tx"
    using f(2) by (simp_all add: gs.ok_empty gs.view_empty)
  note search = search_sendable [OF cb(1) [unfolded t] f(1) send addr now ord pool]
  let ?m = "m\<lparr>CurrentBlock := Some cb, Miner_Transactions := \<lparr>items = []\<rparr>\<rparr>"
  have "mining_ok ?m" by (rule search(1)) simp
  moreover have "store_ok H 0 ?m" using f(3,4) addr g(1) by (auto simp: store_ok_def split: if_splits)
  ultimately show thesis using that [OF cb(1)] cb by (simp add: miner_inv_def)
qed

end

lemma miner_inv_Emitter: "miner_inv H L m \<Longrightarrow> miner_inv H L (m\<lparr>Emitter := hs\<rparr>)"
  using store_ok_cong [of H L m "m\<lparr>Emitter := hs\<rparr>"] by (simp add: miner_inv_def miner_ok_Emitter mining_ok_def)

lemmas Miner_ReceiveBlock_keeps = miner.receive_keeps [folded Miner_ReceiveBlock_eq]

text \<open>Searching: the block found is one longer than the head.\<close>

lemma FindProof_keeps:
  assumes inv: "miner_inv H L m" and H: "separates H" "L + 1 < 2 ^ 32"
  obtains m' effs where "FindProof H m oneAndDone = ret (m', effs)" "miner_inv H L m'"
    "Address m' = Address m" "Emitter m' = Emitter m" "\<forall>eff \<in> set effs. effect_ok H (Suc L) f eff"
proof -
  obtain h cb where m: "node_ok H m" "LastBlock m = Some h" "CurrentBlock m = Some cb" "built_on H m h cb"
    "map_get (Blocks m) (GetHashStr H h) = Some h"
    using inv by (auto simp: miner_inv_def elim!: miner_okD)
  have h: "legit H L h" using inv m(5) by (auto simp: miner_inv_def store_ok_def)
  obtain b found where run: "find_proof H (Proof cb + MiningRounds m) cb = (b, found)" by fastforce
  note search = find_proof_cases [OF run] and eff = FindProof_effect [OF m(3) node_okD(4) [OF m(1)] run, of oneAndDone]
  have b: "b = cb\<lparr>Proof := Proof b\<rparr>" using search by simp
  have "sendable_block cb" using inv m(3) by (simp add: miner_inv_def mining_ok_def)
  then have "sendable_block (cb\<lparr>Proof := Proof b\<rparr>)" by (simp add: sendable_block_def)
  then have sb: "sendable_block b" unfolding b [symmetric] .
  have "built_on H m h (cb\<lparr>Proof := Proof b\<rparr>)" using m(4) by (rule built_on_Proof)
  then have lb: "legit H (Suc L) b" using legit_built [OF H(1) _ h sb H(2)] unfolding b [symmetric] by blast
  let ?m = "m\<lparr>CurrentBlock := Some b\<rparr>"
  have "miner_ok H (m\<lparr>CurrentBlock := Some (cb\<lparr>Proof := Proof b\<rparr>)\<rparr>)"
    using inv m(3) by (intro miner_ok_current) (simp_all add: miner_inv_def)
  then have "miner_ok H ?m" unfolding b [symmetric] .
  moreover have "store_ok H L ?m" by (rule store_ok_cong [of H L m]) (use inv in \<open>simp_all add: miner_inv_def\<close>)
  ultimately have "miner_inv H L ?m" using inv sb by (simp add: miner_inv_def mining_ok_def)
  moreover obtain data where data: "BlockToBytes b = Inr data" using sb by (rule sendable_bytes)
  moreover have "effect_ok H (Suc L) f (Broadcast PROOF_FOUND data)"
    using payload_block [OF lb data] by (simp add: effect_ok_def)
  moreover have "effect_ok H (Suc L) f (GoReceiveBlock b)" "effect_ok H (Suc L) f (GoEmit START_MINING False)"
    using lb by (simp_all add: effect_ok_def payload_ok_def)
  moreover have "\<exists>effs. FindProof H m oneAndDone = ret (?m, effs)
      \<and> set effs \<subseteq> {Broadcast PROOF_FOUND data, GoReceiveBlock b, GoEmit START_MINING False}"
    using eff data by (cases found; cases oneAndDone) simp_all
  ultimately show thesis using that [of ?m] by fastforce
qed

end
