(* ===== verification/SystemSafe.thy ===== *)
theory SystemSafe
  imports SystemInv
begin

text \<open>
  The invariant of the whole network and its preservation by every step: handlers on good messages,
  goroutines, and payments. No task of a reachable state panics or runs forever.
\<close>

section \<open>Nodes\<close>

definition node_inv :: "crypto \<Rightarrow> nat \<Rightarrow> node \<Rightarrow> bool" where
  "node_inv H L n =
     (case n of
        ClientNode c \<Rightarrow> node_ok H c \<and> store_ok H L c \<and> set (Emitter c) \<subseteq> set (take 2 node_handlers)
      | MinerNode m \<Rightarrow> miner_inv H L m \<and> set (Emitter m) \<subseteq> set node_handlers)"

text \<open>What a step of a node leaves: the same node to the network, and effects that are in order.\<close>

definition keeps :: "crypto \<Rightarrow> nat \<Rightarrow> nat fakenet \<Rightarrow> node \<Rightarrow> node \<Rightarrow> effect list \<Rightarrow> bool" where
  "keeps H L f n n' effs \<longleftrightarrow> node_inv H L n' \<and> GetAddress n' = GetAddress n \<and> GetEmitter n' = GetEmitter n
     \<and> (\<forall>eff \<in> set effs. effect_ok H L f eff)"

lemma miner_inv_mono: "miner_inv H L m \<Longrightarrow> L \<le> M \<Longrightarrow> miner_inv H M m"
  unfolding miner_inv_def using store_ok_mono by blast

lemma node_inv_mono: "node_inv H L n \<Longrightarrow> L \<le> M \<Longrightarrow> node_inv H M n"
  by (auto simp: node_inv_def intro: store_ok_mono miner_inv_mono split: node.splits)

lemma message_mono: "message_ok H L f msg a \<Longrightarrow> L \<le> M \<Longrightarrow> message_ok H M f msg a"
  by (auto simp: message_ok_def intro: payload_mono)

lemma effect_mono: "effect_ok H L f eff \<Longrightarrow> L \<le> M \<Longrightarrow> effect_ok H M f eff"
  by (cases eff) (auto simp: effect_ok_def intro: message_mono legit_mono)

lemma keeps_mono: "keeps H L f n n' effs \<Longrightarrow> L \<le> M \<Longrightarrow> keeps H M f n n' effs"
  by (auto simp: keeps_def intro: node_inv_mono effect_mono)

lemma ReceiveBlock_step:
  assumes "node_inv H L n" "legit H L b" "env_ok e" "valid_time (env_now e)" "separates H" "L + 1 < 2 ^ 32"
    and "map_get (Clients f) (GetAddress n) \<noteq> None"
  obtains n' effs where "receive H e n b = ret (n', effs)" "keeps H L f n n' effs"
proof (cases n)
  case (ClientNode c)
  have c: "node_ok H c" "store_ok H L c" "map_get (Clients f) (Address c) \<noteq> None"
    using assms(1,7) ClientNode by (simp_all add: node_inv_def GetAddress_def)
  have "is_order (block_order (env_orders e))" using assms(3) by (simp add: env_ok_def orders_ok_def)
  then obtain c' r effs where "ReceiveBlock H (block_order (env_orders e)) c b = ret (c', r, effs)" "node_ok H c'"
    "store_ok H L c'" "Address c' = Address c" "Emitter c' = Emitter c" "\<forall>eff \<in> set effs. effect_ok H L f eff"
    by (rule ReceiveBlock_keeps [OF c(1,2) assms(2) _ c(3)])
  then show thesis
    using that [of "ClientNode c'" effs] assms(1) ClientNode
    by (simp add: receive_def keeps_def node_inv_def GetAddress_def GetEmitter_def)
next
  case (MinerNode m)
  have m: "miner_inv H L m" "map_get (Clients f) (Address m) \<noteq> None"
    using assms(1,7) MinerNode by (simp_all add: node_inv_def GetAddress_def)
  have "orders_ok (env_orders e)" using assms(3) by (simp add: env_ok_def)
  then obtain m' r effs where "Miner_ReceiveBlock H (env_now e) (env_orders e) m b = ret (m', r, effs)"
    "miner_inv H L m'" "Address m' = Address m" "Emitter m' = Emitter m" "\<forall>eff \<in> set effs. effect_ok H L f eff"
    by (rule Miner_ReceiveBlock_keeps [OF m(1) assms(2) _ assms(4,5,6) m(2)])
  then show thesis
    using that [of "MinerNode m'" effs] assms(1) MinerNode
    by (simp add: receive_def keeps_def node_inv_def GetAddress_def GetEmitter_def)
qed

lemma ProvideMissingBlock_step:
  assumes "node_ok H c" "store_ok H L c" "BytesToMessage bs = Inr msg" "map_get (Clients f) (Msg_Address msg) \<noteq> None"
  obtains effs where "ProvideMissingBlock c bs = ret effs" "\<forall>eff \<in> set effs. effect_ok H L f eff"
proof (cases "map_get (Blocks c) (Msg_PrevBlockHash msg)")
  case None
  then show thesis using that assms(3) by (simp add: ProvideMissingBlock_def)
next
  case (Some v)
  then have v: "legit H L v" using assms(2) by (auto simp: store_ok_def)
  obtain data where data: "BlockToBytes v = Inr data" by (rule sendable_bytes [OF legitD(3) [OF v]])
  show thesis
    using that Some data assms(3,4) payload_block [OF v data] node_okD(4) [OF assms(1)]
    by (simp add: ProvideMissingBlock_def effect_ok_def)
qed

lemma Miner_AddTransaction_keeps:
  assumes "miner_inv H L m" "fair_tx tx" "sendable_tx tx"
  shows "miner_inv H L (Miner_AddTransaction H m tx)"
proof -
  let ?m = "Miner_AddTransaction H m tx" and ?s = "Set_Add (Tx_GetHashStr H) (Miner_Transactions m) tx"
  have m: "?m = m\<lparr>Miner_Transactions := ?s\<rparr>" by (simp add: Miner_AddTransaction_def)
  have ok: "node_ok H m" "chain_ok H m" "pool_ok (Miner_Transactions m)" "store_ok H L m" "mining_ok m"
    using assms(1) by (simp_all add: miner_inv_def miner_ok_def)
  have "pool_ok ?s" using pool_add_all [OF ok(3), of "[tx]"] assms(2) by simp
  moreover have "node_ok H ?m" by (rule node_ok_cong [OF ok(1)]) (use node_okD(2,3) [OF ok(1)] m in simp_all)
  moreover have "built_on H ?m = built_on H m" by (rule built_on_cong) (simp_all add: m)
  ultimately have "miner_ok H ?m" using assms(1) m ok(2) by (simp add: miner_inv_def miner_ok_def chain_ok_def)
  moreover have "store_ok H L ?m" by (rule store_ok_cong [OF ok(4)]) (simp_all add: m)
  moreover have "mining_ok ?m"
    using ok(5) assms(3) by (auto simp: m mining_ok_def gs.view_add ran_def split: if_splits)
  ultimately show ?thesis by (simp add: miner_inv_def)
qed

section \<open>Handlers\<close>

lemma client_handlers: "h \<in> snd ` set (take 2 node_handlers) \<Longrightarrow>
    h = ReceiveBlockBytes_handler \<or> h = ProvideMissingBlock_handler"
  by (auto simp: node_handlers_def)

lemma payloadE:
  assumes "payload_ok H L f h a"
  obtains (block) bs b where "h = ReceiveBlockBytes_handler" "a = Bytes bs" "BytesToBlock bs = Inr b" "legit H L b"
  | (request) bs msg where "h = ProvideMissingBlock_handler" "a = Bytes bs" "BytesToMessage bs = Inr msg"
      "map_get (Clients f) (Msg_Address msg) \<noteq> None"
  | (search) oneAndDone where "h = FindProof_handler" "a = Flag oneAndDone"
  | (transaction) bs tx where "h = AddTransactionBytes_handler" "a = Bytes bs" "BytesToTransaction bs = Inr tx"
      "fair_tx tx" "sendable_tx tx"
  using assms by (cases h; cases a) (auto simp: payload_ok_def)

lemma handle_step:
  assumes "node_inv H L n" "h \<in> snd ` set (GetEmitter n)" "payload_ok H L f h a"
    and env: "env_ok e" "valid_time (env_now e)" and H: "separates H" "L + 1 < 2 ^ 32"
    and reg: "map_get (Clients f) (GetAddress n) \<noteq> None"
  obtains n' effs where "handle H e n h a = ret (n', effs)" "keeps H (Suc L) f n n' effs"
  using assms(3)
proof (cases rule: payloadE)
  case (block bs b)
  obtain n' effs where run: "receive H e n b = ret (n', effs)" "keeps H L f n n' effs"
    by (rule ReceiveBlock_step [OF assms(1) block(4) env H reg])
  have "handle H e n h a = receive H e n b"
    using block by (cases n) (simp_all add: handle_def receive_def ReceiveBlockBytes_def Miner_ReceiveBlockBytes_def)
  then show thesis using that run keeps_mono [of H L f n n' effs "Suc L"] by simp
next
  case (request bs msg)
  show thesis
  proof (cases n)
    case (ClientNode c)
    have "node_ok H c" "store_ok H L c" using assms(1) ClientNode by (simp_all add: node_inv_def)
    then obtain effs where "ProvideMissingBlock c bs = ret effs" "\<forall>eff \<in> set effs. effect_ok H L f eff"
      using request(3,4) by (rule ProvideMissingBlock_step)
    then have "handle H e n h a = ret (n, effs)" "keeps H L f n n effs"
      using request ClientNode assms(1) by (simp_all add: handle_def keeps_def)
    then show thesis using that keeps_mono [of H L f n n effs "Suc L"] by simp
  next
    case (MinerNode m)
    have "node_ok H m" "store_ok H L m" using assms(1) MinerNode by (simp_all add: node_inv_def miner_inv_def miner_ok_def)
    then obtain effs where "ProvideMissingBlock m bs = ret effs" "\<forall>eff \<in> set effs. effect_ok H L f eff"
      using request(3,4) by (rule ProvideMissingBlock_step)
    then have "handle H e n h a = ret (n, effs)" "keeps H L f n n effs"
      using request MinerNode assms(1) by (simp_all add: handle_def keeps_def Miner_ProvideMissingBlock_eq)
    then show thesis using that keeps_mono [of H L f n n effs "Suc L"] by simp
  qed
next
  case (search oneAndDone)
  obtain m where n: "n = MinerNode m"
    using assms(1,2) search(1) client_handlers
    by (cases n) (auto simp: node_inv_def GetEmitter_def)
  then have inv: "miner_inv H L m" "set (Emitter m) \<subseteq> set node_handlers" using assms(1) by (simp_all add: node_inv_def)
  obtain m' effs where "FindProof H m oneAndDone = ret (m', effs)" "miner_inv H L m'" "Address m' = Address m"
    "Emitter m' = Emitter m" "\<forall>eff \<in> set effs. effect_ok H (Suc L) f eff"
    by (rule FindProof_keeps [OF inv(1) H])
  then show thesis
    using that [of "MinerNode m'" effs] n search inv miner_inv_mono [of H L m' "Suc L"]
    by (simp add: handle_def keeps_def node_inv_def GetAddress_def GetEmitter_def)
next
  case (transaction bs tx)
  obtain m where n: "n = MinerNode m"
    using assms(1,2) transaction(1) client_handlers
    by (cases n) (auto simp: node_inv_def GetEmitter_def)
  then have inv: "miner_inv H L m" "set (Emitter m) \<subseteq> set node_handlers" using assms(1) by (simp_all add: node_inv_def)
  let ?m = "Miner_AddTransaction H m tx"
  have "miner_inv H (Suc L) ?m"
    using miner_inv_mono [OF Miner_AddTransaction_keeps [OF inv(1) transaction(4,5)]] by simp
  then show thesis
    using that [of "MinerNode ?m" "[]"] n transaction(1-3) inv
    by (simp add: handle_def keeps_def node_inv_def GetAddress_def GetEmitter_def AddTransactionBytes_def
        Miner_AddTransaction_def ret_def)
qed

section \<open>Payments\<close>

definition good_payment :: "crypto \<Rightarrow> node \<Rightarrow> Output slice \<Rightarrow> u32 \<Rightarrow> bool" where
  "good_payment H n outputs fee =
     (let tx = (case n of ClientNode c \<Rightarrow> posted_tx H c outputs fee | MinerNode m \<Rightarrow> posted_tx H m outputs fee)
      in fair_tx tx \<and> sendable_tx tx)"

lemma PostTransaction_keeps:
  assumes "PostTransaction H c outputs fee = Ok (c', tx, effs)" "node_ok H c" "store_ok H L c"
  shows "tx = posted_tx H c outputs fee" "node_ok H c'" "store_ok H L c'" "Address c' = Address c"
    "Emitter c' = Emitter c" "client.more c' = client.more c" "Blocks c' = Blocks c" "LastBlock c' = LastBlock c"
    "Config c' = Config c" "effs = [Broadcast POST_TRANSACTION (render (json_transaction tx))]"
proof -
  let ?tx = "posted_tx H c outputs fee"
  let ?c = "c\<lparr>PendingOutgoingTransactions := map_put (Tx_Id H ?tx) ?tx (PendingOutgoingTransactions c),
       Client_Nonce := Client_Nonce c + 1\<rparr>"
  have eq: "c' = ?c" "tx = ?tx" "effs = [Broadcast POST_TRANSACTION (render (json_transaction ?tx))]"
    using assms(1) by (cases rule: PostTransaction_outcome [of c H outputs fee]; simp)+
  have "node_ok H ?c" by (rule node_ok_cong [OF assms(2)]) (use node_okD(2,3) [OF assms(2)] in simp_all)
  moreover have "store_ok H L ?c" by (rule store_ok_cong [OF assms(3)]) simp_all
  ultimately show "tx = ?tx" "node_ok H c'" "store_ok H L c'" "Address c' = Address c"
    "Emitter c' = Emitter c" "client.more c' = client.more c" "Blocks c' = Blocks c" "LastBlock c' = LastBlock c"
    "Config c' = Config c" "effs = [Broadcast POST_TRANSACTION (render (json_transaction tx))]"
    by (simp_all add: eq)
qed

lemma payment_message: "sendable_tx tx \<Longrightarrow> fair_tx tx \<Longrightarrow>
    effect_ok H L f (Broadcast POST_TRANSACTION (render (json_transaction tx)))"
  by (simp add: effect_ok_def payload_ok_def BytesToTransaction_sent)

lemma Miner_PostTransaction_keeps:
  assumes "Miner_PostTransaction H m outputs fee = Ok (m', effs)" "miner_inv H L m"
    and tx: "fair_tx (posted_tx H m outputs fee)" "sendable_tx (posted_tx H m outputs fee)"
  shows "miner_inv H L m'" "Address m' = Address m" "Emitter m' = Emitter m" "\<forall>eff \<in> set effs. effect_ok H L f eff"
proof -
  obtain m1 v where run: "PostTransaction H m outputs fee = Ok (m1, v, effs)" "m' = Miner_AddTransaction H m1 v"
    using assms(1) by (auto simp: Miner_PostTransaction_eq res_simps)
  have m: "node_ok H m" "store_ok H L m" using assms(2) by (simp_all add: miner_inv_def miner_ok_def)
  note keep = PostTransaction_keeps [OF run(1) m]
  note more = client_more_miner [OF keep(6)]
  have "built_on H m1 = built_on H m" using keep(4,9) by (intro built_on_cong)
  then have "miner_inv H L m1"
    using assms(2) keep(2,3,7,8) more by (simp add: miner_inv_def miner_ok_def chain_ok_def mining_ok_def)
  then show "miner_inv H L m'" using tx keep(1) run(2) by (simp add: Miner_AddTransaction_keeps)
  show "Address m' = Address m" "Emitter m' = Emitter m" "\<forall>eff \<in> set effs. effect_ok H L f eff"
    using keep(1,4,5,10) run(2) payment_message [OF tx(2,1), of H L f] by (simp_all add: Miner_AddTransaction_def)
qed

lemma post_step:
  assumes "post H n outputs fee = ret (n', effs)" "good_payment H n outputs fee" "node_inv H L n"
  shows "keeps H L f n n' effs"
proof (cases n)
  case (ClientNode c)
  obtain c' tx where run: "PostTransaction H c outputs fee = Ok (c', tx, effs)" "n' = ClientNode c'"
    using assms(1) ClientNode by (cases "PostTransaction H c outputs fee") (auto simp: post_def ret_def)
  have c: "node_ok H c" "store_ok H L c" using assms(3) ClientNode by (simp_all add: node_inv_def)
  note keep = PostTransaction_keeps [OF run(1) c]
  show ?thesis
    using keep payment_message [of tx H L f] assms(2,3) ClientNode run(2)
    by (simp add: keeps_def node_inv_def GetAddress_def GetEmitter_def good_payment_def Let_def)
next
  case (MinerNode m)
  obtain m' where run: "Miner_PostTransaction H m outputs fee = Ok (m', effs)" "n' = MinerNode m'"
    using assms(1) MinerNode by (cases "Miner_PostTransaction H m outputs fee") (auto simp: post_def ret_def)
  have inv: "miner_inv H L m" "set (Emitter m) \<subseteq> set node_handlers"
    "fair_tx (posted_tx H m outputs fee)" "sendable_tx (posted_tx H m outputs fee)"
    using assms(2,3) MinerNode by (simp_all add: node_inv_def good_payment_def Let_def)
  show ?thesis
    using Miner_PostTransaction_keeps [OF run(1) inv(1,3,4)] inv(2) MinerNode run(2)
    by (simp add: keeps_def node_inv_def GetAddress_def GetEmitter_def)
qed

section \<open>The network\<close>

text \<open>The tasks depend on the nodes by their number and their listeners only.\<close>

definition task_ok :: "crypto \<Rightarrow> nat \<Rightarrow> nat fakenet \<Rightarrow> (string \<times> handler) list list \<Rightarrow> task \<Rightarrow> bool" where
  "task_ok H L f ems t =
     (case t of
        Emit n event a \<Rightarrow> n < length ems \<and> message_ok H L f event a
      | Call n h a \<Rightarrow> n < length ems \<and> h \<in> snd ` set (ems ! n) \<and> payload_ok H L f h a
      | Receive n b \<Rightarrow> n < length ems \<and> legit H L b)"

definition net_ok :: "nat fakenet \<Rightarrow> node list \<Rightarrow> bool" where
  "net_ok f nodes \<longleftrightarrow> map_ok (Clients f)
     \<and> (\<forall>k r. map_get (Clients f) k = Some r \<longrightarrow> r < length nodes)
     \<and> (\<forall>n \<in> set nodes. map_get (Clients f) (GetAddress n) \<noteq> None)"

definition sys_ok :: "crypto \<Rightarrow> nat \<Rightarrow> system \<Rightarrow> bool" where
  "sys_ok H L s \<longleftrightarrow> net_ok (Net s) (Nodes s) \<and> (\<forall>n \<in> set (Nodes s). node_inv H L n)
     \<and> (\<forall>t \<in> set (Tasks s). task_ok H L (Net s) (map GetEmitter (Nodes s)) t)"

lemma task_mono: "task_ok H L f ems t \<Longrightarrow> L \<le> M \<Longrightarrow> task_ok H M f ems t"
  by (cases t) (auto simp: task_ok_def intro: message_mono payload_mono legit_mono)

lemma sys_ok_mono: "sys_ok H L s \<Longrightarrow> L \<le> M \<Longrightarrow> sys_ok H M s"
  unfolding sys_ok_def using node_inv_mono task_mono by blast

lemma spawn_ok:
  assumes "effect_ok H L f eff" "env_ok e" "n < length ems" "map_ok (Clients f)"
    "\<forall>k r. map_get (Clients f) k = Some r \<longrightarrow> r < length ems"
  obtains ts where "spawn e f n eff = Ok ts" "\<forall>t \<in> set ts. task_ok H L f ems t"
proof (cases eff)
  case (Broadcast msg data)
  have "is_order (env_clients e)" using assms(2) by (simp add: env_ok_def)
  note set = FakeNet_Broadcast_set [OF assms(4) this, of msg data]
  have "\<forall>t \<in> (\<lambda>(r, msg, data). Emit r msg (Bytes data)) ` set (FakeNet_Broadcast (env_clients e) f msg data). task_ok H L f ems t"
    unfolding set using assms(1,5) Broadcast by (auto simp: task_ok_def effect_ok_def)
  then show thesis using that Broadcast by (simp add: spawn_def)
next
  case (SendMessage addr msg data)
  then show thesis
    using that assms(1,5) by (auto simp: spawn_def effect_ok_def FakeNet_SendMessage_def task_ok_def)
qed (use that assms in \<open>auto simp: spawn_def effect_ok_def task_ok_def\<close>)

lemma spawn_all_ok:
  assumes "\<forall>eff \<in> set effs. effect_ok H L f eff" "env_ok e" "n < length ems" "map_ok (Clients f)"
    "\<forall>k r. map_get (Clients f) k = Some r \<longrightarrow> r < length ems"
  shows "\<exists>ts. spawn_all e f n effs = Ok ts \<and> (\<forall>t \<in> set ts. task_ok H L f ems t)"
  using assms(1)
proof (induction effs)
  case (Cons eff effs)
  then obtain us where us: "spawn_all e f n effs = Ok us" "\<forall>t \<in> set us. task_ok H L f ems t" by auto
  have "effect_ok H L f eff" using Cons.prems by simp
  then obtain ts where ts: "spawn e f n eff = Ok ts" "\<forall>t \<in> set ts. task_ok H L f ems t"
    using assms(2-5) by (rule spawn_ok)
  then show ?case using us by (intro exI [of _ "ts @ us"]) auto
qed simp

text \<open>A step of one node.\<close>

lemma update_node_ok:
  assumes "sys_ok H L s" "n < length (Nodes s)" "run = ret (n', effs)" "keeps H L (Net s) (Nodes s ! n) n' effs" "env_ok e"
  obtains new where "update_node e s n run = ret (s\<lparr>Nodes := (Nodes s)[n := n']\<rparr>, new)"
    "\<forall>ts. set ts \<subseteq> set (Tasks s) \<union> set new \<longrightarrow> sys_ok H L (s\<lparr>Nodes := (Nodes s)[n := n'], Tasks := ts\<rparr>)"
proof -
  let ?ems = "map GetEmitter (Nodes s)" and ?nodes = "(Nodes s)[n := n']"
  have same: "GetEmitter n' = GetEmitter (Nodes s ! n)" "GetAddress n' = GetAddress (Nodes s ! n)" "node_inv H L n'"
    using assms(4) by (simp_all add: keeps_def)
  have net: "map_ok (Clients (Net s))" "\<forall>k r. map_get (Clients (Net s)) k = Some r \<longrightarrow> r < length ?ems"
    using assms(1) by (simp_all add: sys_ok_def net_ok_def)
  obtain new where new: "spawn_all e (Net s) n effs = Ok new" "\<forall>t \<in> set new. task_ok H L (Net s) ?ems t"
    using spawn_all_ok [of effs H L "Net s" e n ?ems] assms(2,4,5) net by (auto simp: keeps_def)
  have ems: "map GetEmitter ?nodes = ?ems"
    using same(1) assms(2) by (simp add: list_eq_iff_nth_eq nth_list_update)
  have mem: "v \<in> set ?nodes \<Longrightarrow> v = n' \<or> v \<in> set (Nodes s)" for v using set_update_subset_insert by fast
  have at: "Nodes s ! n \<in> set (Nodes s)" using assms(2) by simp
  have "\<forall>v \<in> set ?nodes. node_inv H L v" using mem same(3) assms(1) by (auto simp: sys_ok_def)
  moreover have "net_ok (Net s) ?nodes"
    using assms(1) mem same(2) at by (auto simp: sys_ok_def net_ok_def dest!: mem)
  ultimately have "sys_ok H L (s\<lparr>Nodes := ?nodes, Tasks := ts\<rparr>)" if "set ts \<subseteq> set (Tasks s) \<union> set new" for ts
    using that new(2) assms(1) ems unfolding sys_ok_def by auto
  then show thesis using that new(1) assms(3) by (simp add: update_node_def ret_def)
qed

section \<open>Steps\<close>

lemma node_facts:
  assumes "sys_ok H L s" "n < length (Nodes s)"
  shows "node_inv H L (Nodes s ! n)" "map_get (Clients (Net s)) (GetAddress (Nodes s ! n)) \<noteq> None"
  using assms by (auto simp: sys_ok_def net_ok_def)

lemma sys_ok_tasks:
  "sys_ok H L s \<Longrightarrow> \<forall>t \<in> set ts. task_ok H L (Net s) (map GetEmitter (Nodes s)) t \<Longrightarrow> sys_ok H L (s\<lparr>Tasks := ts\<rparr>)"
  by (simp add: sys_ok_def)

lemma run_task_ok:
  assumes ok: "sys_ok H L s" "t \<in> set (Tasks s)" and env: "env_ok e" "valid_time (env_now e)"
    and H: "separates H" "L + 1 < 2 ^ 32" and emit: "dispatches emit"
  obtains s' new where "run_task H emit e s t = ret (s', new)"
    "\<And>ts. set ts \<subseteq> set (Tasks s) \<union> set new \<Longrightarrow> sys_ok H (Suc L) (s'\<lparr>Tasks := ts\<rparr>)"
proof -
  let ?ems = "map GetEmitter (Nodes s)"
  have t: "task_ok H L (Net s) ?ems t" using ok by (simp add: sys_ok_def)
  have later: "sys_ok H (Suc L) s" using ok(1) by (rule sys_ok_mono) simp
  show thesis
  proof (cases t)
    case (Emit n event a)
    let ?new = "map (\<lambda>h. Call n h a) (emit (GetEmitter (Nodes s ! n)) event)"
    have n: "n < length (Nodes s)" "message_ok H L (Net s) event a" using t Emit by (simp_all add: task_ok_def)
    have sub: "set (GetEmitter (Nodes s ! n)) \<subseteq> set node_handlers"
      using node_facts(1) [OF ok(1) n(1)] set_take_subset [of 2 node_handlers]
      by (auto simp: node_inv_def GetEmitter_def split: node.splits)
    have "task_ok H L (Net s) ?ems u" if u: "u \<in> set ?new" for u
    proof -
      obtain h where h: "u = Call n h a" "(event, h) \<in> set (GetEmitter (Nodes s ! n))"
        using u emit by (auto simp: dispatches_def)
      then have "payload_ok H L (Net s) h a" using n(2) sub by (auto simp: message_ok_def)
      moreover have "h \<in> snd ` set (GetEmitter (Nodes s ! n))" using h(2) by force
      ultimately show ?thesis using h(1) n(1) by (simp add: task_ok_def)
    qed
    then have all: "task_ok H L (Net s) ?ems u" if "u \<in> set (Tasks s) \<or> u \<in> set ?new" for u
      using that ok(1) unfolding sys_ok_def by blast
    have "sys_ok H (Suc L) (s\<lparr>Tasks := ts\<rparr>)" if ts: "set ts \<subseteq> set (Tasks s) \<union> set ?new" for ts
    proof (rule sys_ok_tasks [OF later], rule ballI)
      fix u assume "u \<in> set ts"
      then have "u \<in> set (Tasks s) \<or> u \<in> set ?new" using ts by blast
      then have "task_ok H L (Net s) ?ems u" by (rule all)
      then show "task_ok H (Suc L) (Net s) ?ems u" by (rule task_mono) simp
    qed
    moreover have "run_task H emit e s t = ret (s, ?new)" using Emit by (simp add: run_task_def)
    ultimately show thesis using that [of s ?new] by simp
  next
    case (Call n h a)
    have n: "n < length (Nodes s)" "h \<in> snd ` set (GetEmitter (Nodes s ! n))" "payload_ok H L (Net s) h a"
      using t Call nth_map [of n "Nodes s" GetEmitter] by (auto simp: task_ok_def)
    obtain n' effs where run: "handle H e (Nodes s ! n) h a = ret (n', effs)" "keeps H (Suc L) (Net s) (Nodes s ! n) n' effs"
      by (rule handle_step [OF node_facts(1) [OF ok(1) n(1)] n(2,3) env H node_facts(2) [OF ok(1) n(1)]])
    obtain new where "update_node e s n (handle H e (Nodes s ! n) h a) = ret (s\<lparr>Nodes := (Nodes s)[n := n']\<rparr>, new)"
      "\<forall>ts. set ts \<subseteq> set (Tasks s) \<union> set new \<longrightarrow> sys_ok H (Suc L) (s\<lparr>Nodes := (Nodes s)[n := n'], Tasks := ts\<rparr>)"
      by (rule update_node_ok [OF later n(1) run env(1)])
    then show thesis using that Call by (simp add: run_task_def)
  next
    case (Receive n b)
    have n: "n < length (Nodes s)" "legit H L b" using t Receive by (simp_all add: task_ok_def)
    obtain n' effs where run: "receive H e (Nodes s ! n) b = ret (n', effs)" "keeps H L (Net s) (Nodes s ! n) n' effs"
      by (rule ReceiveBlock_step [OF node_facts(1) [OF ok(1) n(1)] n(2) env H node_facts(2) [OF ok(1) n(1)]])
    have keep: "keeps H (Suc L) (Net s) (Nodes s ! n) n' effs" using run(2) by (rule keeps_mono) simp
    obtain new where "update_node e s n (receive H e (Nodes s ! n) b) = ret (s\<lparr>Nodes := (Nodes s)[n := n']\<rparr>, new)"
      "\<forall>ts. set ts \<subseteq> set (Tasks s) \<union> set new \<longrightarrow> sys_ok H (Suc L) (s\<lparr>Nodes := (Nodes s)[n := n'], Tasks := ts\<rparr>)"
      by (rule update_node_ok [OF later n(1) run(1) keep env(1)])
    then show thesis using that Receive by (simp add: run_task_def)
  qed
qed

lemma step_ok:
  assumes "sys_step H emit (good_payment H) valid_time s s'" "sys_ok H L s"
    "separates H" "L + 1 < 2 ^ 32" "dispatches emit"
  shows "sys_ok H (Suc L) s'"
  using assms(1)
proof (cases rule: sys_step.cases)
  case (task pre t rest e s1 new)
  have "t \<in> set (Tasks s)" using task by simp
  then obtain s2 new' where "run_task H emit e s t = ret (s2, new')"
    "\<And>ts. set ts \<subseteq> set (Tasks s) \<union> set new' \<Longrightarrow> sys_ok H (Suc L) (s2\<lparr>Tasks := ts\<rparr>)"
    using run_task_ok [OF assms(2) _ task(3,4) assms(3-5)] by blast
  moreover from this have "s1 = s2" "new = new'" using task(5) by simp_all
  moreover have "set (pre @ rest @ new) \<subseteq> set (Tasks s) \<union> set new" using task(2) by auto
  ultimately show ?thesis using task(1) by simp
next
  case (pay n outputs fee e s1 new)
  obtain n' effs where run: "post H (Nodes s ! n) outputs fee = ret (n', effs)"
    using pay(5) unfolding update_node_def go_bind_ret_iff by fastforce
  have "keeps H L (Net s) (Nodes s ! n) n' effs"
    by (rule post_step [OF run pay(3) node_facts(1) [OF assms(2) pay(2)]])
  then have keep: "keeps H (Suc L) (Net s) (Nodes s ! n) n' effs" by (rule keeps_mono) simp
  have later: "sys_ok H (Suc L) s" using assms(2) by (rule sys_ok_mono) simp
  obtain new' where "update_node e s n (post H (Nodes s ! n) outputs fee) = ret (s\<lparr>Nodes := (Nodes s)[n := n']\<rparr>, new')"
    "\<forall>ts. set ts \<subseteq> set (Tasks s) \<union> set new' \<longrightarrow> sys_ok H (Suc L) (s\<lparr>Nodes := (Nodes s)[n := n'], Tasks := ts\<rparr>)"
    by (rule update_node_ok [OF later pay(2) run keep pay(4)])
  moreover from this have "s1 = s\<lparr>Nodes := (Nodes s)[n := n']\<rparr>" "new = new'" using pay(5) by simp_all
  moreover have "set (Tasks s @ new) \<subseteq> set (Tasks s) \<union> set new" by simp
  ultimately show ?thesis using pay(1) by simp
qed

lemma steps_ok:
  assumes "(sys_step H emit (good_payment H) valid_time ^^ n) s s'" "sys_ok H L s"
    "separates H" "L + n < 2 ^ 32" "dispatches emit"
  shows "sys_ok H (L + n) s'"
  using assms(1,4)
proof (induction n arbitrary: s')
  case 0
  then show ?case using assms(2) by simp
next
  case (Suc n)
  obtain s1 where s1: "(sys_step H emit (good_payment H) valid_time ^^ n) s s1"
      "sys_step H emit (good_payment H) valid_time s1 s'"
    using Suc.prems(1) by auto
  have "sys_ok H (L + n) s1" using Suc.IH [OF s1(1)] Suc.prems(2) by simp
  then show ?case using step_ok [OF s1(2) _ assms(3) _ assms(5)] Suc.prems(2) by simp
qed

end
