(* ===== verification/Network.thy ===== *)
theory Network
  imports SystemSafe
begin

text \<open>
  A network from its start: the nodes that the constructors make on one genesis block, registered
  with one another, satisfy the invariant of \<open>SystemSafe\<close>.
\<close>

section \<open>The start\<close>

text \<open>
  A network as the tests set it up: nodes made on one genesis block, miners initialised, and all
  registered. A key pair may be given or generated.
\<close>

datatype new_node =
  ClientSetup string "PrivateKey option" "error + PrivateKey"
| MinerSetup string u32 "PrivateKey option" "error + PrivateKey" BlockchainConfig

definition start_node :: "crypto \<Rightarrow> environment \<Rightarrow> Block \<Rightarrow> new_node \<Rightarrow> (node \<times> effect list) res" where
  "start_node H e g su =
     (case su of
        ClientSetup name key generated \<Rightarrow>
          res_bind (NewClient H name (Some g) key generated) (\<lambda>c. Ok (ClientNode c, []))
      | MinerSetup name rounds key generated config \<Rightarrow>
          res_bind (NewMiner H name rounds (Some g) key generated config) (\<lambda>m.
            res_bind (Initialize H (env_now e) (env_orders e) m) (\<lambda>(m', effs). Ok (MinerNode m', effs))))"

fun start_nodes :: "crypto \<Rightarrow> environment \<Rightarrow> Block \<Rightarrow> new_node list \<Rightarrow> (node \<times> effect list) list res" where
  "start_nodes H e g [] = Ok []"
| "start_nodes H e g (su # sus) =
     res_bind (start_node H e g su) (\<lambda>n. res_bind (start_nodes H e g sus) (\<lambda>ns. Ok (n # ns)))"

fun start_tasks :: "environment \<Rightarrow> nat fakenet \<Rightarrow> nat \<Rightarrow> (node \<times> effect list) list \<Rightarrow> task list res" where
  "start_tasks e f n [] = Ok []"
| "start_tasks e f n ((node, effs) # rest) =
     res_bind (spawn_all e f n effs) (\<lambda>ts. res_bind (start_tasks e f (Suc n) rest) (\<lambda>us. Ok (ts @ us)))"

definition start_network :: "crypto \<Rightarrow> environment \<Rightarrow> Block \<Rightarrow> new_node list \<Rightarrow> system res" where
  "start_network H e g setups =
     res_bind (start_nodes H e g setups) (\<lambda>ns.
       let nodes = map fst ns;
           f = Register (\<lambda>i. GetAddress (nodes ! i)) NewFakeNet [0..<length nodes]
       in res_bind (start_tasks e f 0 ns) (\<lambda>ts. Ok \<lparr>Nodes = nodes, Net = f, Tasks = ts\<rparr>))"

text \<open>A digest has 32 bytes, so an address is long enough for the log.\<close>

definition digests :: "crypto \<Rightarrow> bool" where
  "digests H \<longleftrightarrow> (\<forall>d. length (Sum256 H d) = 32)"

definition has_key :: "new_node \<Rightarrow> bool" where
  "has_key su = (case su of ClientSetup _ key generated \<Rightarrow> key \<noteq> None \<or> (\<exists>k. generated = Inr k)
     | MinerSetup _ _ key generated _ \<Rightarrow> key \<noteq> None \<or> (\<exists>k. generated = Inr k))"

lemma address_ok: "digests H \<Longrightarrow> 10 \<le> length (GenerateAddress H k)" "valid_utf8 (GenerateAddress H k)"
  by (simp_all add: GenerateAddress_def length_hex_encode digests_def plain_valid hex_encode_plain)

lemma genesis_legit:
  assumes "MakeGenesis H now ord lz amt fee depth (Some bal) = (Inr (Some g), config)"
    and "is_order ord" "map_ok bal" "valid_time now" "\<forall>(k, v) \<in> set bal. valid_utf8 k" "separates H"
  shows "legit H 0 g" "IsGenesisBlock g"
proof -
  have g: "PrevBlockHash g = []" "ChainLength g = 0" "Timestamp g = now" "RewardAddr g = []" "NextNonce g = Some []"
    "Transactions g = Some []" "elems (Balances g) = map (\<lambda>(k, v). \<lparr>Balance_id = k, Balance = v\<rparr>) (ord bal)"
    using assms(1) by (auto simp: MakeGenesis_Some)
  have names: "valid_utf8 (Balance_id r)" if "r \<in> set (elems (Balances g))" for r
    using that assms(5) order_map(3) [OF assms(2,3)] by (auto simp: g(7))
  have "sendable_block g" using g(1-6) assms(4) names by (simp add: sendable_block_def)
  moreover have "good_block H g" "fair_block g" using g(6) by (simp_all add: good_block_def honest_def fair_block_def)
  moreover have "GetHashStr H p \<noteq> PrevBlockHash g" if "sendable_block p" for p
    using hash_not_empty [OF assms(6) that] g(1) by simp
  ultimately show "legit H 0 g" using g(1,2) by (simp add: legit_def)
  show "IsGenesisBlock g" using g(2) by (simp add: IsGenesisBlock_def)
qed

lemma NewClient_effect:
  assumes "NewClient H name (Some g) key generated = Ok c" "GetHash H g = Inr k"
  shows "LastBlock c = Some g" "LastConfirmedBlock c = Some g" "Blocks c = [(k, g)]"
    "PendingBlocks c = []" "PendingOutgoingTransactions c = []"
    "Emitter c = [(PROOF_FOUND, ReceiveBlockBytes_handler), (MISSING_BLOCK, ProvideMissingBlock_handler)]"
    "\<exists>pubKey. Address c = GenerateAddress H pubKey"
  using assms
  by (auto simp: NewClient_def Let_def SetGenesisBlock_def map_put_def split: sum.splits option.splits)

lemma client_start:
  assumes "NewClient H name (Some g) key generated = Ok c" "legit H L g" "IsGenesisBlock g" "digests H"
  shows "node_inv H L (ClientNode c)"
proof -
  have id: "GetHash H g = Inr (GetHashStr H g)" by (rule sendable_hash [OF legitD(3) [OF assms(2)]])
  note new = NewClient_effect [OF assms(1) id]
  have addr: "10 \<le> length (Address c)" "valid_utf8 (Address c)" using new(7) address_ok assms(4) by auto
  have "SetGenesisBlock H (c\<lparr>Blocks := []\<rparr>) g = Ok c"
    using new(1-3) id by (cases c) (simp add: SetGenesisBlock_def map_put_def)
  then have "node_ok H c"
    by (rule SetGenesisBlock_ok) (use assms(3) new addr(1) in \<open>simp_all add: map_ok_def\<close>)
  moreover have "store_ok H L c"
    using new(3,4) assms(2) addr(2) by (auto simp: store_ok_def split: if_splits)
  ultimately show ?thesis using new(6) by (simp add: node_inv_def node_handlers_def)
qed

lemma miner_start:
  assumes "NewMiner H name rounds (Some g) key generated config = Ok m" "legit H 0 g" "IsGenesisBlock g"
    "digests H" "separates H" "env_ok e" "valid_time (env_now e)"
  obtains m' where "Initialize H (env_now e) (env_orders e) m = Ok (m', [GoEmit START_MINING False])"
    "node_inv H 0 (MinerNode m')"
proof -
  have addr: "10 \<le> length (Address m)" "valid_utf8 (Address m)"
    using assms(1) address_ok(1) [OF assms(4)] address_ok(2)
    by (auto simp: NewMiner_def Let_def Miner_SetGenesisBlock_def res_simps split: sum.splits)
  note new = NewMiner_fresh [OF assms(1) sendable_hash [OF legitD(3) [OF assms(2)]] addr(1)]
  have ord: "orders_ok (env_orders e)" using assms(6) by (simp add: env_ok_def)
  obtain cb where cb: "StartNewSearch H (env_now e) (env_orders e) m None =
      Ok (m\<lparr>CurrentBlock := Some cb, Miner_Transactions := \<lparr>items = []\<rparr>\<rparr>)"
    "miner_inv H 0 (m\<lparr>CurrentBlock := Some cb, Miner_Transactions := \<lparr>items = []\<rparr>\<rparr>)"
    by (rule miner.first_keeps [OF new(1) assms(2,3,5) ord assms(7) addr(2)])
  let ?m = "m\<lparr>CurrentBlock := Some cb, Miner_Transactions := \<lparr>items = []\<rparr>\<rparr>"
  let ?m' = "?m\<lparr>Emitter := Emitter ?m @ [(START_MINING, FindProof_handler), (POST_TRANSACTION, AddTransactionBytes_handler)]\<rparr>"
  have "Initialize H (env_now e) (env_orders e) m = Ok (?m', [GoEmit START_MINING False])"
    by (simp add: Initialize_def cb(1))
  moreover have "node_inv H 0 (MinerNode ?m')"
    using miner_inv_Emitter [OF cb(2)] new(2) by (simp add: node_inv_def node_handlers_def)
  ultimately show thesis by (rule that)
qed

section \<open>All nodes\<close>

lemma start_node_ok:
  assumes "has_key su" "legit H 0 g" "IsGenesisBlock g" "digests H" "separates H" "env_ok e" "valid_time (env_now e)"
  obtains n effs where "start_node H e g su = Ok (n, effs)" "node_inv H 0 n"
    "\<forall>f. \<forall>eff \<in> set effs. effect_ok H 0 f eff"
proof (cases su)
  case (ClientSetup name key generated)
  have "GetHash H g = Inr (GetHashStr H g)" by (rule sendable_hash [OF legitD(3) [OF assms(2)]])
  then obtain c where c: "NewClient H name (Some g) key generated = Ok c"
    using assms(1) ClientSetup
    by (cases key) (auto simp: has_key_def NewClient_def GenerateKeypair_def Let_def SetGenesisBlock_def)
  then show thesis using that client_start [OF c assms(2-4)] ClientSetup by (simp add: start_node_def)
next
  case (MinerSetup name rounds key generated config)
  obtain m where m: "NewMiner H name rounds (Some g) key generated config = Ok m"
    using assms(1) MinerSetup
    by (cases key) (auto simp: has_key_def NewMiner_def GenerateKeypair_def Let_def Miner_SetGenesisBlock_def)
  obtain m' where "Initialize H (env_now e) (env_orders e) m = Ok (m', [GoEmit START_MINING False])"
    "node_inv H 0 (MinerNode m')"
    by (rule miner_start [OF m assms(2-7)])
  then show thesis
    using that [of "MinerNode m'" "[GoEmit START_MINING False]"] m MinerSetup
    by (simp add: start_node_def effect_ok_def payload_ok_def)
qed

lemma start_nodes_ok:
  assumes "\<forall>su \<in> set sus. has_key su" "legit H 0 g" "IsGenesisBlock g" "digests H" "separates H" "env_ok e"
    "valid_time (env_now e)"
  shows "\<exists>ns. start_nodes H e g sus = Ok ns \<and> length ns = length sus
    \<and> (\<forall>(n, effs) \<in> set ns. node_inv H 0 n \<and> (\<forall>f. \<forall>eff \<in> set effs. effect_ok H 0 f eff))"
  using assms(1)
proof (induction sus)
  case (Cons su sus)
  then obtain ns where ns: "start_nodes H e g sus = Ok ns" "length ns = length sus"
    "\<forall>(n, effs) \<in> set ns. node_inv H 0 n \<and> (\<forall>f. \<forall>eff \<in> set effs. effect_ok H 0 f eff)"
    by auto
  have "has_key su" using Cons.prems by simp
  then obtain n effs where n: "start_node H e g su = Ok (n, effs)" "node_inv H 0 n"
    "\<forall>f. \<forall>eff \<in> set effs. effect_ok H 0 f eff"
    using assms(2-7) by (rule start_node_ok)
  then show ?case using ns by (intro exI [of _ "(n, effs) # ns"]) simp
qed simp

lemma start_tasks_ok:
  assumes "\<forall>(node, effs) \<in> set ns. \<forall>eff \<in> set effs. effect_ok H L f eff" "n + length ns \<le> length ems" "env_ok e"
    "map_ok (Clients f)" "\<forall>k r. map_get (Clients f) k = Some r \<longrightarrow> r < length ems"
  shows "\<exists>ts. start_tasks e f n ns = Ok ts \<and> (\<forall>t \<in> set ts. task_ok H L f ems t)"
  using assms(1,2)
proof (induction ns arbitrary: n)
  case (Cons v ns)
  obtain node effs where v: "v = (node, effs)" by fastforce
  obtain us where us: "start_tasks e f (Suc n) ns = Ok us" "\<forall>t \<in> set us. task_ok H L f ems t"
    using Cons.IH [of "Suc n"] Cons.prems by auto
  obtain ts where "spawn_all e f n effs = Ok ts" "\<forall>t \<in> set ts. task_ok H L f ems t"
    using spawn_all_ok [of effs H L f e n ems] Cons.prems v assms(3-5) by auto
  then show ?case using us v by (intro exI [of _ "ts @ us"]) auto
qed simp

lemma Register_ok: "map_ok (Clients f) \<Longrightarrow> map_ok (Clients (Register addr f cs))"
  unfolding Register_def by (induction cs arbitrary: f) simp_all

lemma registered_net:
  fixes nodes :: "node list"
  defines "addr \<equiv> \<lambda>i. GetAddress (nodes ! i)"
  shows "net_ok (Register addr NewFakeNet [0..<length nodes]) nodes"
proof -
  let ?f = "Register addr NewFakeNet [0..<length nodes]"
  have f: "?f = foldl (\<lambda>f c. Register addr f [c]) NewFakeNet [0..<length nodes]" by (rule Register_all)
  have "map_ok (Clients ?f)" by (rule Register_ok) (simp add: NewFakeNet_def map_ok_def)
  moreover have "r < length nodes" if "map_get (Clients ?f) k = Some r" for k r
  proof -
    have "List.find (\<lambda>e. addr e = k) (rev [0..<length nodes]) = Some r"
      using that [unfolded f] fn.entry_register_all [of addr NewFakeNet "[0..<length nodes]" k]
      by (auto simp: NewFakeNet_def split: option.splits)
    then have "r \<in> set (rev [0..<length nodes])" unfolding find_Some_iff by (metis nth_mem)
    then show ?thesis by simp
  qed
  moreover have "map_get (Clients ?f) (GetAddress n) \<noteq> None" if n: "n \<in> set nodes" for n
  proof -
    obtain i where i: "i < length nodes" "n = nodes ! i" using n by (auto simp: in_set_conv_nth)
    then have "Recognizes addr ?f i"
      unfolding f using fn.recognizes_register_all [of addr NewFakeNet "[0..<length nodes]" i] by simp
    then show ?thesis using i by (simp add: Recognizes_def addr_def)
  qed
  ultimately show ?thesis by (simp add: net_ok_def)
qed

lemma start_network_ok:
  assumes "\<forall>su \<in> set setups. has_key su" "legit H 0 g" "IsGenesisBlock g" "digests H" "separates H" "env_ok e"
    "valid_time (env_now e)"
  shows "\<exists>s. start_network H e g setups = Ok s \<and> sys_ok H 0 s \<and> length (Nodes s) = length setups"
proof -
  obtain ns where ns: "start_nodes H e g setups = Ok ns" "length ns = length setups"
    "\<forall>(n, effs) \<in> set ns. node_inv H 0 n \<and> (\<forall>f. \<forall>eff \<in> set effs. effect_ok H 0 f eff)"
    using start_nodes_ok [OF assms] by blast
  let ?nodes = "map fst ns"
  let ?f = "Register (\<lambda>i. GetAddress (?nodes ! i)) NewFakeNet [0..<length ?nodes]"
  let ?ems = "map GetEmitter ?nodes"
  have net: "net_ok ?f ?nodes" by (rule registered_net)
  have "\<exists>ts. start_tasks e ?f 0 ns = Ok ts \<and> (\<forall>t \<in> set ts. task_ok H 0 ?f ?ems t)"
    by (rule start_tasks_ok) (use ns(3) net assms(6) in \<open>auto simp: net_ok_def\<close>)
  then obtain ts where ts: "start_tasks e ?f 0 ns = Ok ts" "\<forall>t \<in> set ts. task_ok H 0 ?f ?ems t" by blast
  let ?s = "\<lparr>Nodes = ?nodes, Net = ?f, Tasks = ts\<rparr>"
  have "\<forall>n \<in> set ?nodes. node_inv H 0 n" using ns(3) by auto
  then have "sys_ok H 0 ?s" using net ts(2) by (simp add: sys_ok_def)
  then show ?thesis using ns(1,2) ts(1) by (intro exI [of _ ?s]) (simp add: start_network_def Let_def)
qed

end
