(* ===== verification/SystemProps.thy ===== *)
theory SystemProps
  imports Network CodecProps
begin

text \<open>
  Properties of a network of clients and miners from its start, and a concrete network for the
  witnesses, with a hash of 32 bytes that tells the lengths of blocks apart.
\<close>

section \<open>A hash for the witnesses\<close>

definition length_digest :: "u32 \<Rightarrow> string" where
  "length_digest w = map (\<lambda>i. if bit w i then CHR 0x01 else CHR 0x00) (rev [0..<32])"

definition net_crypto :: crypto where
  "net_crypto = demo_crypto\<lparr>Sum256 := \<lambda>d. case BytesToBlock d of
     Inl _ \<Rightarrow> replicate 32 CHR 0x00 | Inr b \<Rightarrow> length_digest (ChainLength b)\<rparr>"

lemma length_digest_inject: "length_digest v = length_digest w \<Longrightarrow> v = w"
proof (rule bit_word_eqI)
  fix n assume eq: "length_digest v = length_digest w" and n: "n < LENGTH(32)"
  have "n \<in> set (rev [0..<32])" using n by simp
  then have "(if bit v n then CHR 0x01 else CHR 0x00) = (if bit w n then CHR 0x01 else CHR 0x00)"
    using eq unfolding length_digest_def map_eq_conv by blast
  then show "bit v n = bit w n" by (simp split: if_splits)
qed

lemma net_digests: "digests net_crypto"
  by (simp add: digests_def net_crypto_def length_digest_def split: sum.split)

lemma digit_inject: "m < 16 \<Longrightarrow> n < 16 \<Longrightarrow> digit m = digit n \<Longrightarrow> m = n"
proof -
  have "distinct hextable" "length hextable = 16" by (simp_all add: hextable_def)
  then show "m < 16 \<Longrightarrow> n < 16 \<Longrightarrow> digit m = digit n \<Longrightarrow> m = n"
    unfolding digit_def by (simp add: nth_eq_iff_index_eq)
qed

lemma hex_encode_inject: "hex_encode s = hex_encode t \<Longrightarrow> s = t"
proof (induction s arbitrary: t)
  case Nil
  then show ?case by (cases t) simp_all
next
  case (Cons c s)
  then obtain d t' where t: "t = d # t'" by (cases t) simp_all
  have "byte c div 16 = byte d div 16" "byte c mod 16 = byte d mod 16"
    using Cons.prems t digit_inject by (simp_all add: byte_div_16)
  then have "byte c = byte d" by (metis div_mult_mod_eq)
  then have "c = d" by simp
  then show ?case using Cons t by simp
qed

lemma net_hash:
  assumes "sendable_block b"
  shows "GetHashStr net_crypto b = hex_encode (length_digest (ChainLength b))"
proof -
  have "sendable_block (block4hash b)" using assms by (simp add: sendable_block_def block4hash_def)
  then obtain data where "BlockToBytes (block4hash b) = Inr data" "BytesToBlock data = Inr (block4hash b)"
    by (rule sendable_bytes)
  moreover have "ChainLength (block4hash b) = ChainLength b" by (simp add: block4hash_def)
  ultimately show ?thesis by (simp add: GetHashStr_def net_crypto_def)
qed

lemma net_separates: "separates net_crypto"
proof -
  have "Sum256 net_crypto d \<noteq> []" for d using net_digests by (metis digests_def length_0_conv zero_neq_numeral)
  then show ?thesis
    using net_hash hex_encode_inject length_digest_inject by (metis separates_def)
qed

section \<open>A network runs safely\<close>

text \<open>C1: A network of clients and miners never stops: start any number of clients and miners (with a
  key each) on one genesis block that MakeGenesis made, register them on a FakeNet, and let the
  goroutines, the listeners and paying users run in any order. After any number of steps below 2^32,
  every task that is ready runs to its end without a panic and without looping, and every node
  satisfies its invariant: its blocks are linked and found under their hashes, its head is a longest
  stored block, its confirmed block lies 6 below, and a miner mines on its head. (The users pay with
  transactions whose amounts do not wrap around; digests have 32 bytes and differ for blocks of
  different length; names and times are as Go's JSON can send them.)\<close>

theorem network_never_panics:
  assumes "digests H" and "separates H" and "dispatches emit"
    and "MakeGenesis H now ord lz amt fee depth (Some bal) = (Inr (Some g), config)"
    and "is_order ord" and "map_ok bal" and "valid_time now" and "\<forall>(k, v) \<in> set bal. valid_utf8 k"
    and "\<forall>su \<in> set setups. has_key su" and "env_ok e" and "valid_time (env_now e)" and "n + 1 < 2 ^ 32"
  shows "\<exists>s. start_network H e g setups = Ok s \<and> length (Nodes s) = length setups
    \<and> (\<forall>s'. (sys_step H emit (good_payment H) valid_time ^^ n) s s' \<longrightarrow>
          list_all (\<lambda>t. \<forall>e. env_ok e \<and> valid_time (env_now e) \<longrightarrow>
            (\<exists>s'' new. run_task H emit e s' t = ret (s'', new))) (Tasks s')
        \<and> list_all (\<lambda>v. case v of ClientNode c \<Rightarrow> node_ok H c | MinerNode m \<Rightarrow> miner_ok H m) (Nodes s'))"
proof -
  have g: "legit H 0 g" "IsGenesisBlock g" by (rule genesis_legit [OF assms(4-8,2)])+
  obtain s where s: "start_network H e g setups = Ok s" "sys_ok H 0 s" "length (Nodes s) = length setups"
    using start_network_ok [OF assms(9) g assms(1,2,10,11)] by blast
  have "list_all (\<lambda>t. \<forall>e. env_ok e \<and> valid_time (env_now e) \<longrightarrow>
            (\<exists>s'' new. run_task H emit e s' t = ret (s'', new))) (Tasks s')
      \<and> list_all (\<lambda>v. case v of ClientNode c \<Rightarrow> node_ok H c | MinerNode m \<Rightarrow> miner_ok H m) (Nodes s')"
    if run: "(sys_step H emit (good_payment H) valid_time ^^ n) s s'" for s'
  proof -
    have ok: "sys_ok H n s'" using steps_ok [OF run s(2) assms(2) _ assms(3)] assms(12) by simp
    then have "\<forall>v \<in> set (Nodes s'). node_inv H n v" by (simp add: sys_ok_def)
    then have "\<forall>v \<in> set (Nodes s'). case v of ClientNode c \<Rightarrow> node_ok H c | MinerNode m \<Rightarrow> miner_ok H m"
      by (fastforce simp: node_inv_def miner_inv_def split: node.splits)
    moreover have "\<exists>s'' new. run_task H emit e' s' t = ret (s'', new)"
      if t: "t \<in> set (Tasks s')" "env_ok e'" "valid_time (env_now e')" for t e'
      by (rule run_task_ok [OF ok t assms(2,12,3)]) blast
    ultimately show ?thesis by (auto simp: list_all_iff)
  qed
  then show ?thesis using s(1,3) by blast
qed

definition net_env :: environment where
  "net_env = \<lparr>env_now = demo_time, env_orders = demo_orders, env_clients = id\<rparr>"

definition net_emit :: dispatcher where
  "net_emit on event = map snd (filter (\<lambda>(e, h). e = event) on)"

definition net_setups :: "new_node list" where
  "net_setups = [ClientSetup ''Alice'' (Some demo_key) (Inl (Error [])),
     MinerSetup ''Minnie'' 2000 (Some demo_key) (Inl (Error [])) demo_config]"

theorem network_never_panics_witness:
  "\<exists>g s c m. start_network net_crypto net_env g net_setups = Ok s
     \<and> Nodes s = [ClientNode c, MinerNode m] \<and> Tasks s = [Emit 1 START_MINING (Flag False)]
     \<and> node_ok net_crypto c \<and> miner_ok net_crypto m
     \<and> (\<exists>s' new. run_task net_crypto net_emit net_env s (Emit 1 START_MINING (Flag False)) = ret (s', new))"
proof -
  let ?bal = "[(''alice'', 100 :: u32)]"
  obtain g config where g: "MakeGenesis net_crypto demo_time id 1 25 1 6 (Some ?bal) = (Inr (Some g), config)"
    by (simp add: MakeGenesis_Some)
  have emit: "dispatches net_emit" by (force simp: dispatches_def net_emit_def image_iff)
  have env: "env_ok net_env" "valid_time (env_now net_env)"
    using demo_orders_ok demo_valid_time by (simp_all add: env_ok_def net_env_def is_order_def)
  have facts: "is_order id" "map_ok ?bal" "\<forall>(k, v) \<in> set ?bal. valid_utf8 k" "\<forall>su \<in> set net_setups. has_key su"
    "(0 :: nat) + 1 < 2 ^ 32"
    by (simp_all add: is_order_def map_ok_def net_setups_def has_key_def)
  obtain s where s: "start_network net_crypto net_env g net_setups = Ok s"
    "list_all (\<lambda>t. \<forall>e. env_ok e \<and> valid_time (env_now e) \<longrightarrow>
       (\<exists>s'' new. run_task net_crypto net_emit e s t = ret (s'', new))) (Tasks s)"
    "list_all (\<lambda>v. case v of ClientNode c \<Rightarrow> node_ok net_crypto c | MinerNode m \<Rightarrow> miner_ok net_crypto m) (Nodes s)"
    using network_never_panics [OF net_digests net_separates emit g facts(1,2) demo_valid_time facts(3,4) env facts(5)]
    by auto
  obtain c m where shape: "Nodes s = [ClientNode c, MinerNode m]" "Tasks s = [Emit 1 START_MINING (Flag False)]"
    using s(1) by (auto simp: start_network_def net_setups_def start_node_def Initialize_def spawn_def Let_def res_simps)
  have "\<exists>s' new. run_task net_crypto net_emit net_env s (Emit 1 START_MINING (Flag False)) = ret (s', new)"
    using s(2) shape(2) env by simp
  moreover have "node_ok net_crypto c" "miner_ok net_crypto m" using s(3) shape(1) by simp_all
  ultimately show ?thesis using s(1) shape by blast
qed

section \<open>Delivery\<close>

text \<open>C40: A FakeNet on which clients with different addresses were registered delivers: it recognises
  exactly the registered addresses, a message to a registered address goes to that client, a broadcast
  goes to every registered client exactly once whatever the order of the map, and a message to any
  other address panics (so a request that names an unknown address stops the process of the node that
  answers it).\<close>

theorem FakeNet_delivers:
  assumes "distinct (map addr cs)" and "is_order ord"
  shows "(Recognizes addr (Register addr NewFakeNet cs) c \<longleftrightarrow> addr c \<in> addr ` set cs)
    \<and> (c \<in> set cs \<longrightarrow> FakeNet_SendMessage (Register addr NewFakeNet cs) (addr c) msg data = Ok (c, msg, data))
    \<and> (a \<notin> addr ` set cs \<longrightarrow> FakeNet_SendMessage (Register addr NewFakeNet cs) a msg data = Panic NilDeref)
    \<and> mset (FakeNet_Broadcast ord (Register addr NewFakeNet cs) msg data) = {#(c, msg, data). c \<in># mset cs#}"
proof (intro conjI impI)
  let ?f = "Register addr NewFakeNet cs"
  note all = Register_all [of addr NewFakeNet cs]
  show "Recognizes addr ?f c \<longleftrightarrow> addr c \<in> addr ` set cs"
    unfolding all fn.recognizes_register_all using fn.not_recognizes_empty [of addr c] by blast
  show "FakeNet_SendMessage ?f (addr c) msg data = Ok (c, msg, data)" if "c \<in> set cs"
    using fn.entry_register_all_distinct [OF assms(1) that, of NewFakeNet]
    unfolding all FakeNet_SendMessage_def by simp
  show "FakeNet_SendMessage ?f a msg data = Panic NilDeref" if "a \<notin> addr ` set cs"
  proof -
    have "List.find (\<lambda>e. addr e = a) (rev cs) = None" using that by (auto simp: find_None_iff)
    then have "map_get (Clients ?f) a = None"
      unfolding all fn.entry_register_all by (simp add: NewFakeNet_def)
    then show ?thesis by (simp add: FakeNet_SendMessage_def)
  qed
  have "mset (map_values (Clients ?f)) = mset cs"
    using Register_values [OF assms(1), of NewFakeNet] by (simp add: NewFakeNet_def map_values_def)
  then have "mset (ord (map_values (Clients ?f))) = mset cs" using assms(2) by (simp add: is_order_def)
  then show "mset (FakeNet_Broadcast ord ?f msg data) = {#(c, msg, data). c \<in># mset cs#}"
    by (simp add: FakeNet_Broadcast_def)
qed

theorem FakeNet_delivers_witness:
  "FakeNet_SendMessage (Register fst NewFakeNet [(''a'', 1 :: nat), (''b'', 2)]) ''b'' ''m'' ''d'' = Ok ((''b'', 2), ''m'', ''d'')
     \<and> FakeNet_SendMessage (Register fst NewFakeNet [(''a'', 1 :: nat), (''b'', 2)]) ''x'' ''m'' ''d'' = Panic NilDeref"
proof -
  have "distinct (map fst [(''a'', 1 :: nat), (''b'', 2)])" "is_order id" by (simp_all add: is_order_def)
  from FakeNet_delivers [OF this, of "(''b'', 2)" "''m''" "''d''" "''x''"] show ?thesis by simp
qed

end
