(* ===== verification/TcpJson.thy ===== *)
theory TcpJson
  imports Transaction
begin

text \<open>
  The JSON documents of \<open>blockchain/tcp_miner.go\<close>: the address of a miner, the envelope of a
  message, and the saved account with its \<open>rsa.PrivateKey\<close>, whose embedded \<open>PublicKey\<close> gives its
  fields to the key's own object (Go 1.18: \<open>N\<close>, \<open>E\<close>, \<open>D\<close>, \<open>Primes\<close>, \<open>Precomputed\<close>).
\<close>

section \<open>Types\<close>

record TcpConnectionInfo =
  Tcp_Name :: string
  Tcp_Address :: string
  Tcp_Connection :: string

record TcpData =
  Tcp_Msg :: string
  Tcp_Data :: "string option"

record SaveJsonType =
  Save_Name :: string
  Save_Connection :: string
  KeyPair :: PrivateKey
  Save_Known :: "TcpConnectionInfo slice"

section \<open>Encoding\<close>

definition json_tcp_info :: "TcpConnectionInfo \<Rightarrow> json" where
  "json_tcp_info t =
     JObj [(''Name'', JStr (Tcp_Name t)), (''Address'', JStr (Tcp_Address t)),
           (''Connection'', JStr (Tcp_Connection t))]"

definition json_tcp_data :: "TcpData \<Rightarrow> json" where
  "json_tcp_data d = JObj [(''Msg'', JStr (Tcp_Msg d)), (''Data'', json_bytes (Tcp_Data d))]"

definition json_crt_value :: "CRTValue \<Rightarrow> json" where
  "json_crt_value c =
     JObj [(''Exp'', json_bigptr (CRT_Exp c)), (''Coeff'', json_bigptr (CRT_Coeff c)), (''R'', json_bigptr (CRT_R c))]"

definition json_precomputed :: "PrecomputedValues \<Rightarrow> json" where
  "json_precomputed p =
     JObj [(''Dp'', json_bigptr (Dp p)), (''Dq'', json_bigptr (Dq p)), (''Qinv'', json_bigptr (Qinv p)),
           (''CRTValues'', json_slice json_crt_value (CRTValues p))]"

definition json_privkey :: "PrivateKey \<Rightarrow> json" where
  "json_privkey k =
     JObj [(''N'', json_bigptr (N (Public k))), (''E'', JInt (E (Public k))), (''D'', json_bigptr (D k)),
           (''Primes'', json_slice json_bigptr (Primes k)), (''Precomputed'', json_precomputed (Precomputed k))]"

definition json_save :: "SaveJsonType \<Rightarrow> json" where
  "json_save s =
     JObj [(''Name'', JStr (Save_Name s)), (''Connection'', JStr (Save_Connection s)),
           (''KeyPair'', json_privkey (KeyPair s)),
           (''KnownTcpConnections'', json_slice json_tcp_info (Save_Known s))]"

section \<open>Decoding\<close>

definition zero_tcp_info :: TcpConnectionInfo where
  "zero_tcp_info = \<lparr>Tcp_Name = [], Tcp_Address = [], Tcp_Connection = []\<rparr>"

definition zero_tcp_data :: TcpData where
  "zero_tcp_data = \<lparr>Tcp_Msg = [], Tcp_Data = None\<rparr>"

definition zero_crt_value :: CRTValue where
  "zero_crt_value = \<lparr>CRT_Exp = None, CRT_Coeff = None, CRT_R = None\<rparr>"

definition zero_precomputed :: PrecomputedValues where
  "zero_precomputed = \<lparr>Dp = None, Dq = None, Qinv = None, CRTValues = None\<rparr>"

definition zero_privkey :: PrivateKey where
  "zero_privkey = \<lparr>Public = zero_pubkey, D = None, Primes = None, Precomputed = zero_precomputed\<rparr>"

definition zero_save :: SaveJsonType where
  "zero_save = \<lparr>Save_Name = [], Save_Connection = [], KeyPair = zero_privkey, Save_Known = None\<rparr>"

definition decode_tcp_info :: "TcpConnectionInfo decoder" where
  "decode_tcp_info = decode_struct
     [field ''Name'' decode_string Tcp_Name (\<lambda>x. Tcp_Name_update (\<lambda>_. x)),
      field ''Address'' decode_string Tcp_Address (\<lambda>x. Tcp_Address_update (\<lambda>_. x)),
      field ''Connection'' decode_string Tcp_Connection (\<lambda>x. Tcp_Connection_update (\<lambda>_. x))]"

definition decode_tcp_data :: "TcpData decoder" where
  "decode_tcp_data = decode_struct
     [field ''Msg'' decode_string Tcp_Msg (\<lambda>x. Tcp_Msg_update (\<lambda>_. x)),
      field ''Data'' decode_bytes Tcp_Data (\<lambda>x. Tcp_Data_update (\<lambda>_. x))]"

definition decode_crt_value :: "CRTValue decoder" where
  "decode_crt_value = decode_struct
     [field ''Exp'' decode_bigptr CRT_Exp (\<lambda>x. CRT_Exp_update (\<lambda>_. x)),
      field ''Coeff'' decode_bigptr CRT_Coeff (\<lambda>x. CRT_Coeff_update (\<lambda>_. x)),
      field ''R'' decode_bigptr CRT_R (\<lambda>x. CRT_R_update (\<lambda>_. x))]"

definition decode_precomputed :: "PrecomputedValues decoder" where
  "decode_precomputed = decode_struct
     [field ''Dp'' decode_bigptr Dp (\<lambda>x. Dp_update (\<lambda>_. x)),
      field ''Dq'' decode_bigptr Dq (\<lambda>x. Dq_update (\<lambda>_. x)),
      field ''Qinv'' decode_bigptr Qinv (\<lambda>x. Qinv_update (\<lambda>_. x)),
      field ''CRTValues'' (decode_slice decode_crt_value zero_crt_value) CRTValues (\<lambda>x. CRTValues_update (\<lambda>_. x))]"

definition decode_privkey :: "PrivateKey decoder" where
  "decode_privkey = decode_struct
     [field ''N'' decode_bigptr (\<lambda>k. N (Public k)) (\<lambda>x. Public_update (N_update (\<lambda>_. x))),
      field ''E'' decode_int (\<lambda>k. E (Public k)) (\<lambda>x. Public_update (E_update (\<lambda>_. x))),
      field ''D'' decode_bigptr D (\<lambda>x. D_update (\<lambda>_. x)),
      field ''Primes'' (decode_slice decode_bigptr None) Primes (\<lambda>x. Primes_update (\<lambda>_. x)),
      field ''Precomputed'' decode_precomputed Precomputed (\<lambda>x. Precomputed_update (\<lambda>_. x))]"

definition decode_save :: "SaveJsonType decoder" where
  "decode_save = decode_struct
     [field ''Name'' decode_string Save_Name (\<lambda>x. Save_Name_update (\<lambda>_. x)),
      field ''Connection'' decode_string Save_Connection (\<lambda>x. Save_Connection_update (\<lambda>_. x)),
      field ''KeyPair'' decode_privkey KeyPair (\<lambda>x. KeyPair_update (\<lambda>_. x)),
      field ''KnownTcpConnections'' (decode_slice decode_tcp_info zero_tcp_info) Save_Known
        (\<lambda>x. Save_Known_update (\<lambda>_. x))]"

definition BytesToTcpData :: "string \<Rightarrow> error + TcpData" where
  "BytesToTcpData data = Unmarshal decode_tcp_data zero_tcp_data data"

definition BytesToTcpInfo :: "string \<Rightarrow> error + TcpConnectionInfo" where
  "BytesToTcpInfo data = Unmarshal decode_tcp_info zero_tcp_info data"

definition BytesToSave :: "string \<Rightarrow> error + SaveJsonType" where
  "BytesToSave data = Unmarshal decode_save zero_save data"

end
