(* ===== verification/RealNet.thy ===== *)
theory RealNet
  imports FakeNet TcpJson
begin

text \<open>
  \<open>blockchain/RealNet.go\<close>: the miners known to a process by address. A message is wrapped in a
  \<open>TcpData\<close> document and written to a new connection to the miner's port on this machine; whether a
  port accepts a connection is the argument \<open>dial\<close>. An operation gives the writes it makes, each a
  TCP address and the bytes; the results of \<open>Write\<close> and \<open>Close\<close> are ignored by the code.
\<close>

record realnet =
  Real_Clients :: "TcpConnectionInfo gomap"

definition NewRealNet :: realnet where
  "NewRealNet = \<lparr>Real_Clients = []\<rparr>"

definition RealNet_Register :: "realnet \<Rightarrow> TcpConnectionInfo \<Rightarrow> realnet" where
  "RealNet_Register f clientInfo =
     f\<lparr>Real_Clients := map_put (Tcp_Address clientInfo) clientInfo (Real_Clients f)\<rparr>"

definition RealNet_Recognizes :: "realnet \<Rightarrow> TcpConnectionInfo \<Rightarrow> bool" where
  "RealNet_Recognizes f client \<longleftrightarrow> map_get (Real_Clients f) (Tcp_Address client) \<noteq> None"

definition localhost :: "string \<Rightarrow> string" where
  "localhost port = ''localhost:'' @ port"

definition envelope :: "string \<Rightarrow> string \<Rightarrow> string" where
  "envelope msg data = render (json_tcp_data \<lparr>Tcp_Msg = msg, Tcp_Data = Some data\<rparr>)"

text \<open>The loop of \<open>Broadcast\<close>: the first connection that fails ends it.\<close>

fun broadcast_loop ::
  "(string \<Rightarrow> bool) \<Rightarrow> string \<Rightarrow> string \<Rightarrow> TcpConnectionInfo list \<Rightarrow> (string \<times> string) list" where
  "broadcast_loop dial msg data [] = []"
| "broadcast_loop dial msg data (client # clients) =
     (let connBytes = envelope msg data; realConnection = localhost (Tcp_Connection client)
      in if \<not> dial realConnection then []
         else (realConnection, connBytes) # broadcast_loop dial msg data clients)"

definition RealNet_Broadcast ::
  "(TcpConnectionInfo list \<Rightarrow> TcpConnectionInfo list) \<Rightarrow> (string \<Rightarrow> bool) \<Rightarrow> realnet \<Rightarrow> string \<Rightarrow> string
   \<Rightarrow> (string \<times> string) list" where
  "RealNet_Broadcast ord dial f msg data =
     broadcast_loop dial msg data (ord (map_values (Real_Clients f)))"

definition RealNet_SendMessage ::
  "(string \<Rightarrow> bool) \<Rightarrow> realnet \<Rightarrow> string \<Rightarrow> string \<Rightarrow> string \<Rightarrow> (string \<times> string) list" where
  "RealNet_SendMessage dial f addr msg jsonByte =
     (case map_get (Real_Clients f) addr of
        None \<Rightarrow> []
      | Some client \<Rightarrow>
          (let connBytes = envelope msg jsonByte; realConnection = localhost (Tcp_Connection client)
           in if \<not> dial realConnection then [] else [(realConnection, connBytes)]))"

interpretation rn: registry NewRealNet RealNet_Register RealNet_Recognizes "\<lambda>f. map_get (Real_Clients f)" Tcp_Address
  by unfold_locales (simp_all add: NewRealNet_def RealNet_Register_def RealNet_Recognizes_def)

lemma broadcast_takeWhile:
  "broadcast_loop dial msg data cs =
     map (\<lambda>c. (localhost (Tcp_Connection c), envelope msg data))
       (takeWhile (\<lambda>c. dial (localhost (Tcp_Connection c))) cs)"
  by (induction cs) (simp_all add: Let_def)

text \<open>The map is the one a \<open>FakeNet\<close> has after the same registrations.\<close>

lemma RealNet_Register_all:
  "Real_Clients (foldl RealNet_Register f infos) = Clients (Register Tcp_Address \<lparr>Clients = Real_Clients f\<rparr> infos)"
  by (induction infos arbitrary: f) (simp_all add: Register_def RealNet_Register_def)

lemma registered_values:
  assumes "distinct (map Tcp_Address infos)"
  shows "mset (map_values (Real_Clients (foldl RealNet_Register NewRealNet infos))) = mset infos"
  using Register_values [OF assms, of "\<lparr>Clients = []\<rparr>"]
  by (simp add: RealNet_Register_all NewRealNet_def map_values_def)

end
