(* ===== verification/TcpMiner.thy ===== *)
theory TcpMiner
  imports RealNet Mining
begin

text \<open>
  \<open>blockchain/tcp_miner.go\<close>: the miner of a process of its own, which reaches the others through a
  \<open>RealNet\<close>. The struct repeats \<open>Miner\<close>'s fields, so the record extends it; the methods are written
  out from their own source, which differs from \<open>Miner\<close>'s in the target of a new block (the head's) and
  in that nothing is logged. The network is an object of its own: operations that register with it take
  and return it, the others return effects. \<open>dial\<close> says which TCP addresses accept a connection.
\<close>

section \<open>State\<close>

record tcp_miner = miner +
  Connection :: string
  KnownTcpConnections :: "TcpConnectionInfo slice"

definition REGISTER :: string where "REGISTER = ''REGISTER''"

text \<open>What an operation leaves to be done beyond the miner's effects, and what it writes.\<close>

datatype tcp_effect =
  NodeEffect effect
| GoStartListening string
| WriteTo string string
| EmitData string "string option"
| WriteFile string string

definition Tcp_Log :: "'a miner_scheme \<Rightarrow> unit go" where
  "Tcp_Log m = (if length (Address m) < 10 then Some (Panic SliceBounds) else ret ())"

section \<open>Construction\<close>

definition Tcp_SetGenesisBlock :: "crypto \<Rightarrow> 'a miner_scheme \<Rightarrow> Block \<Rightarrow> 'a miner_scheme res" where
  "Tcp_SetGenesisBlock H m startingBlock =
     (if LastBlock m \<noteq> None
      then Panic (Explicit ''Cannot set starting block for existing blockchain'')
      else (let blockId = (case GetHash H startingBlock of Inl err \<Rightarrow> [] | Inr h \<Rightarrow> h)
            in Ok (m\<lparr>LastConfirmedBlock := Some startingBlock, LastBlock := Some startingBlock,
                     Blocks := map_put blockId startingBlock (Blocks m)\<rparr>)))"

definition NewTcpMiner ::
  "crypto \<Rightarrow> string \<Rightarrow> u32 \<Rightarrow> Block option \<Rightarrow> PrivateKey option \<Rightarrow> error + PrivateKey \<Rightarrow> string
   \<Rightarrow> BlockchainConfig \<Rightarrow> tcp_miner res" where
  "NewTcpMiner H name miningRounds startingBlock keyPair generated connection config =
     (case (case keyPair of None \<Rightarrow> GenerateKeypair generated | Some k \<Rightarrow> Inr (k, Public k)) of
        Inl err \<Rightarrow> Panic NilDeref
      | Inr (privKey, pubKey) \<Rightarrow>
          (let m = \<lparr>Name = name, Address = GenerateAddress H pubKey, PrivKey = privKey,
                    PubKey = pubKey, Blocks = [], PendingOutgoingTransactions = [],
                    PendingReceivedTransactions = [], PendingBlocks = [], LastBlock = None,
                    LastConfirmedBlock = None, ReceivedBlock = None, Config = config,
                    Client_Nonce = 0, Emitter = [], CurrentBlock = None, MiningRounds = 0,
                    Miner_Transactions = NewSet, Connection = [], KnownTcpConnections = None\<rparr>
           in res_bind (case startingBlock of None \<Rightarrow> Ok m | Some b \<Rightarrow> Tcp_SetGenesisBlock H m b)
                (\<lambda>m. Ok (m\<lparr>Emitter := [(PROOF_FOUND, ReceiveBlockBytes_handler),
                                        (MISSING_BLOCK, ProvideMissingBlock_handler)],
                           MiningRounds := miningRounds, Miner_Transactions := NewSet,
                           Connection := connection\<rparr>))))"

section \<open>Mining\<close>

text \<open>The target is the head's, read before anything else: without a head this panics.\<close>

definition Tcp_StartNewSearch ::
  "crypto \<Rightarrow> go_time \<Rightarrow> map_orders \<Rightarrow> 'a miner_scheme \<Rightarrow> Transaction goset option
   \<Rightarrow> 'a miner_scheme res" where
  "Tcp_StartNewSearch H now os m txSet =
     (case LastBlock m of
        None \<Rightarrow> Panic NilDeref
      | Some lastBlock \<Rightarrow>
          (let target = Target lastBlock;
               currentBlock = NewBlock H now (Address m) (LastBlock m) target (coinbaseAmount (Config m));
               txSet = (case txSet of None \<Rightarrow> NewSet | Some s \<Rightarrow> s);
               txList = Set_ToArray (synced_order os) txSet;
               transactions = foldl (Set_Add (Tx_GetHashStr H)) (Miner_Transactions m) txList;
               transactionsArr = Set_ToArray (pool_order os) transactions
           in case currentBlock of
                None \<Rightarrow> Panic NilDeref
              | Some block \<Rightarrow>
                  res_bind (add_transactions H block transactionsArr) (\<lambda>block'.
                    Ok (m\<lparr>CurrentBlock := Some (block'\<lparr>Proof := 0\<rparr>),
                          Miner_Transactions := Set_Clear transactions\<rparr>))))"

definition Tcp_Initialize ::
  "crypto \<Rightarrow> go_time \<Rightarrow> map_orders \<Rightarrow> tcp_miner \<Rightarrow> realnet \<Rightarrow> TcpConnectionInfo slice
   \<Rightarrow> (tcp_miner \<times> realnet \<times> tcp_effect list) res" where
  "Tcp_Initialize H now os m net knownTcpConnections =
     (let m = m\<lparr>KnownTcpConnections := append_slice (KnownTcpConnections m) (elems knownTcpConnections)\<rparr>
      in res_bind (Tcp_StartNewSearch H now os m None) (\<lambda>m.
           let m = m\<lparr>Emitter := Emitter m @ [(START_MINING, FindProof_handler),
                                            (POST_TRANSACTION, AddTransactionBytes_handler)]\<rparr>
           in Ok (m, foldl RealNet_Register net (elems (KnownTcpConnections m)),
                  [NodeEffect (GoEmit START_MINING False), GoStartListening (Connection m)])))"

definition Tcp_AnnounceProof :: "'a miner_scheme \<Rightarrow> effect list go" where
  "Tcp_AnnounceProof m =
     (case CurrentBlock m of
        None \<Rightarrow> Some (Panic NilDeref)
      | Some block \<Rightarrow>
          (case BlockToBytes block of
             Inl (Error e) \<Rightarrow> Some (Panic (Explicit e))
           | Inr data \<Rightarrow> ret [Broadcast PROOF_FOUND data]))"

definition Tcp_FindProof :: "crypto \<Rightarrow> 'a miner_scheme \<Rightarrow> bool \<Rightarrow> ('a miner_scheme \<times> effect list) go" where
  "Tcp_FindProof H m oneAndDone =
     (case CurrentBlock m of
        None \<Rightarrow> Some (Panic NilDeref)
      | Some block \<Rightarrow>
          (let pausePoint = Proof block + MiningRounds m;
               (block', found) = find_proof H pausePoint block;
               m' = m\<lparr>CurrentBlock := Some block'\<rparr>;
               again = (if \<not> oneAndDone then [GoEmit START_MINING False] else [])
           in if found
              then go_bind (Tcp_AnnounceProof m') (\<lambda>effs.
                     ret (m', effs @ [GoReceiveBlock block'] @ again))
              else ret (m', again)))"

text \<open>The pointers of the loops alias as in \<open>Miner.SyncTransaction\<close>.\<close>

definition Tcp_SyncTransaction ::
  "crypto \<Rightarrow> map_orders \<Rightarrow> 'a miner_scheme \<Rightarrow> Block \<Rightarrow> Transaction goset go" where
  "Tcp_SyncTransaction H os m newBlock =
     (case CurrentBlock m of
        None \<Rightarrow> Some (Panic NilDeref)
      | Some cb \<Rightarrow>
          go_bind (sync_down H (Blocks m) (ChainLength cb) newBlock [] NewSet)
            (\<lambda>(newBlock, heap, nbTxs).
              go_bind (sync_back H (Blocks m) cb newBlock heap NewSet nbTxs)
                (\<lambda>(heap, cbTxs, nbTxs).
                  let nbTxsArr = Set_ToArray (pointer_order os) nbTxs;
                      cbTxs = foldl (Set_Remove (pointee H heap)) cbTxs nbTxsArr
                  in ret \<lparr>items = map (\<lambda>(k, q). (k, heap ! q)) (items cbTxs)\<rparr>)))"

section \<open>Receiving blocks\<close>

definition Tcp_SetLastConfirmed :: "crypto \<Rightarrow> 'a miner_scheme \<Rightarrow> 'a miner_scheme go" where
  "Tcp_SetLastConfirmed H m =
     (case LastBlock m of
        None \<Rightarrow> Some (Panic NilDeref)
      | Some lastBlock \<Rightarrow>
          (let height = (if ChainLength lastBlock > CONFIRMED_DEPTH
                         then ChainLength lastBlock - CONFIRMED_DEPTH else 0)
           in go_bind (confirm_walk (Blocks m) height lastBlock) (\<lambda>block.
                ret (m\<lparr>LastConfirmedBlock := Some block,
                       PendingOutgoingTransactions :=
                         map_drop (Contains H block) (PendingOutgoingTransactions m)\<rparr>))))"

definition Tcp_RequestMissingBlock :: "'a miner_scheme \<Rightarrow> Block \<Rightarrow> effect list" where
  "Tcp_RequestMissingBlock m block =
     [Broadcast MISSING_BLOCK (render (json_message
        \<lparr>Msg_Address = Address m, Msg_PrevBlockHash = PrevBlockHash block\<rparr>))]"

definition Tcp_accept ::
  "crypto \<Rightarrow> go_time \<Rightarrow> map_orders \<Rightarrow> 'a miner_scheme \<Rightarrow> Block
   \<Rightarrow> ('a miner_scheme \<times> Block option \<times> effect list) go" where
  "Tcp_accept H now os m block =
     (let blockId = GetHashStr H block;
          m1 = m\<lparr>Blocks := map_put blockId block (Blocks m)\<rparr>
      in case LastBlock m1 of
           None \<Rightarrow> Some (Panic NilDeref)
         | Some lastBlock \<Rightarrow>
             go_bind (if ChainLength lastBlock < ChainLength block
                      then Tcp_SetLastConfirmed H (m1\<lparr>LastBlock := Some block\<rparr>) else ret m1)
               (\<lambda>m2.
                 let unstuckBlocksArr = (case map_get (PendingBlocks m2) blockId of
                       None \<Rightarrow> [] | Some unstuckBlocks \<Rightarrow> Set_ToArray (block_order os) unstuckBlocks);
                     m3 = m2\<lparr>PendingBlocks := map_del blockId (PendingBlocks m2)\<rparr>
                 in case CurrentBlock m3 of
                      None \<Rightarrow> ret (m3, Some block, map GoReceiveBlock unstuckBlocksArr)
                    | Some cb \<Rightarrow>
                        (if ChainLength block \<ge> ChainLength cb
                         then go_bind (Tcp_SyncTransaction H os m3 block) (\<lambda>txSet.
                                go_bind (Some (Tcp_StartNewSearch H now os m3 (Some txSet))) (\<lambda>m4.
                                  ret (m4, Some block, map GoReceiveBlock unstuckBlocksArr)))
                         else ret (m3, Some block, map GoReceiveBlock unstuckBlocksArr))))"

definition Tcp_ReceiveBlock ::
  "crypto \<Rightarrow> go_time \<Rightarrow> map_orders \<Rightarrow> 'a miner_scheme \<Rightarrow> Block
   \<Rightarrow> ('a miner_scheme \<times> Block option \<times> effect list) go" where
  "Tcp_ReceiveBlock H now os m b =
     (let blockId = GetHashStr H b
      in if map_get (Blocks m) blockId \<noteq> None then ret (m, None, [])
         else if \<not> hasValidProof H b \<and> \<not> IsGenesisBlock b then ret (m, None, [])
         else (let prevBlock = map_get (Blocks m) (PrevBlockHash b)
               in if prevBlock = None \<and> \<not> IsGenesisBlock b
                  then (case map_get (PendingBlocks m) (PrevBlockHash b) of
                          None \<Rightarrow>
                            ret (m\<lparr>PendingBlocks := map_put (PrevBlockHash b)
                                     (Set_Add (GetHashStr H) NewSet b) (PendingBlocks m)\<rparr>, None,
                                 Tcp_RequestMissingBlock m b)
                        | Some stuckBlocks \<Rightarrow>
                            ret (m\<lparr>PendingBlocks := map_put (PrevBlockHash b)
                                     (Set_Add (GetHashStr H) stuckBlocks b) (PendingBlocks m)\<rparr>, None, []))
                  else go_bind (if \<not> IsGenesisBlock b then Some (Rerun H b prevBlock)
                                else ret (b, True))
                         (\<lambda>(block, ok).
                           if \<not> ok then ret (m, None, []) else Tcp_accept H now os m block)))"

definition Tcp_ReceiveBlockBytes ::
  "crypto \<Rightarrow> go_time \<Rightarrow> map_orders \<Rightarrow> 'a miner_scheme \<Rightarrow> string
   \<Rightarrow> ('a miner_scheme \<times> Block option \<times> effect list) go" where
  "Tcp_ReceiveBlockBytes H now os m bs =
     (case BytesToBlock bs of
        Inl err \<Rightarrow> Some (Panic (Explicit ''Failed to deseralize block''))
      | Inr block \<Rightarrow> Tcp_ReceiveBlock H now os m block)"

definition Tcp_ProvideMissingBlock :: "'a miner_scheme \<Rightarrow> string \<Rightarrow> effect list go" where
  "Tcp_ProvideMissingBlock m data =
     (case BytesToMessage data of
        Inl (Error e) \<Rightarrow> Some (Panic (Explicit e))
      | Inr msg \<Rightarrow>
          (case map_get (Blocks m) (Msg_PrevBlockHash msg) of
             None \<Rightarrow> ret []
           | Some val \<Rightarrow>
               (case BlockToBytes val of
                  Inl (Error e) \<Rightarrow> Some (Panic (Explicit e))
                | Inr data \<Rightarrow> ret [SendMessage (Msg_Address msg) PROOF_FOUND data])))"

section \<open>Transactions\<close>

definition Tcp_AddTransaction :: "crypto \<Rightarrow> 'a miner_scheme \<Rightarrow> Transaction \<Rightarrow> 'a miner_scheme" where
  "Tcp_AddTransaction H m tx =
     m\<lparr>Miner_Transactions := Set_Add (Tx_GetHashStr H) (Miner_Transactions m) tx\<rparr>"

definition Tcp_AddTransactionBytes :: "crypto \<Rightarrow> 'a miner_scheme \<Rightarrow> string \<Rightarrow> 'a miner_scheme res" where
  "Tcp_AddTransactionBytes H m data =
     (case BytesToTransaction data of
        Inl err \<Rightarrow> Panic (Explicit ''Failed to deserialize data'')
      | Inr tx \<Rightarrow> Ok (Tcp_AddTransaction H m tx))"

definition Tcp_ConfirmedBalance :: "'a miner_scheme \<Rightarrow> u32 res" where
  "Tcp_ConfirmedBalance m =
     (case LastConfirmedBlock m of
        None \<Rightarrow> Panic NilDeref
      | Some block \<Rightarrow> Ok (BalanceOf block (Address m)))"

definition Tcp_AvailableGold :: "'a miner_scheme \<Rightarrow> u32 res" where
  "Tcp_AvailableGold m =
     (let pendingSpent = foldl (\<lambda>spent tx. spent + TotalOutput tx) 0
            (map_values (PendingOutgoingTransactions m))
      in res_bind (Tcp_ConfirmedBalance m) (\<lambda>balance. Ok (balance - pendingSpent)))"

text \<open>
  The mutex is held while the available gold is computed, while the transaction becomes pending and is
  broadcast, and while it is added to the pool, but not in between: other goroutines may run there. So
  there are three steps. What the first one reads without the mutex (address, nonce, keys) only the
  console's goroutine changes.
\<close>

definition Tcp_PrepareTransaction ::
  "crypto \<Rightarrow> 'a miner_scheme \<Rightarrow> Output slice \<Rightarrow> u32 \<Rightarrow> Transaction res" where
  "Tcp_PrepareTransaction H m outputs fee =
     (let total = foldl (\<lambda>total output. total + Out_Amount output) fee (elems outputs)
      in res_bind (Tcp_AvailableGold m) (\<lambda>available.
        if total > available
        then Panic (Explicit ''Account doesn't have enough balance for transaction'')
        else
          (case NewTransaction (Address m) (Client_Nonce m) (PubKey m) None fee outputs None of
             Inl err \<Rightarrow> Panic NilDeref
           | Inr newTx \<Rightarrow>
               res_bind (Sign H newTx (PrivKey m)) (\<lambda>(tx, signature). Ok tx))))"

definition Tcp_CommitTransaction ::
  "crypto \<Rightarrow> 'a miner_scheme \<Rightarrow> Transaction \<Rightarrow> 'a miner_scheme \<times> effect list" where
  "Tcp_CommitTransaction H m tx =
     (let m' = m\<lparr>PendingOutgoingTransactions :=
                   map_put (Tx_Id H tx) tx (PendingOutgoingTransactions m),
                 Client_Nonce := Client_Nonce m + 1\<rparr>;
          data = (case TransactionToBytes tx of Inl err \<Rightarrow> [] | Inr d \<Rightarrow> d)
      in (m', [Broadcast POST_TRANSACTION data]))"

text \<open>The whole method, when no other step comes in between.\<close>

definition Tcp_PostTransaction ::
  "crypto \<Rightarrow> 'a miner_scheme \<Rightarrow> Output slice \<Rightarrow> u32 \<Rightarrow> ('a miner_scheme \<times> effect list) res" where
  "Tcp_PostTransaction H m outputs fee =
     res_bind (Tcp_PrepareTransaction H m outputs fee) (\<lambda>tx.
       let (m', effs) = Tcp_CommitTransaction H m tx
       in Ok (Tcp_AddTransaction H m' tx, effs))"

definition Tcp_ResendPendingTransactions ::
  "(Transaction list \<Rightarrow> Transaction list) \<Rightarrow> 'a miner_scheme \<Rightarrow> effect list" where
  "Tcp_ResendPendingTransactions ord m =
     map (\<lambda>tx. Broadcast POST_TRANSACTION (render (json_transaction tx)))
       (ord (map_values (PendingOutgoingTransactions m)))"

definition ShowPendingOut ::
  "crypto \<Rightarrow> (Transaction list \<Rightarrow> Transaction list) \<Rightarrow> 'a miner_scheme \<Rightarrow> string" where
  "ShowPendingOut H ord m =
     foldl (\<lambda>s tx. s @ newline @ ''    id: '' @ Tx_Id H tx @ '' nonce: '' @ decimal (unat (Info_Nonce (Info tx)))
         @ '' totalOutput '' @ decimal (unat (TotalOutput tx)) @ newline) []
       (ord (map_values (PendingOutgoingTransactions m)))"

definition Tcp_ShowAllBalances :: "'a miner_scheme \<Rightarrow> BalanceType list res" where
  "Tcp_ShowAllBalances m =
     (case LastConfirmedBlock m of None \<Rightarrow> Panic NilDeref | Some block \<Rightarrow> Ok (elems (Balances block)))"

definition Tcp_ShowBlockchain :: "crypto \<Rightarrow> 'a miner_scheme \<Rightarrow> string list option" where
  "Tcp_ShowBlockchain H m = show_walk H (Blocks m) (LastBlock m) []"

section \<open>Connections\<close>

definition tcp_info :: "tcp_miner \<Rightarrow> TcpConnectionInfo" where
  "tcp_info m = \<lparr>Tcp_Name = Name m, Tcp_Address = Address m, Tcp_Connection = Connection m\<rparr>"

text \<open>The first statement logs, so it panics on a short address.\<close>

definition RegisterWith :: "(string \<Rightarrow> bool) \<Rightarrow> tcp_miner \<Rightarrow> string \<Rightarrow> tcp_effect list go" where
  "RegisterWith dial m minerConnection =
     go_bind (Tcp_Log m) (\<lambda>_.
       let tcpInfoBytes = render (json_tcp_info (tcp_info m));
           connBytes = render (json_tcp_data \<lparr>Tcp_Msg = REGISTER, Tcp_Data = Some tcpInfoBytes\<rparr>);
           minerConnection = localhost minerConnection
       in if \<not> dial minerConnection then ret [] else ret [WriteTo minerConnection connBytes])"

definition HandleConnection ::
  "(string \<Rightarrow> bool) \<Rightarrow> tcp_miner \<Rightarrow> realnet \<Rightarrow> string \<Rightarrow> (tcp_miner \<times> realnet \<times> tcp_effect list) go" where
  "HandleConnection dial m net connBytes =
     (case BytesToTcpData connBytes of
        Inl err \<Rightarrow> ret (m, net, [])
      | Inr receivedData \<Rightarrow>
          (if Tcp_Msg receivedData = REGISTER
           then (case BytesToTcpInfo (bytes_of (Tcp_Data receivedData)) of
                   Inl err \<Rightarrow> ret (m, net, [])
                 | Inr info \<Rightarrow>
                     go_bind (if \<not> RealNet_Recognizes net info then RegisterWith dial m (Tcp_Connection info)
                              else ret [])
                       (\<lambda>effs. ret (m\<lparr>KnownTcpConnections := append_slice (KnownTcpConnections m) [info]\<rparr>,
                                    RealNet_Register net info, effs)))
           else ret (m, net, [EmitData (Tcp_Msg receivedData) (Tcp_Data receivedData)])))"

text \<open>
  One connection: \<open>Read\<close> into 512 bytes until fewer come. The argument is what the reads give, in
  order; when there is no more, \<open>Read\<close> gives \<open>io.EOF\<close>, which the code takes for a failure.
\<close>

fun read_connection :: "string list \<Rightarrow> string \<Rightarrow> string res" where
  "read_connection [] data = Panic (Explicit ''EOF'')"
| "read_connection (chunk # chunks) data =
     (let data = data @ chunk in if length chunk < 512 then Ok data else read_connection chunks data)"

text \<open>The accepted connections, until \<open>Accept\<close> fails: the messages handed to \<open>HandleConnection\<close>.\<close>

fun accept_loop :: "string list list \<Rightarrow> string list res" where
  "accept_loop [] = Ok []"
| "accept_loop (conn # conns) =
     res_bind (read_connection conn []) (\<lambda>data. res_bind (accept_loop conns) (\<lambda>rest. Ok (data # rest)))"

definition StartListening :: "(string \<Rightarrow> bool) \<Rightarrow> string \<Rightarrow> string list list \<Rightarrow> string list res" where
  "StartListening listens port conns = (if \<not> listens (CHR '':'' # port) then Ok [] else accept_loop conns)"

section \<open>Saving\<close>

text \<open>Marshalling these types cannot fail; the error of \<open>os.WriteFile\<close> is only printed.\<close>

definition SaveJson :: "tcp_miner \<Rightarrow> string \<Rightarrow> tcp_effect list" where
  "SaveJson m fileName =
     [WriteFile fileName (render (json_save
        \<lparr>Save_Name = Name m, Save_Connection = Connection m, KeyPair = PrivKey m,
         Save_Known = append_slice None (elems (KnownTcpConnections m))\<rparr>))]"

end
