(* ===== verification/TcpInv.thy ===== *)
theory TcpInv
  imports TcpMiner SystemInv
begin

text \<open>
  Lemmas on \<open>TcpMiner\<close>: the methods that repeat \<open>Miner\<close>'s compute the same on an address that \<open>Miner\<close>
  can log; its search is a \<open>searcher\<close>, so receiving a block keeps the miner's invariant.
\<close>

section \<open>The repeated methods\<close>

lemma Tcp_Log_eq: "Tcp_Log m = Log m"
  by (simp add: Tcp_Log_def Log_def)

lemma Tcp_SetGenesisBlock_eq: "Tcp_SetGenesisBlock H m b = Miner_SetGenesisBlock H m b"
  unfolding Tcp_SetGenesisBlock_def Miner_SetGenesisBlock_def by (rule refl)

lemma Tcp_AnnounceProof_eq: "Tcp_AnnounceProof m = AnnounceProof m"
  unfolding Tcp_AnnounceProof_def AnnounceProof_def by (rule refl)

lemma Tcp_FindProof_eq: "\<not> length (Address m) < 10 \<Longrightarrow> Tcp_FindProof H m oneAndDone = FindProof H m oneAndDone"
  by (simp add: Tcp_FindProof_def FindProof_def Tcp_AnnounceProof_eq Miner_Log_eq Let_def
      cong: option.case_cong if_cong prod.case_cong)

lemma Tcp_SyncTransaction_eq: "Tcp_SyncTransaction H os m b = SyncTransaction H os m b"
  unfolding Tcp_SyncTransaction_def SyncTransaction_def by (rule refl)

lemma Tcp_SetLastConfirmed_eq: "Tcp_SetLastConfirmed H m = SetLastConfirmed H m"
  unfolding Tcp_SetLastConfirmed_def SetLastConfirmed_def confirmedBlockHeight_def Let_def by (rule refl)

lemma Tcp_RequestMissingBlock_eq: "Tcp_RequestMissingBlock m b = [missing_request m b]"
  by (simp add: Tcp_RequestMissingBlock_def missing_request_def)

lemma Tcp_ProvideMissingBlock_eq:
  "\<not> length (Address m) < 10 \<Longrightarrow> Tcp_ProvideMissingBlock m bs = ProvideMissingBlock m bs"
  by (simp add: Tcp_ProvideMissingBlock_def ProvideMissingBlock_def cong: option.case_cong sum.case_cong)

lemma Tcp_AddTransaction_eq:
  "Tcp_AddTransaction H m tx = Miner_AddTransaction H m tx"
  "Tcp_AddTransactionBytes H m bs = AddTransactionBytes H m bs"
  unfolding Tcp_AddTransaction_def Miner_AddTransaction_def Tcp_AddTransactionBytes_def AddTransactionBytes_def
  by (rule refl)+

lemma Tcp_AvailableGold_eq: "Tcp_AvailableGold m = AvailableGold m"
  by (simp add: Tcp_AvailableGold_def AvailableGold_def Tcp_ConfirmedBalance_def ConfirmedBalance_def pendingSpent_def)

lemma Tcp_PrepareTransaction_eq:
  "Tcp_PrepareTransaction H m outputs fee = res_bind (PostTransaction H m outputs fee) (\<lambda>(m', tx, effs). Ok tx)"
  unfolding Tcp_PrepareTransaction_def PostTransaction_def Tcp_AvailableGold_eq Let_def
  by (cases "AvailableGold m") (simp_all add: res_bind_assoc split_def split: sum.split)

lemma Tcp_PostTransaction_eq: "Tcp_PostTransaction H m outputs fee = Miner_PostTransaction H m outputs fee"
  unfolding Tcp_PostTransaction_def Tcp_PrepareTransaction_def Tcp_CommitTransaction_def Miner_PostTransaction_def
    Tcp_AvailableGold_eq Miner_AvailableGold_eq Tcp_AddTransaction_eq Let_def
  by (cases "AvailableGold m") (simp_all add: res_bind_assoc split_def split: sum.split)

lemmas tcp_copies = Tcp_Log_eq Tcp_SetGenesisBlock_eq Tcp_AnnounceProof_eq Tcp_SyncTransaction_eq
  Tcp_SetLastConfirmed_eq Tcp_RequestMissingBlock_eq Tcp_AddTransaction_eq Tcp_AvailableGold_eq Tcp_PostTransaction_eq

section \<open>Receiving a block\<close>

lemma go_bind_cong: "(\<And>x. m = ret x \<Longrightarrow> f x = g x) \<Longrightarrow> go_bind m f = go_bind m g"
  by (cases "(m, f)" rule: go_bind.cases) (simp_all add: ret_def)

lemma Tcp_accept_eq:
  assumes "\<not> length (Address m) < 10"
  shows "Tcp_accept H now os m b =
    go_bind (accept_block H (block_order os) m b) (cut_over H (Tcp_StartNewSearch H) now os)"
proof (cases "LastBlock m")
  case None
  then show ?thesis by (simp add: Tcp_accept_def accept_block_def Let_def)
next
  case (Some h)
  let ?m = "m\<lparr>Blocks := map_put (GetHashStr H b) b (Blocks m)\<rparr>"
  have addr: "SetLastConfirmed H (?m\<lparr>LastBlock := Some b\<rparr>) = ret m2 \<Longrightarrow> \<not> length (Address m2) < 10" for m2
    using assms SetLastConfirmed_fields(4) [of H "?m\<lparr>LastBlock := Some b\<rparr>" m2] by simp
  show ?thesis
  proof (cases "ChainLength h < ChainLength b")
    case True
    then show ?thesis
      using Some
      by (simp add: Tcp_accept_def accept_block_def Let_def tcp_copies cut_over_def go_bind_assoc)
        (rule go_bind_cong, drule addr, simp add: Tcp_SyncTransaction_eq split: option.split)
  next
    case False
    then show ?thesis
      using Some assms
      by (simp add: Tcp_accept_def accept_block_def Let_def tcp_copies cut_over_def split: option.split)
  qed
qed

lemma Tcp_ReceiveBlock_eq:
  assumes "\<not> length (Address m) < 10"
  shows "Tcp_ReceiveBlock H now os m b =
    go_bind (ReceiveBlock H (block_order os) m b) (cut_over H (Tcp_StartNewSearch H) now os)"
  by (simp add: Tcp_ReceiveBlock_def ReceiveBlock_def hold_block_def Let_def go_bind_assoc tcp_copies assms
      Tcp_accept_eq [OF assms] RequestMissingBlock_def missing_request_def split_def
      if_distrib [of "\<lambda>x. go_bind x (cut_over H (Tcp_StartNewSearch H) now os)"]
      split: option.split cong: if_cong)

lemma Tcp_StartNewSearch_search:
  "LastBlock m = Some h \<Longrightarrow> Tcp_StartNewSearch H now os m txSet = search_with H (Target h) now os m txSet"
proof -
  have clear: "Set_Clear s = \<lparr>items = []\<rparr>" for s :: "Transaction goset" by (cases s) (simp add: Set_Clear_def)
  show "LastBlock m = Some h \<Longrightarrow> ?thesis"
    unfolding Tcp_StartNewSearch_def search_with_def Let_def clear by simp
qed

interpretation tcp: searcher H "Tcp_StartNewSearch H" for H
  by unfold_locales (auto simp: Tcp_StartNewSearch_search)

text \<open>With the default target everywhere, the two receive alike.\<close>

lemma ReceiveBlock_head:
  assumes "ReceiveBlock H ord c b = ret (c', r, effs)"
  shows "LastBlock c' = LastBlock c \<or> (\<exists>b'. LastBlock c' = Some b' \<and> Target b' = Target b)"
proof -
  have keep: "LastBlock d' = LastBlock d" if "SetLastConfirmed H d = ret d'" for d d'
    using that by (auto simp: SetLastConfirmed_def res_simps split: option.splits)
  have hold: "LastBlock c' = LastBlock c" if "hold_block H c b = ret (c', r, effs)"
    using that by (auto simp: hold_block_def res_simps split: option.splits)
  have acc: "LastBlock c' = LastBlock c \<or> LastBlock c' = Some b'" if "accept_block H ord c b' = ret (c', r, effs)" for b'
    using that by (auto simp: accept_block_def Let_def res_simps dest!: keep split: option.splits if_splits)
  have target: "Target b' = Target b" if "Rerun H b p = Ok (b', ok)" for p b' ok
    using that header_fields [OF Rerun_header] by (cases p) (auto simp: Rerun_def)
  show ?thesis using assms hold acc target by (fastforce simp: ReceiveBlock_def Let_def res_simps split: if_splits)
qed

lemma Tcp_ReceiveBlock_Miner:
  assumes "\<not> length (Address m) < 10" "LastBlock m = Some h"
    "Target h = CalculateTarget POW_LEADING_ZEROES" "Target b = CalculateTarget POW_LEADING_ZEROES"
  shows "Tcp_ReceiveBlock H now os m b = Miner_ReceiveBlock H now os m b"
  unfolding Tcp_ReceiveBlock_eq [OF assms(1)] Miner_ReceiveBlock_eq
proof (rule go_bind_cong)
  fix x assume run: "ReceiveBlock H (block_order os) m b = ret x"
  obtain c r effs where x: "x = (c, r, effs)" by (cases x)
  obtain h' where h': "LastBlock c = Some h'" "Target h' = CalculateTarget POW_LEADING_ZEROES"
    using ReceiveBlock_head [OF run [unfolded x]] assms by auto
  then have "Tcp_StartNewSearch H now os c txSet = StartNewSearch H now os c txSet" for txSet
    by (simp add: Tcp_StartNewSearch_search StartNewSearch_search)
  then show "cut_over H (Tcp_StartNewSearch H) now os x = cut_over H (StartNewSearch H) now os x"
    unfolding x cut_over_def by (simp split: option.split)
qed

end
