(* ===== verification/GoStrings.thy ===== *)
theory GoStrings
  imports GoMap DecodeRoundtrip
begin

text \<open>
  The parts of Go's standard library that take text apart, as \<open>blockchain/run.go\<close> uses them:
  \<open>strings.Split\<close> and \<open>strings.TrimSuffix\<close>, \<open>strconv.Atoi\<close> on a 64-bit machine with its errors and
  the value it gives beside them, the lines of a \<open>bufio.Scanner\<close>, and \<open>ReadString\<close> of a
  \<open>bufio.Reader\<close> over a stream that comes in pieces. Then what reading undoes of writing.
\<close>

section \<open>Splitting\<close>

fun split_on :: "char \<Rightarrow> string \<Rightarrow> string list" where
  "split_on sep [] = [[]]"
| "split_on sep (c # s) =
     (if c = sep then [] # split_on sep s
      else (case split_on sep s of [] \<Rightarrow> [[c]] | piece # pieces \<Rightarrow> (c # piece) # pieces))"

definition end_of_line :: char where
  "end_of_line = CHR 0x0A"

definition trim_newline :: "string \<Rightarrow> string" where
  "trim_newline s = (if s \<noteq> [] \<and> last s = end_of_line then butlast s else s)"

section \<open>Numbers\<close>

datatype num_error = ErrSyntax | ErrRange

text \<open>\<open>ParseUint(s, 10, 64)\<close> after the empty string: the first bad character or overflow decides.\<close>

fun parse_uint :: "string \<Rightarrow> nat \<Rightarrow> num_error + nat" where
  "parse_uint [] n = Inr n"
| "parse_uint (c # s) n =
     (if \<not> digit_char c then Inl ErrSyntax
      else (let n1 = n * 10 + digit_value c in if n1 \<ge> 2 ^ 64 then Inl ErrRange else parse_uint s n1))"

text \<open>
  The value and the error. Out of range, the value is the nearest \<open>int\<close>; on a syntax error it is 0.
\<close>

definition Atoi :: "string \<Rightarrow> int \<times> num_error option" where
  "Atoi s =
     (let (neg, digits) = (case s of [] \<Rightarrow> (False, [])
            | c # t \<Rightarrow> if c = CHR ''-'' then (True, t) else if c = CHR ''+'' then (False, t) else (False, s))
      in if digits = [] then (0, Some ErrSyntax)
         else case parse_uint digits 0 of
           Inl ErrSyntax \<Rightarrow> (0, Some ErrSyntax)
         | Inl ErrRange \<Rightarrow> (if neg then - (2 ^ 63) else 2 ^ 63 - 1, Some ErrRange)
         | Inr un \<Rightarrow>
             (if \<not> neg \<and> un \<ge> 2 ^ 63 then (2 ^ 63 - 1, Some ErrRange)
              else if neg \<and> un > 2 ^ 63 then (- (2 ^ 63), Some ErrRange)
              else (if neg then - int un else int un, None)))"

section \<open>Lines\<close>

text \<open>
  \<open>bufio.ScanLines\<close>: a last line without its end counts when it is not empty, a carriage return
  before the end of the line is dropped. The scanner stops at a line that does not fit its buffer of
  65536 bytes; what it found before stays.
\<close>

definition drop_cr :: "string \<Rightarrow> string" where
  "drop_cr line = (if line \<noteq> [] \<and> last line = CHR 0x0D then butlast line else line)"

definition scan_lines :: "string \<Rightarrow> string list" where
  "scan_lines s =
     (let pieces = split_on end_of_line s;
          whole = (if last pieces = [] then butlast pieces else pieces)
      in map drop_cr (takeWhile (\<lambda>line. length line < 65536) whole))"

section \<open>Buffered input\<close>

text \<open>
  \<open>ReadString('\n')\<close> of a reader with \<open>buf\<close> unread bytes, on a stream that gives the pieces
  \<open>input\<close>, one per \<open>Read\<close>; an empty piece is an end of file (a terminal can go on after one), and
  there is no other at the end. The results are the line with its end, what stays in the buffer and
  in the stream.
\<close>

fun read_string :: "string \<Rightarrow> string list \<Rightarrow> string \<times> string \<times> string list" where
  "read_string buf [] =
     (if end_of_line \<in> set buf
      then (takeWhile (\<lambda>c. c \<noteq> end_of_line) buf @ [end_of_line], tl (dropWhile (\<lambda>c. c \<noteq> end_of_line) buf), [])
      else (buf, [], []))"
| "read_string buf (piece # input) =
     (if end_of_line \<in> set buf
      then (takeWhile (\<lambda>c. c \<noteq> end_of_line) buf @ [end_of_line],
            tl (dropWhile (\<lambda>c. c \<noteq> end_of_line) buf), piece # input)
      else if piece = [] then (buf, [], input)
      else read_string (buf @ piece) input)"

section \<open>What is read of what was written\<close>

lemma split_on_nonempty [simp]: "split_on sep s \<noteq> []"
  by (cases s) (simp_all split: list.split)

lemma split_on_plain: "sep \<notin> set s \<Longrightarrow> split_on sep s = [s]"
  by (induction s) auto

lemma split_on_append: "sep \<notin> set s \<Longrightarrow> split_on sep (s @ sep # t) = s # split_on sep t"
  by (induction s) auto

lemma split_on_lines:
  "\<forall>line \<in> set ls. sep \<notin> set line \<Longrightarrow> split_on sep (concat (map (\<lambda>line. line @ [sep]) ls)) = ls @ [[]]"
  by (induction ls) (auto simp: split_on_append)

text \<open>A file of whole lines, each short enough and without a carriage return, gives these lines.\<close>

definition plain_line :: "string \<Rightarrow> bool" where
  "plain_line line \<longleftrightarrow> end_of_line \<notin> set line \<and> CHR 0x0D \<notin> set line \<and> length line < 65536"

lemma drop_cr_plain: "CHR 0x0D \<notin> set line \<Longrightarrow> drop_cr line = line"
  unfolding drop_cr_def using last_in_set [of line] by (auto simp del: last_in_set)

lemma scan_lines_written:
  assumes "\<forall>line \<in> set ls. plain_line line"
  shows "scan_lines (concat (map (\<lambda>line. line @ [end_of_line]) ls)) = ls"
proof -
  have "split_on end_of_line (concat (map (\<lambda>line. line @ [end_of_line]) ls)) = ls @ [[]]"
    using assms by (intro split_on_lines) (simp add: plain_line_def)
  moreover have "takeWhile (\<lambda>line. length line < 65536) ls = ls"
    using assms by (intro takeWhile_eq_all_conv [THEN iffD2]) (simp add: plain_line_def)
  moreover have "map drop_cr ls = ls"
    using assms by (intro map_idI drop_cr_plain) (simp add: plain_line_def)
  ultimately show ?thesis by (simp add: scan_lines_def Let_def del: takeWhile_eq_all_conv)
qed

lemma parse_uint_digits:
  "n * 10 ^ length (decimal k) + k < 2 ^ 64 \<Longrightarrow>
   parse_uint (decimal k @ s) n = parse_uint s (n * 10 ^ length (decimal k) + k)"
proof (induction k arbitrary: n s rule: decimal.induct)
  case (1 k)
  show ?case
  proof (cases "k < 10")
    case True
    then show ?thesis using 1(2) by (simp add: decimal.simps [of k] decimal_digit Let_def)
  next
    case False
    have k: "10 * (k div 10) + k mod 10 = k" by simp
    let ?v = "n * 10 ^ length (decimal (k div 10)) + k div 10"
    have split: "n * 10 ^ length (decimal k) + k = ?v * 10 + k mod 10"
      using False k by (simp add: decimal.simps [of k] algebra_simps)
    then have "?v * 10 + k mod 10 < 2 ^ 64" using 1(2) by (simp only:)
    then have "?v < 2 ^ 64" by (rule le_less_trans [rotated]) simp
    then have "parse_uint (decimal k @ s) n = parse_uint (digit (k mod 10) # s) ?v"
      using 1(1) [of n "digit (k mod 10) # s"] False by (simp add: decimal.simps [of k])
    also have "\<dots> = parse_uint s (?v * 10 + k mod 10)"
      using 1(2) split by (simp add: decimal_digit Let_def)
    finally show ?thesis by (simp only: split)
  qed
qed

lemma Atoi_decimal:
  assumes "k < 2 ^ 63"
  shows "Atoi (decimal k) = (int k, None)"
proof -
  obtain c s where s: "decimal k = c # s" by (cases "decimal k") simp_all
  then have "digit_char c" using decimal_digits [of c k] by simp
  then have c: "c \<noteq> CHR ''-''" "c \<noteq> CHR ''+''" by (auto simp: digit_char_def)
  have "parse_uint (decimal k) 0 = Inr k"
    using parse_uint_digits [of 0 k "[]"] assms by simp
  then have "Atoi (c # s) = (int k, None)"
    using assms c unfolding Atoi_def s by (simp add: Let_def del: parse_uint.simps)
  then show ?thesis by (simp only: s)
qed

text \<open>A line that comes in one piece is read whole.\<close>

lemma trim_line [simp]: "trim_newline (line @ [end_of_line]) = line"
  by (simp add: trim_newline_def)

lemma read_line_again: "end_of_line \<notin> set line \<Longrightarrow>
    read_string (line @ end_of_line # rest) input = (line @ [end_of_line], rest, input)"
proof -
  assume "end_of_line \<notin> set line"
  then have "takeWhile (\<lambda>c. c \<noteq> end_of_line) (line @ end_of_line # rest) = line"
    "dropWhile (\<lambda>c. c \<noteq> end_of_line) (line @ end_of_line # rest) = end_of_line # rest"
    by (induction line) auto
  then show ?thesis by (cases input) simp_all
qed

lemma read_line:
  assumes "end_of_line \<notin> set line"
  shows "read_string [] ((line @ end_of_line # rest) # input) = (line @ [end_of_line], rest, input)"
  using read_line_again [OF assms] by simp

end
