(* ===== verification/Run.thy ===== *)
theory Run
  imports TcpInv GoStrings
begin

text \<open>
  \<open>blockchain/run.go\<close>: the program. \<open>main -c\<close> creates an account and writes it to a file,
  \<open>main -g\<close> reads an account and the starting balances, starts a \<open>TcpMiner\<close> on a genesis block of its
  own and talks to the user. The file system is a function from paths to contents (\<open>None\<close> when the
  file cannot be read); what is printed is not modelled. The user's menu is a state machine: it
  waits for a line at each prompt, and the miner's goroutines run in between.
\<close>

section \<open>Accounts\<close>

text \<open>The error of \<open>GenerateKeypair\<close> is ignored and its nil key dereferenced.\<close>

definition NewMinerSaveJson :: "error + PrivateKey \<Rightarrow> string \<Rightarrow> string \<Rightarrow> string \<Rightarrow> (string \<times> string) res" where
  "NewMinerSaveJson generated fileName name port =
     (case GenerateKeypair generated of
        Inl err \<Rightarrow> Panic NilDeref
      | Inr (privKey, pubKey) \<Rightarrow>
          Ok (fileName, render (json_save
            \<lparr>Save_Name = name, Save_Connection = port, KeyPair = privKey, Save_Known = None\<rparr>)))"

text \<open>
  \<open>dat\<close> is what \<open>os.ReadFile\<close> gives. The key is tried on the name, and where signing panics on it, the
  program does.
\<close>

definition LoadMinerConfig :: "crypto \<Rightarrow> string option \<Rightarrow> SaveJsonType option res" where
  "LoadMinerConfig H dat =
     (case dat of
        None \<Rightarrow> Ok None
      | Some bytes \<Rightarrow>
          (case BytesToSave bytes of
             Inl err \<Rightarrow> Ok None
           | Inr jsonData \<Rightarrow>
               (let hashed = Sum256 H (Save_Name jsonData); pubKey = Public (KeyPair jsonData)
                in res_bind (rsa_sign H (KeyPair jsonData) hashed) (\<lambda>signed.
                     case signed of
                       Inl signErr \<Rightarrow> Ok None
                     | Inr signature \<Rightarrow>
                         (case N pubKey of
                            None \<Rightarrow> Panic NilDeref
                          | Some n \<Rightarrow>
                              if \<not> VerifyPKCS1v15 H n (E pubKey) hashed signature then Ok None
                              else Ok (Some jsonData))))))"

section \<open>Starting balances\<close>

text \<open>
  One account per line. A line without exactly one comma gives the nil map; a bad number is reported
  and the value \<open>Atoi\<close> gives beside the error is used, modulo \<open>2^32\<close>.
\<close>

fun load_lines :: "string list \<Rightarrow> u32 gomap \<Rightarrow> u32 gomap option" where
  "load_lines [] balances = Some balances"
| "load_lines (line # lines) balances =
     (let res = split_on (CHR '','') line
      in if length res \<noteq> 2 then None
         else let (num, err) = Atoi (res ! 1)
              in load_lines lines (map_put (res ! 0) (word_of_int num) balances))"

definition LoadStartingBalances :: "string option \<Rightarrow> u32 gomap option" where
  "LoadStartingBalances file =
     (case file of None \<Rightarrow> None | Some content \<Rightarrow> load_lines (scan_lines content) [])"

section \<open>The user's menu\<close>

text \<open>
  Between \<open>At_recipient\<close>, where the last line of a transfer is read and its transaction is signed, and
  the pause lie the two stages in which \<open>PostTransaction\<close> waits for the miner's mutex.
\<close>

datatype stage =
  At_menu | At_port | At_amount | At_recipient u32 | At_commit Transaction | At_pool Transaction
| At_file | At_pause | Ended

record console =
  Stage :: stage
  Buffer :: string
  Stdin :: "string list"

definition next_line :: "console \<Rightarrow> string \<times> console" where
  "next_line con =
     (let (line, buf, input) = read_string (Buffer con) (Stdin con)
      in (trim_newline line, con\<lparr>Buffer := buf, Stdin := input\<rparr>))"

text \<open>The menu makes a new reader, so what the old one has read ahead is gone.\<close>

definition menu_step ::
  "crypto \<Rightarrow> (Transaction list \<Rightarrow> Transaction list) \<Rightarrow> tcp_miner \<Rightarrow> console \<Rightarrow> (console \<times> tcp_effect list) go" where
  "menu_step H ord m con =
     go_bind (Some (Tcp_AvailableGold m)) (\<lambda>funds.
       let (choice, con) = next_line (con\<lparr>Buffer := []\<rparr>)
       in if choice = ''x'' then ret (con\<lparr>Stage := Ended\<rparr>, [])
          else if choice = ''b'' then
            go_bind (Some (Tcp_ShowAllBalances m)) (\<lambda>rows. ret (con\<lparr>Stage := At_pause\<rparr>, []))
          else if choice = ''c'' then ret (con\<lparr>Stage := At_port\<rparr>, [])
          else if choice = ''t'' then ret (con\<lparr>Stage := At_amount\<rparr>, [])
          else if choice = ''r'' then
            ret (con\<lparr>Stage := At_pause\<rparr>, map NodeEffect (Tcp_ResendPendingTransactions ord m))
          else if choice = ''s'' then ret (con\<lparr>Stage := At_file\<rparr>, [])
          else if choice = ''d'' then
            (case Tcp_ShowBlockchain H m of
               None \<Rightarrow> None
             | Some shown \<Rightarrow> ret (con\<lparr>Stage := At_pause\<rparr>, []))
          else ret (con\<lparr>Stage := At_pause\<rparr>, []))"

text \<open>\<open>uint32(amtInt)\<close> keeps the low 32 bits.\<close>

definition amount_step :: "tcp_miner \<Rightarrow> string \<Rightarrow> stage res" where
  "amount_step m amt =
     (let (amtInt, err) = Atoi amt
      in if err \<noteq> None then Ok At_pause
         else if amtInt \<le> 0 then Ok At_pause
         else let amtUint = word_of_int amtInt
              in res_bind (Tcp_AvailableGold m) (\<lambda>available.
                   if amtUint > available then Ok At_pause else Ok (At_recipient amtUint)))"

definition readUserInput ::
  "crypto \<Rightarrow> (Transaction list \<Rightarrow> Transaction list) \<Rightarrow> (string \<Rightarrow> bool) \<Rightarrow> tcp_miner \<Rightarrow> console
   \<Rightarrow> (tcp_miner \<times> console \<times> tcp_effect list) go" where
  "readUserInput H ord dial m con =
     (case Stage con of
        At_menu \<Rightarrow> go_bind (menu_step H ord m con) (\<lambda>(con, effs). ret (m, con, effs))
      | At_port \<Rightarrow>
          (let (port, con) = next_line con
           in go_bind (RegisterWith dial m port) (\<lambda>effs. ret (m, con\<lparr>Stage := At_pause\<rparr>, effs)))
      | At_amount \<Rightarrow>
          (let (amt, con) = next_line con
           in go_bind (Some (amount_step m amt)) (\<lambda>st. ret (m, con\<lparr>Stage := st\<rparr>, [])))
      | At_recipient amtUint \<Rightarrow>
          (let (addr, con) = next_line con;
               outputs = Some [\<lparr>Out_Address = addr, Out_Amount = amtUint\<rparr>]
           in go_bind (Some (Tcp_PrepareTransaction H m outputs (defaultTxFee (Config m)))) (\<lambda>tx.
                ret (m, con\<lparr>Stage := At_commit tx\<rparr>, [])))
      | At_commit tx \<Rightarrow>
          (let (m, effs) = Tcp_CommitTransaction H m tx
           in ret (m, con\<lparr>Stage := At_pool tx\<rparr>, map NodeEffect effs))
      | At_pool tx \<Rightarrow> ret (Tcp_AddTransaction H m tx, con\<lparr>Stage := At_pause\<rparr>, [])
      | At_file \<Rightarrow>
          (let (savePath, con) = next_line con
           in ret (m, con\<lparr>Stage := At_pause\<rparr>, SaveJson m savePath))
      | At_pause \<Rightarrow> (let (line, con) = next_line con in ret (m, con\<lparr>Stage := At_menu\<rparr>, []))
      | Ended \<Rightarrow> ret (m, con, []))"

section \<open>The program\<close>

datatype program_end =
  Usage
| Created string string
| LoadFailed
| Started tcp_miner realnet "tcp_effect list"
| InvalidOption

definition balances_path :: string where
  "balances_path = ''./config/starting_balances.txt''"

text \<open>
  \<open>abs_path\<close> is what \<open>filepath.Abs\<close> gives for a path (empty when it fails), \<open>now\<close> the time of the
  genesis block and \<open>now'\<close> that of the first search, \<open>generated\<close> what \<open>rsa.GenerateKey\<close> gives.
  \<open>Started\<close> is the state in which \<open>readUserInput\<close> begins, at \<open>At_menu\<close>. The error of \<open>MakeGenesis\<close>
  is ignored: without balances the miner has no genesis block, and \<open>Initialize\<close> panics.
\<close>

definition main ::
  "crypto \<Rightarrow> go_time \<Rightarrow> go_time \<Rightarrow> map_orders \<Rightarrow> ((string \<times> u32) list \<Rightarrow> (string \<times> u32) list)
   \<Rightarrow> (string \<Rightarrow> string option) \<Rightarrow> (string \<Rightarrow> string) \<Rightarrow> error + PrivateKey \<Rightarrow> string list \<Rightarrow> string list
   \<Rightarrow> program_end res" where
  "main H now now' os ord files abs_path generated args input =
     (if length args \<noteq> 3 then Ok Usage
      else let option = args ! 1; configfilepath = args ! 2
           in if option = ''-c'' then
                (let (name, con) = next_line \<lparr>Stage = At_menu, Buffer = [], Stdin = input\<rparr>;
                     (port, con) = next_line con
                 in res_bind (NewMinerSaveJson generated configfilepath name port) (\<lambda>(fileName, jsonBytes).
                      Ok (Created fileName jsonBytes)))
              else if option = ''-g'' then
                res_bind (LoadMinerConfig H (files configfilepath)) (\<lambda>minerConfig.
                  case minerConfig of
                    None \<Rightarrow> Ok LoadFailed
                  | Some save \<Rightarrow>
                      (let startingBalances = LoadStartingBalances (files (abs_path balances_path));
                           (made, config) = MakeGenesis H now ord 20 COINBASE_AMT_ALLOWED DEFAULT_TX_FEE
                             CONFIRMED_DEPTH startingBalances;
                           genesis = (case made of Inl err \<Rightarrow> None | Inr g \<Rightarrow> g)
                       in res_bind (NewTcpMiner H (Save_Name save) NUM_ROUNDS_MINING genesis
                              (Some (KeyPair save)) generated (Save_Connection save) config) (\<lambda>miner1.
                            res_bind (Tcp_Initialize H now' os miner1 NewRealNet (Save_Known save))
                              (\<lambda>(miner1, net, effs). Ok (Started miner1 net effs)))))
              else Ok InvalidOption)"

end
