(* ===== verification/TcpNode.thy ===== *)
theory TcpNode
  imports Run
begin

text \<open>
  A running process: the miner, its \<open>RealNet\<close>, the user's console, and what is left to be done. A
  handler holds the miner's mutex, so it is one step; a \<open>go\<close> statement, an \<open>Emit\<close> and an accepted
  connection make a task that runs some time later, in any order. What leaves the process is
  recorded: the messages written to TCP addresses and the files. The rest of the world decides which
  connections come in, what \<open>Read\<close> gives, what the user types, and which addresses can be dialled.
\<close>

section \<open>State\<close>

datatype tcp_task =
  Handling string
| Dispatch string argument
| Calling handler argument
| Receiving Block

record process =
  Self :: tcp_miner
  Peers :: realnet
  Console :: console
  Listening :: "string option"
  Todo :: "tcp_task list"
  Sent :: "(string \<times> string) list"
  Saved :: "(string \<times> string) list"

text \<open>What the runtime and the network decide in a step.\<close>

record tcp_environment =
  tcp_now :: go_time
  tcp_orders :: map_orders
  tcp_peers :: "TcpConnectionInfo list \<Rightarrow> TcpConnectionInfo list"
  tcp_pending :: "Transaction list \<Rightarrow> Transaction list"
  tcp_dial :: "string \<Rightarrow> bool"

section \<open>Effects\<close>

definition carry_out :: "tcp_environment \<Rightarrow> process \<Rightarrow> tcp_effect \<Rightarrow> process" where
  "carry_out e p eff =
     (case eff of
        NodeEffect (Broadcast msg data) \<Rightarrow>
          p\<lparr>Sent := Sent p @ RealNet_Broadcast (tcp_peers e) (tcp_dial e) (Peers p) msg data\<rparr>
      | NodeEffect (SendMessage addr msg data) \<Rightarrow>
          p\<lparr>Sent := Sent p @ RealNet_SendMessage (tcp_dial e) (Peers p) addr msg data\<rparr>
      | NodeEffect (GoReceiveBlock b) \<Rightarrow> p\<lparr>Todo := Todo p @ [Receiving b]\<rparr>
      | NodeEffect (GoEmit event flag) \<Rightarrow> p\<lparr>Todo := Todo p @ [Dispatch event (Flag flag)]\<rparr>
      | GoStartListening port \<Rightarrow> p\<lparr>Listening := Some port\<rparr>
      | WriteTo addr bytes \<Rightarrow> p\<lparr>Sent := Sent p @ [(addr, bytes)]\<rparr>
      | EmitData msg data \<Rightarrow> p\<lparr>Todo := Todo p @ [Dispatch msg (Bytes (bytes_of data))]\<rparr>
      | WriteFile fileName bytes \<Rightarrow> p\<lparr>Saved := Saved p @ [(fileName, bytes)]\<rparr>)"

definition carry_all :: "tcp_environment \<Rightarrow> process \<Rightarrow> tcp_effect list \<Rightarrow> process" where
  "carry_all e = foldl (carry_out e)"

section \<open>Tasks\<close>

text \<open>The methods of \<open>TcpMiner\<close> that listen, and what they give back to be done.\<close>

definition tcp_handle ::
  "crypto \<Rightarrow> tcp_environment \<Rightarrow> tcp_miner \<Rightarrow> handler \<Rightarrow> argument \<Rightarrow> (tcp_miner \<times> effect list) go" where
  "tcp_handle H e m h a =
     (case (h, a) of
        (ReceiveBlockBytes_handler, Bytes bs) \<Rightarrow>
          go_bind (Tcp_ReceiveBlockBytes H (tcp_now e) (tcp_orders e) m bs) (\<lambda>(m', r, effs). ret (m', effs))
      | (ProvideMissingBlock_handler, Bytes bs) \<Rightarrow>
          go_bind (Tcp_ProvideMissingBlock m bs) (\<lambda>effs. ret (m, effs))
      | (FindProof_handler, Flag oneAndDone) \<Rightarrow> Tcp_FindProof H m oneAndDone
      | (AddTransactionBytes_handler, Bytes bs) \<Rightarrow>
          go_bind (Some (Tcp_AddTransactionBytes H m bs)) (\<lambda>m'. ret (m', []))
      | _ \<Rightarrow> Some (Panic bad_argument))"

definition after :: "tcp_environment \<Rightarrow> process \<Rightarrow> (tcp_miner \<times> effect list) go \<Rightarrow> process go" where
  "after e p run = go_bind run (\<lambda>(m', effs). ret (carry_all e (p\<lparr>Self := m'\<rparr>) (map NodeEffect effs)))"

definition run_tcp_task :: "crypto \<Rightarrow> dispatcher \<Rightarrow> tcp_environment \<Rightarrow> process \<Rightarrow> tcp_task \<Rightarrow> process go" where
  "run_tcp_task H emit e p t =
     (case t of
        Handling data \<Rightarrow>
          go_bind (HandleConnection (tcp_dial e) (Self p) (Peers p) data) (\<lambda>(m', net', effs).
            ret (carry_all e (p\<lparr>Self := m', Peers := net'\<rparr>) effs))
      | Dispatch event a \<Rightarrow> ret (p\<lparr>Todo := Todo p @ map (\<lambda>h. Calling h a) (emit (Emitter (Self p)) event)\<rparr>)
      | Calling h a \<Rightarrow> after e p (tcp_handle H e (Self p) h a)
      | Receiving b \<Rightarrow> after e p
          (go_bind (Tcp_ReceiveBlock H (tcp_now e) (tcp_orders e) (Self p) b) (\<lambda>(m', r, effs). ret (m', effs))))"

section \<open>Steps\<close>

definition tcp_env_ok :: "tcp_environment \<Rightarrow> bool" where
  "tcp_env_ok e \<longleftrightarrow> orders_ok (tcp_orders e) \<and> is_order (tcp_peers e) \<and> is_order (tcp_pending e)"

text \<open>
  What can happen to a process: a connection comes in, a task is scheduled, or the console's goroutine
  goes on with what the user has typed. Each has an outcome: the process goes on (\<open>ret\<close>), a panic in
  any goroutine ends it, or the code never returns (\<open>None\<close>). A connection is accepted once the process
  listens, whatever \<open>Read\<close> gives; \<open>incoming\<close> restricts the messages that are read, \<open>user\<close> what the user
  does, \<open>clock\<close> the times of the clock.
\<close>

datatype tcp_event = Connects "string list" | Runs tcp_task | Types

inductive tcp_outcome :: "crypto \<Rightarrow> dispatcher \<Rightarrow> (string \<Rightarrow> bool) \<Rightarrow> (process \<Rightarrow> bool) \<Rightarrow> (go_time \<Rightarrow> bool)
    \<Rightarrow> process \<Rightarrow> tcp_event \<Rightarrow> process go \<Rightarrow> bool"
  for H emit incoming user clock where
  connects: "Listening p = Some port \<Longrightarrow> (\<And>data. read_connection chunks [] = Ok data \<Longrightarrow> incoming data) \<Longrightarrow>
    tcp_outcome H emit incoming user clock p (Connects chunks)
      (go_bind (Some (read_connection chunks [])) (\<lambda>data. ret (p\<lparr>Todo := Todo p @ [Handling data]\<rparr>)))"
| runs: "Todo p = pre @ t # rest \<Longrightarrow> tcp_env_ok e \<Longrightarrow> clock (tcp_now e) \<Longrightarrow>
    tcp_outcome H emit incoming user clock p (Runs t) (run_tcp_task H emit e (p\<lparr>Todo := pre @ rest\<rparr>) t)"
| types: "user p \<Longrightarrow> tcp_env_ok e \<Longrightarrow>
    tcp_outcome H emit incoming user clock p Types
      (go_bind (readUserInput H (tcp_pending e) (tcp_dial e) (Self p) (Console p)) (\<lambda>(m', con', effs).
        ret (carry_all e (p\<lparr>Self := m', Console := con'\<rparr>) effs)))"

inductive_cases connects_outcome: "tcp_outcome H emit incoming user clock p (Connects chunks) out"
inductive_cases runs_outcome: "tcp_outcome H emit incoming user clock p (Runs t) out"
inductive_cases types_outcome: "tcp_outcome H emit incoming user clock p Types out"

text \<open>A step is an outcome after which the process goes on.\<close>

definition tcp_step :: "crypto \<Rightarrow> dispatcher \<Rightarrow> (string \<Rightarrow> bool) \<Rightarrow> (process \<Rightarrow> bool) \<Rightarrow> (go_time \<Rightarrow> bool)
    \<Rightarrow> process \<Rightarrow> process \<Rightarrow> bool" where
  "tcp_step H emit incoming user clock p p' \<longleftrightarrow> (\<exists>ev. tcp_outcome H emit incoming user clock p ev (ret p'))"

lemma tcp_step_accept:
  assumes "Listening p = Some port" "read_connection chunks [] = Ok data" "incoming data"
  shows "tcp_step H emit incoming user clock p (p\<lparr>Todo := Todo p @ [Handling data]\<rparr>)"
proof -
  have "tcp_outcome H emit incoming user clock p (Connects chunks)
      (go_bind (Some (read_connection chunks [])) (\<lambda>data. ret (p\<lparr>Todo := Todo p @ [Handling data]\<rparr>)))"
    by (rule tcp_outcome.connects [of p port]) (use assms in simp_all)
  then show ?thesis using assms(2) by (auto simp: tcp_step_def)
qed

lemma tcp_step_cases [consumes 1, case_names accept task user]:
  assumes "tcp_step H emit incoming user clock p p'"
  obtains (accept) port chunks data where "p' = p\<lparr>Todo := Todo p @ [Handling data]\<rparr>" "Listening p = Some port"
      "read_connection chunks [] = Ok data" "incoming data"
  | (task) pre t rest e where "Todo p = pre @ t # rest" "tcp_env_ok e" "clock (tcp_now e)"
      "run_tcp_task H emit e (p\<lparr>Todo := pre @ rest\<rparr>) t = ret p'"
  | (user) e m' con' effs where "p' = carry_all e (p\<lparr>Self := m', Console := con'\<rparr>) effs" "user p" "tcp_env_ok e"
      "readUserInput H (tcp_pending e) (tcp_dial e) (Self p) (Console p) = ret (m', con', effs)"
proof -
  obtain ev out where out: "tcp_outcome H emit incoming user clock p ev out" "out = ret p'"
    using assms by (auto simp: tcp_step_def)
  from out(1) show thesis
  proof cases
    case (connects port chunks)
    then show thesis using accept out(2) by (cases "read_connection chunks []") auto
  next
    case (runs pre t rest e)
    then show thesis using task out(2) by simp
  next
    case (types e)
    then show thesis using user out(2) [symmetric] by (auto simp: res_simps eq_commute [of "ret p'"])
  qed
qed

text \<open>The process when \<open>main\<close> has started the miner.\<close>

definition start_process :: "tcp_environment \<Rightarrow> string list \<Rightarrow> tcp_miner \<Rightarrow> realnet \<Rightarrow> tcp_effect list \<Rightarrow> process" where
  "start_process e input m net effs =
     carry_all e \<lparr>Self = m, Peers = net, Console = \<lparr>Stage = At_menu, Buffer = [], Stdin = input\<rparr>,
       Listening = None, Todo = [], Sent = [], Saved = []\<rparr> effs"

section \<open>What the effects change\<close>

lemma carry_out_same [simp]:
  "Self (carry_out e p eff) = Self p" "Peers (carry_out e p eff) = Peers p" "Console (carry_out e p eff) = Console p"
  by (simp_all add: carry_out_def split: tcp_effect.split effect.split)

lemma carry_all_same [simp]:
  "Self (carry_all e p effs) = Self p" "Peers (carry_all e p effs) = Peers p" "Console (carry_all e p effs) = Console p"
  by (induction effs arbitrary: p) (simp_all add: carry_all_def)

lemma carry_all_simps [simp]:
  "carry_all e p [] = p" "carry_all e p (eff # effs) = carry_all e (carry_out e p eff) effs"
  by (simp_all add: carry_all_def)

end
