(* ===== verification/TcpShape.thy ===== *)
theory TcpShape
  imports TcpNode
begin

text \<open>
  What no step of a process changes, whatever messages come in and whatever the user types: whose
  account the miner holds, what it listens to, that it has a head, a confirmed block and a block to
  mine; and that the miners it knows are those its network recognises, each under its own address.
\<close>

section \<open>The miner\<close>

definition miner_frame :: "'a miner_scheme \<Rightarrow> 'a miner_scheme \<Rightarrow> bool" where
  "miner_frame m m' \<longleftrightarrow> Name m' = Name m \<and> Address m' = Address m \<and> PrivKey m' = PrivKey m \<and> PubKey m' = PubKey m
     \<and> Config m' = Config m \<and> Emitter m' = Emitter m \<and> MiningRounds m' = MiningRounds m \<and> miner.more m' = miner.more m
     \<and> (LastBlock m \<noteq> None \<longrightarrow> LastBlock m' \<noteq> None) \<and> (LastConfirmedBlock m \<noteq> None \<longrightarrow> LastConfirmedBlock m' \<noteq> None)
     \<and> (CurrentBlock m \<noteq> None \<longrightarrow> CurrentBlock m' \<noteq> None)"

lemma miner_frame_refl [simp]: "miner_frame m m"
  by (simp add: miner_frame_def)

lemma miner_frame_trans: "miner_frame m m1 \<Longrightarrow> miner_frame m1 m2 \<Longrightarrow> miner_frame m m2"
  by (simp add: miner_frame_def)

definition spends_no_more :: "'a client_scheme \<Rightarrow> 'a client_scheme \<Rightarrow> bool" where
  "spends_no_more c c' \<longleftrightarrow> set (PendingOutgoingTransactions c') \<subseteq> set (PendingOutgoingTransactions c)"

lemma client_miner_frame:
  assumes "client_frame m m'"
  shows "miner_frame m m' \<and> spends_no_more m m'"
  using assms by (cases m; cases m'; simp add: client_frame_def miner_frame_def spends_no_more_def)

lemma Tcp_StartNewSearch_frame:
  assumes "Tcp_StartNewSearch H now os m txSet = Ok m'"
  shows "miner_frame m m' \<and> spends_no_more m m' \<and> CurrentBlock m' \<noteq> None"
proof -
  obtain h where "LastBlock m = Some h" using assms by (auto simp: Tcp_StartNewSearch_def split: option.splits)
  then have "search_with H (Target h) now os m txSet = Ok m'" using assms by (simp add: Tcp_StartNewSearch_search)
  then show ?thesis
    by (auto simp: search_with_def Let_def res_simps miner_frame_def spends_no_more_def split: option.splits)
qed

lemma cut_over_frame:
  assumes "cut_over H (Tcp_StartNewSearch H) now os (m, r, effs) = ret (m', r', effs')"
  shows "miner_frame m m' \<and> spends_no_more m m'"
proof -
  have "m' = m \<or> (\<exists>s. Tcp_StartNewSearch H now os m (Some s) = Ok m')"
    using assms by (auto simp: cut_over_def res_simps split: option.splits if_splits)
  then show ?thesis using Tcp_StartNewSearch_frame [of H now os m _ m'] by (elim disjE exE) (simp_all add: spends_no_more_def)
qed

lemma Tcp_ReceiveBlock_frame:
  assumes "Tcp_ReceiveBlock H now os m b = ret (m', r, effs)" "10 \<le> length (Address m)"
  shows "miner_frame m m' \<and> spends_no_more m m'"
proof -
  have "\<not> length (Address m) < 10" using assms(2) by simp
  then obtain c r1 effs1 where "ReceiveBlock H (block_order os) m b = ret (c, r1, effs1)"
    "cut_over H (Tcp_StartNewSearch H) now os (c, r1, effs1) = ret (m', r, effs)"
    using assms(1) by (auto simp: Tcp_ReceiveBlock_eq res_simps)
  then have "miner_frame m c \<and> spends_no_more m c" "miner_frame c m' \<and> spends_no_more c m'"
    using client_miner_frame [OF ReceiveBlock_frame] cut_over_frame by blast+
  then show ?thesis using miner_frame_trans [of m c m'] by (auto simp: spends_no_more_def)
qed

lemma Tcp_FindProof_frame:
  "Tcp_FindProof H m oneAndDone = ret (m', effs) \<Longrightarrow> miner_frame m m' \<and> spends_no_more m m'"
  by (auto simp: Tcp_FindProof_def Let_def res_simps miner_frame_def spends_no_more_def
      split: option.splits prod.splits if_splits)

lemma tcp_handle_frame:
  assumes "tcp_handle H e m h a = ret (m', effs)" "10 \<le> length (Address m)"
  shows "miner_frame m m' \<and> spends_no_more m m'"
proof -
  have "m' = m \<or> (\<exists>b r effs. Tcp_ReceiveBlock H (tcp_now e) (tcp_orders e) m b = ret (m', r, effs))
      \<or> (\<exists>once. Tcp_FindProof H m once = ret (m', effs)) \<or> (\<exists>tx. m' = Tcp_AddTransaction H m tx)"
    using assms(1)
    by (auto simp: tcp_handle_def Tcp_ReceiveBlockBytes_def Tcp_AddTransactionBytes_def res_simps
        split: handler.splits argument.splits sum.splits)
  then show ?thesis
  proof (elim disjE exE)
    show ?thesis if "Tcp_ReceiveBlock H (tcp_now e) (tcp_orders e) m b = ret (m', r, effs)" for b r effs
      using that assms(2) by (rule Tcp_ReceiveBlock_frame)
    show ?thesis if "Tcp_FindProof H m once = ret (m', effs)" for once
      using that by (rule Tcp_FindProof_frame)
  qed (simp_all add: Tcp_AddTransaction_def miner_frame_def spends_no_more_def)
qed

section \<open>The process\<close>

text \<open>A connection may add to the miners known; nothing else of a step changes them.\<close>

definition tcp_frame :: "tcp_miner \<Rightarrow> tcp_miner \<Rightarrow> bool" where
  "tcp_frame m m' \<longleftrightarrow> miner_frame m (m'\<lparr>KnownTcpConnections := KnownTcpConnections m\<rparr>)
     \<and> (\<exists>more. elems (KnownTcpConnections m') = elems (KnownTcpConnections m) @ more)"

lemma tcp_frame_same: "miner_frame m m' \<Longrightarrow> tcp_frame m m'"
  by (cases m; cases m'; simp add: tcp_frame_def miner_frame_def)

lemma tcp_frame_trans: "tcp_frame m m1 \<Longrightarrow> tcp_frame m1 m2 \<Longrightarrow> tcp_frame m m2"
  by (cases m; cases m1; cases m2; fastforce simp: tcp_frame_def miner_frame_def)

lemma tcp_frame_Connection: "tcp_frame m m' \<Longrightarrow> Connection m' = Connection m"
  by (cases m; cases m'; simp add: tcp_frame_def miner_frame_def)

text \<open>Every known miner is recognised, under its own address.\<close>

definition peers_ok :: "tcp_miner \<Rightarrow> realnet \<Rightarrow> bool" where
  "peers_ok m net \<longleftrightarrow> (\<forall>info \<in> set (elems (KnownTcpConnections m)). RealNet_Recognizes net info)
     \<and> (\<forall>k info. map_get (Real_Clients net) k = Some info \<longrightarrow> Tcp_Address info = k)"

lemma peers_ok_register:
  assumes "peers_ok m net" "set (elems (KnownTcpConnections m')) \<subseteq> insert info (set (elems (KnownTcpConnections m)))"
  shows "peers_ok m' (RealNet_Register net info)"
  using assms by (auto simp: peers_ok_def RealNet_Recognizes_def RealNet_Register_def split: if_splits)

lemma HandleConnection_outcome:
  assumes "HandleConnection dial m net data = ret (m', net', effs)"
  shows "tcp_frame m m' \<and> spends_no_more m m' \<and> (peers_ok m net \<longrightarrow> peers_ok m' net')"
proof -
  have "(m', net') = (m, net) \<or> (\<exists>info. net' = RealNet_Register net info
      \<and> m' = m\<lparr>KnownTcpConnections := append_slice (KnownTcpConnections m) [info]\<rparr>)"
    using assms by (auto simp: HandleConnection_def res_simps split: sum.splits if_splits)
  then show ?thesis
  proof (elim disjE exE conjE)
    fix info assume new: "net' = RealNet_Register net info"
      "m' = m\<lparr>KnownTcpConnections := append_slice (KnownTcpConnections m) [info]\<rparr>"
    then have "tcp_frame m m'" by (simp add: tcp_frame_def miner_frame_def)
    then show ?thesis using peers_ok_register [of m net m' info] new by (simp add: spends_no_more_def)
  qed (simp add: tcp_frame_same spends_no_more_def)
qed

lemma readUserInput_frame:
  assumes "readUserInput H ord dial m con = ret (m', con', effs)"
  shows "miner_frame m m'"
proof -
  have "m' = m \<or> (\<exists>tx effs. Tcp_CommitTransaction H m tx = (m', effs)) \<or> (\<exists>tx. m' = Tcp_AddTransaction H m tx)"
    using assms by (auto simp: readUserInput_def Let_def res_simps split: stage.splits prod.splits)
  then show ?thesis
    by (elim disjE exE) (auto simp: Tcp_CommitTransaction_def Tcp_AddTransaction_def Let_def miner_frame_def)
qed

lemma known_frame: "miner_frame m m' \<Longrightarrow> KnownTcpConnections m' = KnownTcpConnections m"
  by (cases m; cases m'; simp add: miner_frame_def)

lemma run_tcp_task_frame:
  assumes "run_tcp_task H emit e p t = ret p'" "10 \<le> length (Address (Self p))"
  shows "tcp_frame (Self p) (Self p') \<and> spends_no_more (Self p) (Self p')
    \<and> (peers_ok (Self p) (Peers p) \<longrightarrow> peers_ok (Self p') (Peers p'))"
proof -
  have step: "tcp_frame (Self p) m' \<and> spends_no_more (Self p) m' \<and> (peers_ok (Self p) (Peers p) \<longrightarrow> peers_ok m' (Peers p))"
    if "miner_frame (Self p) m' \<and> spends_no_more (Self p) m'" for m'
    using that known_frame [of "Self p" m'] by (simp add: tcp_frame_same peers_ok_def)
  show ?thesis
  proof (cases t)
    case (Handling data)
    then show ?thesis
      using assms(1) HandleConnection_outcome [of "tcp_dial e" "Self p" "Peers p" data]
      by (auto simp: run_tcp_task_def res_simps)
  next
    case (Dispatch event a)
    then show ?thesis using assms(1) step [of "Self p"] by (auto simp: run_tcp_task_def spends_no_more_def)
  next
    case (Calling h a)
    then obtain m' effs where "tcp_handle H e (Self p) h a = ret (m', effs)" "Self p' = m'" "Peers p' = Peers p"
      using assms(1) by (auto simp: run_tcp_task_def after_def res_simps)
    then show ?thesis using step [OF tcp_handle_frame [OF _ assms(2)]] by simp
  next
    case (Receiving b)
    then obtain m' r effs where "Tcp_ReceiveBlock H (tcp_now e) (tcp_orders e) (Self p) b = ret (m', r, effs)"
      "Self p' = m'" "Peers p' = Peers p"
      using assms(1) by (auto simp: run_tcp_task_def after_def res_simps)
    then show ?thesis using step [OF Tcp_ReceiveBlock_frame [OF _ assms(2)]] by simp
  qed
qed

lemma tcp_step_frame:
  assumes "tcp_step H emit incoming user clock p p'" "10 \<le> length (Address (Self p))"
  shows "tcp_frame (Self p) (Self p') \<and> (peers_ok (Self p) (Peers p) \<longrightarrow> peers_ok (Self p') (Peers p'))"
  using assms(1)
proof (cases rule: tcp_step_cases)
  case (accept port chunks data)
  then show ?thesis by (simp add: tcp_frame_same)
next
  case (task pre t rest e)
  then show ?thesis using run_tcp_task_frame [OF task(4)] assms(2) by simp
next
  case (user e m' con' effs)
  have "miner_frame (Self p) m'" using user(4) by (rule readUserInput_frame)
  then show ?thesis using user(1) known_frame [of "Self p" m'] by (simp add: tcp_frame_same peers_ok_def)
qed

lemma tcp_steps_frame:
  assumes "(tcp_step H emit incoming user clock)\<^sup>*\<^sup>* p p'" "10 \<le> length (Address (Self p))" "peers_ok (Self p) (Peers p)"
  shows "tcp_frame (Self p) (Self p') \<and> peers_ok (Self p') (Peers p')"
  using assms(1)
proof (induction rule: rtranclp_induct)
  case base
  then show ?case using assms(3) by (simp add: tcp_frame_same)
next
  case (step q r)
  have "Address (Self q) = Address (Self p)" using step.IH by (simp add: tcp_frame_def miner_frame_def)
  then show ?case using tcp_step_frame [OF step.hyps(2)] step.IH assms(2) tcp_frame_trans by auto
qed

end
