(* ===== verification/TcpCodec.thy ===== *)
theory TcpCodec
  imports Codec TcpInv
begin

text \<open>
  Round trips of the documents of \<open>TcpJson\<close>: the envelope of a message, a miner's address and the saved
  account. Byte slices and numbers always survive, strings when they are valid UTF-8.
\<close>

section \<open>Depth\<close>

lemma json_depth_tcp: "json_depth (json_tcp_info t) \<le> 1" "json_depth (json_tcp_data d) \<le> 1"
  by (simp_all add: json_tcp_info_def json_tcp_data_def)

lemma json_depth_crt: "json_depth (json_crt_value c) \<le> 1"
  by (simp add: json_crt_value_def)

lemma json_depth_precomputed: "json_depth (json_precomputed p) \<le> 3"
  using json_depth_slice [of json_crt_value 1 "CRTValues p", OF json_depth_crt]
  by (simp add: json_precomputed_def)

lemma json_depth_privkey: "json_depth (json_privkey k) \<le> 4"
  using json_depth_precomputed [of "Precomputed k"] json_depth_slice [of json_bigptr 0 "Primes k"]
  by (simp add: json_privkey_def)

lemma json_depth_save: "json_depth (json_save s) \<le> 5"
  using json_depth_privkey [of "KeyPair s"] json_depth_slice [of json_tcp_info 1 "Save_Known s", OF json_depth_tcp(1)]
  by (simp add: json_save_def)

section \<open>Values that survive\<close>

definition sendable_info :: "TcpConnectionInfo \<Rightarrow> bool" where
  "sendable_info t \<longleftrightarrow> valid_utf8 (Tcp_Name t) \<and> valid_utf8 (Tcp_Address t) \<and> valid_utf8 (Tcp_Connection t)"

definition sendable_save :: "SaveJsonType \<Rightarrow> bool" where
  "sendable_save s \<longleftrightarrow> valid_utf8 (Save_Name s) \<and> valid_utf8 (Save_Connection s) \<and> sendable_key (Public (KeyPair s))
     \<and> (\<forall>t \<in> set (elems (Save_Known s)). sendable_info t)"

section \<open>Decoding what was encoded\<close>

lemma decode_json_tcp_info: "sendable_info t \<Longrightarrow> decode_tcp_info (value_of (json_tcp_info t)) old = Some t"
  by (simp add: decode_tcp_info_def decode_struct_def json_tcp_info_def decode_members_Cons sendable_info_def
      del: value_of.simps(3) escape.simps decode_members.simps(2))

lemma decode_json_tcp_data: "valid_utf8 (Tcp_Msg d) \<Longrightarrow> decode_tcp_data (value_of (json_tcp_data d)) old = Some d"
  by (simp add: decode_tcp_data_def decode_struct_def json_tcp_data_def decode_members_Cons
      del: value_of.simps(3) escape.simps decode_members.simps(2))

lemma decode_json_crt: "decode_crt_value (value_of (json_crt_value c)) old = Some c"
  by (simp add: decode_crt_value_def decode_struct_def json_crt_value_def decode_members_Cons
      del: value_of.simps(2) escape.simps decode_members.simps(2))

lemma decode_json_precomputed: "decode_precomputed (value_of (json_precomputed p)) old = Some p"
  using decode_json_slice [of "CRTValues p" decode_crt_value json_crt_value zero_crt_value] decode_json_crt
  by (simp add: decode_precomputed_def decode_struct_def json_precomputed_def decode_members_Cons
      del: value_of.simps(2) escape.simps decode_members.simps(2))

lemma decode_json_privkey:
  assumes "sendable_key (Public k)"
  shows "decode_privkey (value_of (json_privkey k)) old = Some k"
  using assms decode_json_slice [of "Primes k" decode_bigptr json_bigptr None]
  by (simp add: decode_privkey_def decode_struct_def json_privkey_def decode_members_Cons decode_json_int
      decode_json_precomputed sendable_key_def
      del: value_of.simps(2) escape.simps decode_members.simps(2))

lemma decode_json_save:
  assumes "sendable_save s"
  shows "decode_save (value_of (json_save s)) old = Some s"
  using assms decode_json_slice [of "Save_Known s" decode_tcp_info json_tcp_info zero_tcp_info] decode_json_tcp_info
  by (simp add: decode_save_def decode_struct_def json_save_def decode_members_Cons decode_json_privkey
      sendable_save_def del: value_of.simps(3) escape.simps decode_members.simps(2))

section \<open>What is sent is what is read\<close>

lemma BytesToTcpInfo_sent: "sendable_info t \<Longrightarrow> BytesToTcpInfo (render (json_tcp_info t)) = Inr t"
  using json_depth_tcp(1) [of t] unfolding BytesToTcpInfo_def
  by (intro Unmarshal_render decode_json_tcp_info) simp_all

lemma BytesToTcpData_sent: "valid_utf8 (Tcp_Msg d) \<Longrightarrow> BytesToTcpData (render (json_tcp_data d)) = Inr d"
  using json_depth_tcp(2) [of d] unfolding BytesToTcpData_def
  by (intro Unmarshal_render decode_json_tcp_data) simp_all

lemma BytesToSave_sent: "sendable_save s \<Longrightarrow> BytesToSave (render (json_save s)) = Inr s"
  using json_depth_save [of s] unfolding BytesToSave_def
  by (intro Unmarshal_render decode_json_save) simp_all

end
