(* ===== verification/TcpSafe.thy ===== *)
theory TcpSafe
  imports TcpShape TcpCodec SystemSafe
begin

text \<open>
  A process among well-behaved ones: as long as the messages that come in can be read (the messages
  such a process sends can), every task runs to its end, the miner keeps its invariant, and every
  message that is sent can be read. The lemmas reuse those on \<open>Miner\<close>, whose methods \<open>TcpMiner\<close>
  repeats; a \<open>RealNet\<close> ignores an unknown address, so nothing is asked of the addresses in a message.
\<close>

section \<open>Messages\<close>

definition readable :: "crypto \<Rightarrow> nat \<Rightarrow> handler \<Rightarrow> argument \<Rightarrow> bool" where
  "readable H L h a =
     (case (h, a) of
        (ReceiveBlockBytes_handler, Bytes bs) \<Rightarrow> (\<exists>b. BytesToBlock bs = Inr b \<and> legit H L b)
      | (ProvideMissingBlock_handler, Bytes bs) \<Rightarrow> (\<exists>msg. BytesToMessage bs = Inr msg)
      | (FindProof_handler, Flag _) \<Rightarrow> True
      | (AddTransactionBytes_handler, Bytes bs) \<Rightarrow>
          (\<exists>tx. BytesToTransaction bs = Inr tx \<and> fair_tx tx \<and> sendable_tx tx)
      | _ \<Rightarrow> False)"

definition speaks :: "crypto \<Rightarrow> nat \<Rightarrow> string \<Rightarrow> argument \<Rightarrow> bool" where
  "speaks H L msg a \<longleftrightarrow> (\<forall>h. (msg, h) \<in> set node_handlers \<longrightarrow> readable H L h a)"

text \<open>What comes in on a connection: it need not decode, but what decodes must be readable.\<close>

definition wire_ok :: "crypto \<Rightarrow> nat \<Rightarrow> string \<Rightarrow> bool" where
  "wire_ok H L data =
     (case BytesToTcpData data of
        Inl err \<Rightarrow> True
      | Inr d \<Rightarrow> Tcp_Msg d = REGISTER \<or> speaks H L (Tcp_Msg d) (Bytes (bytes_of (Tcp_Data d))))"

lemma readable_payload: "payload_ok H L f h a \<Longrightarrow> readable H L h a"
  by (auto simp: payload_ok_def readable_def split: handler.splits argument.splits)

lemma speaks_message: "message_ok H L f msg a \<Longrightarrow> speaks H L msg a"
  by (auto simp: message_ok_def speaks_def intro: readable_payload)

lemma readable_mono: "readable H L h a \<Longrightarrow> L \<le> M \<Longrightarrow> readable H M h a"
  by (auto simp: readable_def intro: legit_mono split: handler.splits argument.splits)

lemma speaks_mono: "speaks H L msg a \<Longrightarrow> L \<le> M \<Longrightarrow> speaks H M msg a"
  by (auto simp: speaks_def intro: readable_mono)

lemma wire_mono: "wire_ok H L data \<Longrightarrow> L \<le> M \<Longrightarrow> wire_ok H M data"
  by (auto simp: wire_ok_def intro: speaks_mono split: sum.splits)

lemma wire_envelope: "valid_utf8 msg \<Longrightarrow> speaks H L msg (Bytes data) \<Longrightarrow> wire_ok H L (envelope msg data)"
  by (simp add: wire_ok_def envelope_def BytesToTcpData_sent bytes_of_def)

lemma wire_register: "wire_ok H L (render (json_tcp_data \<lparr>Tcp_Msg = REGISTER, Tcp_Data = d\<rparr>))"
proof -
  have "valid_utf8 REGISTER" by (simp add: plain_valid plain_def REGISTER_def)
  then show ?thesis by (simp add: wire_ok_def BytesToTcpData_sent)
qed

section \<open>Effects\<close>

definition leaves :: "crypto \<Rightarrow> nat \<Rightarrow> tcp_effect \<Rightarrow> bool" where
  "leaves H L eff =
     (case eff of
        NodeEffect (Broadcast msg data) \<Rightarrow> valid_utf8 msg \<and> speaks H L msg (Bytes data)
      | NodeEffect (SendMessage addr msg data) \<Rightarrow> valid_utf8 msg \<and> speaks H L msg (Bytes data)
      | NodeEffect (GoReceiveBlock b) \<Rightarrow> legit H L b
      | NodeEffect (GoEmit event flag) \<Rightarrow> speaks H L event (Flag flag)
      | GoStartListening port \<Rightarrow> True
      | WriteTo addr bytes \<Rightarrow> wire_ok H L bytes
      | EmitData msg data \<Rightarrow> speaks H L msg (Bytes (bytes_of data))
      | WriteFile fileName bytes \<Rightarrow> True)"

lemma leaves_effect: "effect_ok H L f eff \<Longrightarrow> leaves H L (NodeEffect eff)"
  by (cases eff) (auto simp: effect_ok_def leaves_def intro: speaks_message)

lemma leaves_all: "\<forall>eff \<in> set effs. effect_ok H L f eff \<Longrightarrow> \<forall>eff \<in> set effs. leaves H L (NodeEffect eff)"
  using leaves_effect by blast

text \<open>Which miners are registered does not matter: this network has the miner itself and one other.\<close>

definition some_net :: "string \<Rightarrow> string \<Rightarrow> nat fakenet" where
  "some_net a b = \<lparr>Clients = [(a, 0), (b, 0)]\<rparr>"

lemma some_net [simp]: "map_get (Clients (some_net a b)) a \<noteq> None" "map_get (Clients (some_net a b)) b \<noteq> None"
  by (simp_all add: some_net_def map_get_def)

section \<open>The invariant\<close>

definition task_good :: "crypto \<Rightarrow> nat \<Rightarrow> tcp_task \<Rightarrow> bool" where
  "task_good H L t =
     (case t of
        Handling data \<Rightarrow> wire_ok H L data
      | Dispatch event a \<Rightarrow> speaks H L event a
      | Calling h a \<Rightarrow> readable H L h a
      | Receiving b \<Rightarrow> legit H L b)"

definition pending_ok :: "'a client_scheme \<Rightarrow> bool" where
  "pending_ok c \<longleftrightarrow> (\<forall>(k, tx) \<in> set (PendingOutgoingTransactions c). fair_tx tx \<and> sendable_tx tx)"

text \<open>A transaction that the console is about to post is one the others can read.\<close>

definition console_ok :: "console \<Rightarrow> bool" where
  "console_ok con \<longleftrightarrow>
     (case Stage con of
        At_commit tx \<Rightarrow> fair_tx tx \<and> sendable_tx tx
      | At_pool tx \<Rightarrow> fair_tx tx \<and> sendable_tx tx
      | _ \<Rightarrow> True)"

definition process_ok :: "crypto \<Rightarrow> nat \<Rightarrow> process \<Rightarrow> bool" where
  "process_ok H L p \<longleftrightarrow> miner_inv H L (Self p) \<and> pending_ok (Self p) \<and> console_ok (Console p)
     \<and> set (Emitter (Self p)) \<subseteq> set node_handlers
     \<and> (\<forall>t \<in> set (Todo p). task_good H L t) \<and> (\<forall>(addr, data) \<in> set (Sent p). wire_ok H L data)"

lemma task_good_mono: "task_good H L t \<Longrightarrow> L \<le> M \<Longrightarrow> task_good H M t"
  by (cases t) (auto simp: task_good_def intro: wire_mono speaks_mono readable_mono legit_mono)

lemma leaves_mono: "leaves H L eff \<Longrightarrow> L \<le> M \<Longrightarrow> leaves H M eff"
  by (auto simp: leaves_def intro: wire_mono speaks_mono legit_mono split: tcp_effect.splits effect.splits)

lemma process_ok_mono: "process_ok H L p \<Longrightarrow> L \<le> M \<Longrightarrow> process_ok H M p"
  unfolding process_ok_def using miner_inv_mono task_good_mono wire_mono by (blast intro: wire_mono)

lemma RealNet_writes:
  "(addr, bytes) \<in> set (RealNet_Broadcast ord dial f msg data) \<Longrightarrow> bytes = envelope msg data"
  "(addr, bytes) \<in> set (RealNet_SendMessage dial f a msg data) \<Longrightarrow> bytes = envelope msg data"
  by (auto simp: RealNet_Broadcast_def broadcast_takeWhile RealNet_SendMessage_def Let_def split: option.splits if_splits)

lemma carry_out_ok:
  assumes "process_ok H L p" "leaves H L eff"
  shows "process_ok H L (carry_out e p eff)"
proof (cases eff)
  case (NodeEffect x)
  then show ?thesis
    using assms by (cases x) (auto simp: carry_out_def process_ok_def leaves_def task_good_def
      dest!: RealNet_writes intro: wire_envelope)
qed (use assms in \<open>auto simp: carry_out_def process_ok_def leaves_def task_good_def\<close>)

lemma carry_all_ok:
  "process_ok H L p \<Longrightarrow> \<forall>eff \<in> set effs. leaves H L eff \<Longrightarrow> process_ok H L (carry_all e p effs)"
  by (induction effs arbitrary: p) (simp_all add: carry_out_ok)

text \<open>A step of the miner inside the process.\<close>

lemma process_miner:
  assumes "process_ok H L p" "miner_inv H L m'" "Emitter m' = Emitter (Self p)" "pending_ok m'"
    "\<forall>eff \<in> set effs. leaves H L eff"
  shows "process_ok H L (carry_all e (p\<lparr>Self := m'\<rparr>) effs)"
  by (rule carry_all_ok) (use assms in \<open>simp_all add: process_ok_def\<close>)

lemma pending_ok_sub: "pending_ok m \<Longrightarrow> spends_no_more m m' \<Longrightarrow> pending_ok m'"
  by (auto simp: pending_ok_def spends_no_more_def)


section \<open>Handlers\<close>

lemma later:
  "miner_inv H L m \<Longrightarrow> miner_inv H (Suc L) m"
  "\<forall>eff \<in> set effs. leaves H L (NodeEffect eff) \<Longrightarrow> \<forall>eff \<in> set effs. leaves H (Suc L) (NodeEffect eff)"
  using miner_inv_mono [of H L m "Suc L"] leaves_mono [of H L _ "Suc L"] by auto

lemma miner_inv_address: "miner_inv H L m \<Longrightarrow> \<not> length (Address m) < 10"
  by (auto simp: miner_inv_def miner_ok_def dest: node_okD(4))

lemma Tcp_ReceiveBlock_keeps:
  assumes inv: "miner_inv H L m" and b: "legit H L b" and ord: "orders_ok os" and now: "valid_time now"
    and H: "separates H" "L + 1 < 2 ^ 32"
  obtains m' r effs where "Tcp_ReceiveBlock H now os m b = ret (m', r, effs)" "miner_inv H L m'"
    "Emitter m' = Emitter m" "\<forall>eff \<in> set effs. leaves H L (NodeEffect eff)"
proof -
  have reg: "map_get (Clients (some_net (Address m) [])) (Address m) \<noteq> None" by simp
  obtain m' r effs where
    "go_bind (ReceiveBlock H (block_order os) m b) (cut_over H (Tcp_StartNewSearch H) now os) = ret (m', r, effs)"
    "miner_inv H L m'" "Emitter m' = Emitter m" "\<forall>eff \<in> set effs. effect_ok H L (some_net (Address m) []) eff"
    by (rule tcp.receive_keeps [OF inv b ord now H reg])
  then show thesis using that leaves_all by (simp add: Tcp_ReceiveBlock_eq [OF miner_inv_address [OF inv]])
qed

lemma tcp_handle_keeps:
  assumes inv: "miner_inv H L m" and a: "readable H L h a"
    and env: "tcp_env_ok e" "valid_time (tcp_now e)" and H: "separates H" "L + 1 < 2 ^ 32"
  obtains m' effs where "tcp_handle H e m h a = ret (m', effs)" "miner_inv H (Suc L) m'" "Emitter m' = Emitter m"
    "\<forall>eff \<in> set effs. leaves H (Suc L) (NodeEffect eff)"
proof (cases h)
  case ReceiveBlockBytes_handler
  then obtain bs b where b: "a = Bytes bs" "BytesToBlock bs = Inr b" "legit H L b"
    using a by (cases a) (auto simp: readable_def)
  have ord: "orders_ok (tcp_orders e)" using env(1) by (simp add: tcp_env_ok_def)
  obtain m' r effs where "Tcp_ReceiveBlock H (tcp_now e) (tcp_orders e) m b = ret (m', r, effs)" "miner_inv H L m'"
    "Emitter m' = Emitter m" "\<forall>eff \<in> set effs. leaves H L (NodeEffect eff)"
    by (rule Tcp_ReceiveBlock_keeps [OF inv b(3) ord env(2) H])
  then show thesis
    using that [of m' effs] ReceiveBlockBytes_handler b later(1) [of H L m'] later(2)
    by (simp add: tcp_handle_def Tcp_ReceiveBlockBytes_def)
next
  case ProvideMissingBlock_handler
  then obtain bs msg where b: "a = Bytes bs" "BytesToMessage bs = Inr msg" using a by (cases a) (auto simp: readable_def)
  have "map_get (Clients (some_net (Msg_Address msg) [])) (Msg_Address msg) \<noteq> None" by simp
  then obtain effs where "ProvideMissingBlock m bs = ret effs"
    "\<forall>eff \<in> set effs. effect_ok H L (some_net (Msg_Address msg) []) eff"
    using ProvideMissingBlock_step [OF _ _ b(2)] inv unfolding miner_inv_def miner_ok_def by blast
  then show thesis
    using that [of m effs] ProvideMissingBlock_handler b later(1) [OF inv] later(2) [OF leaves_all]
    by (simp add: tcp_handle_def Tcp_ProvideMissingBlock_eq [OF miner_inv_address [OF inv]])
next
  case FindProof_handler
  then obtain once where once: "a = Flag once" using a by (cases a) (auto simp: readable_def)
  obtain m' effs where run: "FindProof H m once = ret (m', effs)" "miner_inv H L m'" "Emitter m' = Emitter m"
    "\<forall>eff \<in> set effs. effect_ok H (Suc L) (some_net [] []) eff"
    by (rule FindProof_keeps [OF inv H])
  show thesis
    using that [of m' effs] run FindProof_handler once later(1) [OF run(2)] leaves_all [OF run(4)]
    by (simp add: tcp_handle_def Tcp_FindProof_eq [OF miner_inv_address [OF inv]])
next
  case AddTransactionBytes_handler
  then obtain bs tx where tx: "a = Bytes bs" "BytesToTransaction bs = Inr tx" "fair_tx tx" "sendable_tx tx"
    using a by (cases a) (auto simp: readable_def)
  have "miner_inv H (Suc L) (Miner_AddTransaction H m tx)"
    by (rule later(1) [OF Miner_AddTransaction_keeps [OF inv tx(3,4)]])
  then show thesis
    using that [of "Miner_AddTransaction H m tx" "[]"] AddTransactionBytes_handler tx
    by (simp add: tcp_handle_def Tcp_AddTransactionBytes_def Tcp_AddTransaction_eq Miner_AddTransaction_def ret_def)
qed

lemma RegisterWith_keeps:
  assumes "\<not> length (Address m) < 10"
  obtains effs where "RegisterWith dial m port = ret effs" "\<forall>eff \<in> set effs. leaves H L eff"
proof -
  have "RegisterWith dial m port = ret (if \<not> dial (localhost port) then [] else
      [WriteTo (localhost port) (render (json_tcp_data \<lparr>Tcp_Msg = REGISTER,
         Tcp_Data = Some (render (json_tcp_info (tcp_info m)))\<rparr>))])"
    using assms by (simp add: RegisterWith_def Tcp_Log_def Let_def)
  then show thesis using that wire_register by (auto simp: leaves_def split: if_splits)
qed

lemma miner_inv_known: "miner_inv H L m \<Longrightarrow> miner_inv H L (m\<lparr>KnownTcpConnections := known\<rparr>)"
proof -
  let ?m = "m\<lparr>KnownTcpConnections := known\<rparr>"
  assume inv: "miner_inv H L m"
  then have ok: "node_ok H m" "store_ok H L m" by (simp_all add: miner_inv_def miner_ok_def)
  have "node_ok H ?m" by (rule node_ok_cong [OF ok(1)]) (use node_okD(2,3) [OF ok(1)] in simp_all)
  moreover have "store_ok H L ?m" by (rule store_ok_cong [OF ok(2)]) simp_all
  moreover have "built_on H ?m = built_on H m" by (rule built_on_cong) simp_all
  ultimately show ?thesis using inv by (simp add: miner_inv_def miner_ok_def chain_ok_def mining_ok_def)
qed

lemma HandleConnection_keeps:
  assumes inv: "miner_inv H L m" and data: "wire_ok H L data"
  obtains m' net' effs where "HandleConnection dial m net data = ret (m', net', effs)" "miner_inv H L m'"
    "Emitter m' = Emitter m" "\<forall>eff \<in> set effs. leaves H L eff"
proof (cases "BytesToTcpData data")
  case (Inl err)
  then show thesis using that inv by (simp add: HandleConnection_def)
next
  case (Inr d)
  show thesis
  proof (cases "Tcp_Msg d = REGISTER")
    case False
    then have "speaks H L (Tcp_Msg d) (Bytes (bytes_of (Tcp_Data d)))" using data Inr by (simp add: wire_ok_def)
    then show thesis using that [of m] inv False Inr by (simp add: HandleConnection_def leaves_def)
  next
    case True
    show thesis
    proof (cases "BytesToTcpInfo (bytes_of (Tcp_Data d))")
      case (Inl err)
      then show thesis using that [of m] inv True Inr by (simp add: HandleConnection_def)
    next
      case info: (Inr info)
      obtain effs where reg: "RegisterWith dial m (Tcp_Connection info) = ret effs" "\<forall>eff \<in> set effs. leaves H L eff"
        by (rule RegisterWith_keeps [OF miner_inv_address [OF inv]])
      let ?m = "m\<lparr>KnownTcpConnections := append_slice (KnownTcpConnections m) [info]\<rparr>"
      have "HandleConnection dial m net data =
          ret (?m, RealNet_Register net info, if RealNet_Recognizes net info then [] else effs)"
        using True Inr info reg(1) by (simp add: HandleConnection_def)
      then show thesis by (rule that) (use miner_inv_known [OF inv] reg(2) in simp_all)
    qed
  qed
qed


section \<open>Steps\<close>

lemma run_tcp_task_ok:
  assumes ok: "process_ok H L p" and t: "task_good H L t" and env: "tcp_env_ok e" "valid_time (tcp_now e)"
    and H: "separates H" "L + 1 < 2 ^ 32" and emit: "dispatches emit"
  obtains p' where "run_tcp_task H emit e p t = ret p'" "process_ok H (Suc L) p'"
proof -
  have inv: "miner_inv H L (Self p)" and pend: "pending_ok (Self p)" using ok by (simp_all add: process_ok_def)
  have addr: "10 \<le> length (Address (Self p))" using miner_inv_address [OF inv] by simp
  have mono: "process_ok H (Suc L) p" using ok by (rule process_ok_mono) simp
  have pending: "pending_ok (Self p')" if "run_tcp_task H emit e p t = ret p'" for p'
    using pending_ok_sub [OF pend] run_tcp_task_frame [OF that addr] by blast
  show thesis
  proof (cases t)
    case (Handling data)
    then have "wire_ok H L data" using t by (simp add: task_good_def)
    then obtain m' net' effs where run: "HandleConnection (tcp_dial e) (Self p) (Peers p) data = ret (m', net', effs)"
      "miner_inv H L m'" "Emitter m' = Emitter (Self p)" "\<forall>eff \<in> set effs. leaves H L eff"
      by (rule HandleConnection_keeps [OF inv])
    have res: "run_tcp_task H emit e p t = ret (carry_all e (p\<lparr>Self := m', Peers := net'\<rparr>) effs)"
      using Handling run(1) by (simp add: run_tcp_task_def)
    have "process_ok H L (p\<lparr>Self := m', Peers := net'\<rparr>)"
      using ok run(2,3) pending [OF res] by (simp add: process_ok_def)
    then have "process_ok H L (carry_all e (p\<lparr>Self := m', Peers := net'\<rparr>) effs)" using run(4) by (rule carry_all_ok)
    then show thesis using that [OF res] process_ok_mono by simp
  next
    case (Dispatch event a)
    let ?p = "p\<lparr>Todo := Todo p @ map (\<lambda>h. Calling h a) (emit (Emitter (Self p)) event)\<rparr>"
    have "readable H L h a" if "h \<in> set (emit (Emitter (Self p)) event)" for h
    proof -
      have "(event, h) \<in> set node_handlers" using that ok emit by (auto simp: process_ok_def dispatches_def)
      then show ?thesis using t Dispatch by (simp add: task_good_def speaks_def)
    qed
    then have "process_ok H L ?p" using ok by (auto simp: process_ok_def task_good_def)
    then show thesis using that [of ?p] Dispatch process_ok_mono by (simp add: run_tcp_task_def)
  next
    case (Calling h a)
    then have "readable H L h a" using t by (simp add: task_good_def)
    then obtain m' effs where run: "tcp_handle H e (Self p) h a = ret (m', effs)" "miner_inv H (Suc L) m'"
      "Emitter m' = Emitter (Self p)" "\<forall>eff \<in> set effs. leaves H (Suc L) (NodeEffect eff)"
      by (rule tcp_handle_keeps [OF inv _ env H])
    have res: "run_tcp_task H emit e p t = ret (carry_all e (p\<lparr>Self := m'\<rparr>) (map NodeEffect effs))"
      using Calling run(1) by (simp add: run_tcp_task_def after_def)
    have "process_ok H (Suc L) (carry_all e (p\<lparr>Self := m'\<rparr>) (map NodeEffect effs))"
      by (rule process_miner [OF mono run(2,3)]) (use pending [OF res] run(4) in simp_all)
    then show thesis using that [OF res] by simp
  next
    case (Receiving b)
    then have b: "legit H L b" using t by (simp add: task_good_def)
    have "orders_ok (tcp_orders e)" using env(1) by (simp add: tcp_env_ok_def)
    then obtain m' r effs where run: "Tcp_ReceiveBlock H (tcp_now e) (tcp_orders e) (Self p) b = ret (m', r, effs)"
      "miner_inv H L m'" "Emitter m' = Emitter (Self p)" "\<forall>eff \<in> set effs. leaves H L (NodeEffect eff)"
      by (rule Tcp_ReceiveBlock_keeps [OF inv b _ env(2) H])
    have res: "run_tcp_task H emit e p t = ret (carry_all e (p\<lparr>Self := m'\<rparr>) (map NodeEffect effs))"
      using Receiving run(1) by (simp add: run_tcp_task_def after_def)
    have "process_ok H L (carry_all e (p\<lparr>Self := m'\<rparr>) (map NodeEffect effs))"
      by (rule process_miner [OF ok run(2,3)]) (use pending [OF res] run(4) in simp_all)
    then show thesis using that [OF res] process_ok_mono by simp
  qed
qed

text \<open>A payment by the user is good when its transaction does not wrap around and can be sent.\<close>

definition console_payment :: "crypto \<Rightarrow> process \<Rightarrow> u32 \<Rightarrow> Transaction" where
  "console_payment H p amtUint =
     posted_tx H (Self p) (Some [\<lparr>Out_Address = fst (next_line (Console p)), Out_Amount = amtUint\<rparr>])
       (defaultTxFee (Config (Self p)))"

definition good_user :: "crypto \<Rightarrow> process \<Rightarrow> bool" where
  "good_user H p \<longleftrightarrow> (\<forall>amt. Stage (Console p) = At_recipient amt \<longrightarrow>
     fair_tx (console_payment H p amt) \<and> sendable_tx (console_payment H p amt))"

lemma resend_leaves:
  assumes "pending_ok m" "is_order ord" "eff \<in> set (Tcp_ResendPendingTransactions ord m)"
  shows "leaves H L (NodeEffect eff)"
proof -
  have "set (ord (map_values (PendingOutgoingTransactions m))) = snd ` set (PendingOutgoingTransactions m)"
    using assms(2) mset_eq_setD [of "ord (map_values (PendingOutgoingTransactions m))" "map_values (PendingOutgoingTransactions m)"]
    by (simp add: is_order_def map_values_def)
  then obtain tx where tx: "tx \<in> snd ` set (PendingOutgoingTransactions m)"
    "eff = Broadcast POST_TRANSACTION (render (json_transaction tx))"
    using assms(3) by (auto simp: Tcp_ResendPendingTransactions_def)
  then have "fair_tx tx" "sendable_tx tx" using assms(1) by (auto simp: pending_ok_def)
  then show ?thesis using payment_message [of tx H L "some_net [] []"] leaves_effect tx(2) by blast
qed


lemma menu_leaves:
  assumes "menu_step H ord m con = ret (con', effs)" "pending_ok m" "is_order ord"
  shows "\<forall>eff \<in> set effs. leaves H L eff"
proof -
  have "effs = [] \<or> effs = map NodeEffect (Tcp_ResendPendingTransactions ord m)"
    using assms(1) by (auto simp: menu_step_def Let_def res_simps split: prod.splits if_splits option.splits)
  then show ?thesis using resend_leaves [OF assms(2,3)] by auto
qed

text \<open>The three steps of a transfer.\<close>

lemma prepared_tx:
  assumes "Tcp_PrepareTransaction H m outputs fee = Ok tx"
  shows "tx = posted_tx H m outputs fee"
proof -
  obtain m1 effs where "PostTransaction H m outputs fee = Ok (m1, tx, effs)"
    using assms by (auto simp: Tcp_PrepareTransaction_eq res_simps)
  then show ?thesis by (cases rule: PostTransaction_outcome [of m H outputs fee]) simp_all
qed

lemma commit_keeps:
  assumes "Tcp_CommitTransaction H m tx = (m', effs)" "miner_inv H L m" "pending_ok m" "fair_tx tx" "sendable_tx tx"
  shows "miner_inv H L m'" "Emitter m' = Emitter m" "pending_ok m'" "\<forall>eff \<in> set effs. leaves H L (NodeEffect eff)"
proof -
  let ?m = "m\<lparr>PendingOutgoingTransactions := map_put (Tx_Id H tx) tx (PendingOutgoingTransactions m),
    Client_Nonce := Client_Nonce m + 1\<rparr>"
  have eq: "m' = ?m" "effs = [Broadcast POST_TRANSACTION (render (json_transaction tx))]"
    using assms(1) by (simp_all add: Tcp_CommitTransaction_def Let_def TransactionToBytes_def)
  have m: "node_ok H m" "store_ok H L m" using assms(2) by (simp_all add: miner_inv_def miner_ok_def)
  have "node_ok H ?m" by (rule node_ok_cong [OF m(1)]) (use node_okD(2,3) [OF m(1)] in simp_all)
  moreover have "store_ok H L ?m" by (rule store_ok_cong [OF m(2)]) simp_all
  moreover have "built_on H ?m = built_on H m" by (rule built_on_cong) simp_all
  ultimately show "miner_inv H L m'"
    using assms(2) by (simp add: eq miner_inv_def miner_ok_def chain_ok_def mining_ok_def)
  show "Emitter m' = Emitter m" by (simp add: eq)
  have "set (map_put k v xs) \<subseteq> insert (k, v) (set xs)" for k and v :: Transaction and xs
    by (induction xs) (auto simp: map_put_def)
  then show "pending_ok m'" using assms(3-5) unfolding pending_ok_def eq by fastforce
  show "\<forall>eff \<in> set effs. leaves H L (NodeEffect eff)"
    using leaves_effect [OF payment_message [OF assms(5,4), of H L "some_net [] []"]] by (simp add: eq)
qed

lemma pool_keeps:
  assumes "miner_inv H L m" "fair_tx tx" "sendable_tx tx"
  shows "miner_inv H L (Tcp_AddTransaction H m tx)" "Emitter (Tcp_AddTransaction H m tx) = Emitter m"
    "pending_ok (Tcp_AddTransaction H m tx) = pending_ok m"
  using Miner_AddTransaction_keeps [OF assms]
  by (simp_all add: Tcp_AddTransaction_eq Miner_AddTransaction_def pending_ok_def)

lemma readUserInput_ok:
  assumes ok: "process_ok H L p" and user: "good_user H p" and ord: "is_order ord"
    and run: "readUserInput H ord dial (Self p) (Console p) = ret (m', con', effs)"
  shows "process_ok H L (carry_all e (p\<lparr>Self := m', Console := con'\<rparr>) effs)"
proof -
  have inv: "miner_inv H L (Self p)" and pend: "pending_ok (Self p)" and con: "console_ok (Console p)"
    using ok by (simp_all add: process_ok_def)
  have "miner_inv H L m' \<and> Emitter m' = Emitter (Self p) \<and> pending_ok m' \<and> console_ok con' \<and> (\<forall>eff \<in> set effs. leaves H L eff)"
  proof (cases "Stage (Console p)")
    case At_menu
    then have "m' = Self p \<and> menu_step H ord (Self p) (Console p) = ret (con', effs)"
      using run by (auto simp: readUserInput_def res_simps)
    moreover from this have "console_ok con'"
      by (auto simp: menu_step_def Let_def res_simps console_ok_def split: prod.splits if_splits option.splits)
    ultimately show ?thesis using inv pend menu_leaves [OF _ pend ord] by blast
  next
    case At_port
    obtain port con where l: "next_line (Console p) = (port, con)" by fastforce
    obtain effs' where "RegisterWith dial (Self p) port = ret effs'" "\<forall>eff \<in> set effs'. leaves H L eff"
      by (rule RegisterWith_keeps [OF miner_inv_address [OF inv]])
    then show ?thesis using run inv pend At_port l by (auto simp: readUserInput_def res_simps console_ok_def)
  next
    case At_amount
    have "amount_step m amt = Ok st \<Longrightarrow> console_ok (con\<lparr>Stage := st\<rparr>)" for m amt st con
      by (auto simp: amount_step_def Let_def res_simps console_ok_def split: prod.splits if_splits)
    then show ?thesis
      using run inv pend At_amount by (auto simp: readUserInput_def res_simps split: prod.splits)
  next
    case (At_recipient amt)
    obtain addr con where l: "next_line (Console p) = (addr, con)" by fastforce
    obtain tx where prep: "Tcp_PrepareTransaction H (Self p) (Some [\<lparr>Out_Address = addr, Out_Amount = amt\<rparr>])
        (defaultTxFee (Config (Self p))) = Ok tx" "m' = Self p" "con' = con\<lparr>Stage := At_commit tx\<rparr>" "effs = []"
      using run At_recipient l by (auto simp: readUserInput_def Let_def res_simps)
    then show ?thesis
      using prepared_tx [OF prep(1)] user At_recipient l inv pend by (auto simp: good_user_def console_payment_def console_ok_def)
  next
    case (At_commit tx)
    then obtain effs' where "Tcp_CommitTransaction H (Self p) tx = (m', effs')" "effs = map NodeEffect effs'"
      "con' = Console p\<lparr>Stage := At_pool tx\<rparr>"
      using run by (auto simp: readUserInput_def split: prod.splits)
    then show ?thesis using commit_keeps [OF _ inv pend] con At_commit by (auto simp: console_ok_def)
  next
    case (At_pool tx)
    then show ?thesis using run pool_keeps [OF inv] con pend by (auto simp: readUserInput_def console_ok_def)
  next
    case At_file
    then show ?thesis
      using run inv pend by (auto simp: readUserInput_def SaveJson_def leaves_def console_ok_def split: prod.splits)
  qed (use run inv pend in \<open>auto simp: readUserInput_def res_simps console_ok_def split: prod.splits\<close>)
  then have "process_ok H L (p\<lparr>Self := m', Console := con'\<rparr>)" "\<forall>eff \<in> set effs. leaves H L eff"
    using ok by (simp_all add: process_ok_def)
  then show ?thesis by (rule carry_all_ok)
qed

text \<open>The chain of a miner that is in order is shown whole: one hash for each length.\<close>

lemma show_walk_returns:
  assumes "all_stepped blocks" "stepped blocks b"
  shows "\<exists>hs. show_walk H blocks (Some b) shown = Some (shown @ hs) \<and> length hs = Suc (unat (ChainLength b))"
  using assms(2)
proof (induction "unat (ChainLength b)" arbitrary: b shown rule: less_induct)
  case less
  let ?shown = "shown @ [GetHashStr H b]"
  have step: "show_walk H blocks (Some b) shown = show_walk H blocks (map_get blocks (PrevBlockHash b)) ?shown"
    by (subst show_walk.simps) simp
  show ?case
  proof (cases "map_get blocks (PrevBlockHash b)")
    case None
    then have "ChainLength b = 0" using less.prems by (simp add: stepped_def)
    then show ?thesis unfolding step None by (subst show_walk.simps) simp
  next
    case (Some p)
    then have len: "unat (ChainLength b) = Suc (unat (ChainLength p))" using less.prems by (simp add: stepped_def)
    have "stepped blocks p" using assms(1) Some by (simp add: all_stepped_def)
    then obtain hs where "show_walk H blocks (Some p) ?shown = Some (?shown @ hs)" "length hs = Suc (unat (ChainLength p))"
      using less.hyps [of p ?shown] len by auto
    then show ?thesis using step Some len by (intro exI [of _ "GetHashStr H b # hs"]) simp
  qed
qed

text \<open>
  Where a process stops: at a connection that ends before a piece of less than 512 bytes has come, and
  at a transfer of an amount that the account has, but not with the fee, or for which signing panics.
\<close>

definition transfer_stops :: "crypto \<Rightarrow> process \<Rightarrow> u32 \<Rightarrow> bool" where
  "transfer_stops H p amt =
     (case Tcp_AvailableGold (Self p) of
        Panic e \<Rightarrow> True
      | Ok g \<Rightarrow> amt + defaultTxFee (Config (Self p)) > g
          \<or> (\<exists>e. rsa_sign H (PrivKey (Self p)) (posted_digest H (Self p)
               (Some [\<lparr>Out_Address = fst (next_line (Console p)), Out_Amount = amt\<rparr>])
               (defaultTxFee (Config (Self p)))) = Panic e))"

definition stops :: "crypto \<Rightarrow> process \<Rightarrow> tcp_event \<Rightarrow> bool" where
  "stops H p ev =
     (case ev of
        Connects chunks \<Rightarrow> (\<forall>chunk \<in> set chunks. 512 \<le> length chunk)
      | Runs t \<Rightarrow> False
      | Types \<Rightarrow> (case Stage (Console p) of At_recipient amt \<Rightarrow> transfer_stops H p amt | _ \<Rightarrow> False))"

lemma read_connection_outcome:
  "if \<forall>chunk \<in> set chunks. 512 \<le> length chunk then read_connection chunks got = Panic (Explicit ''EOF'')
   else \<exists>data. read_connection chunks got = Ok data"
  by (induction chunks arbitrary: got) (auto simp: Let_def)

lemma transfer_outcomes:
  fixes H p amt
  defines "r \<equiv> Tcp_PrepareTransaction H (Self p) (Some [\<lparr>Out_Address = fst (next_line (Console p)), Out_Amount = amt\<rparr>])
      (defaultTxFee (Config (Self p)))"
  shows "if transfer_stops H p amt then \<exists>e. r = Panic e else \<exists>tx. r = Ok tx"
proof -
  let ?m = "Self p" and ?fee = "defaultTxFee (Config (Self p))"
  let ?out = "Some [\<lparr>Out_Address = fst (next_line (Console p)), Out_Amount = amt\<rparr>]"
  have total: "TotalOutput (posted_tx H ?m ?out ?fee) = amt + ?fee" by (simp add: TotalOutput_sum)
  have stop: "transfer_stops H p amt = (case AvailableGold ?m of Panic e \<Rightarrow> True
      | Ok g \<Rightarrow> amt + ?fee > g \<or> (\<exists>e. rsa_sign H (PrivKey ?m) (posted_digest H ?m ?out ?fee) = Panic e))"
    by (simp add: transfer_stops_def Tcp_AvailableGold_eq)
  show ?thesis
    unfolding r_def Tcp_PrepareTransaction_eq stop
    by (cases rule: PostTransaction_outcome [of ?m H ?out ?fee])
      (auto simp: total AvailableGold_def ConfirmedBalance_def)
qed

lemma console_outcome:
  assumes "process_ok H L p"
  shows "if stops H p Types then \<exists>e. readUserInput H ord dial (Self p) (Console p) = Some (Panic e)
    else \<exists>r. readUserInput H ord dial (Self p) (Console p) = ret r"
proof -
  have inv: "miner_inv H L (Self p)" and m: "miner_ok H (Self p)"
    using assms by (simp_all add: process_ok_def miner_inv_def)
  obtain h where h: "node_ok H (Self p)" "all_stepped (Blocks (Self p))" "LastBlock (Self p) = Some h"
    "map_get (Blocks (Self p)) (GetHashStr H h) = Some h"
    using m by (rule miner_okD)
  obtain f where f: "LastConfirmedBlock (Self p) = Some f" using node_okD(6) [OF h(1)] by (auto simp: head_ok_def)
  then obtain g where g: "Tcp_AvailableGold (Self p) = Ok g" by (simp add: Tcp_AvailableGold_def Tcp_ConfirmedBalance_def)
  have "stepped (Blocks (Self p)) h" using h(2,4) by (simp add: all_stepped_def)
  then obtain hs where shown: "Tcp_ShowBlockchain H (Self p) = Some hs"
    using show_walk_returns [OF h(2), of h H "[]"] h(3) by (auto simp: Tcp_ShowBlockchain_def)
  show ?thesis
  proof (cases "Stage (Console p)")
    case At_menu
    then show ?thesis
      using g shown f by (simp add: stops_def readUserInput_def menu_step_def Tcp_ShowAllBalances_def Let_def split: prod.split)
  next
    case At_port
    obtain l con where l: "next_line (Console p) = (l, con)" by fastforce
    obtain effs where "RegisterWith dial (Self p) l = ret effs"
      using RegisterWith_keeps [OF miner_inv_address [OF inv]] by blast
    then show ?thesis using At_port l by (simp add: stops_def readUserInput_def)
  next
    case At_amount
    then show ?thesis
      using g by (simp add: stops_def readUserInput_def amount_step_def Let_def ret_def split: prod.split)
  next
    case (At_recipient amt)
    then show ?thesis
      using transfer_outcomes [of H p amt]
      by (auto simp: stops_def readUserInput_def ret_def split: prod.split if_splits)
  qed (simp_all add: stops_def readUserInput_def split: prod.split)
qed

section \<open>Runs\<close>

lemma tcp_step_ok:
  assumes "tcp_step H emit (wire_ok H M) (good_user H) valid_time p p'" "process_ok H L p" "M \<le> L"
    "separates H" "L + 1 < 2 ^ 32" "dispatches emit"
  shows "process_ok H (Suc L) p'"
  using assms(1)
proof (cases rule: tcp_step_cases)
  case (accept port chunks data)
  have "wire_ok H L data" using accept(4) assms(3) by (rule wire_mono)
  then have "process_ok H L p'" using assms(2) accept(1) by (simp add: process_ok_def task_good_def)
  then show ?thesis by (rule process_ok_mono) simp
next
  case (task pre t rest e)
  have "process_ok H L (p\<lparr>Todo := pre @ rest\<rparr>)" "task_good H L t"
    using assms(2) task(1) by (simp_all add: process_ok_def)
  then obtain q where "run_tcp_task H emit e (p\<lparr>Todo := pre @ rest\<rparr>) t = ret q" "process_ok H (Suc L) q"
    using task(2,3) assms(4-6) by (rule run_tcp_task_ok)
  then show ?thesis using task(4) by simp
next
  case (user e m' con' effs)
  have "is_order (tcp_pending e)" using user(3) by (simp add: tcp_env_ok_def)
  then have "process_ok H L p'" using readUserInput_ok [OF assms(2) user(2) _ user(4)] user(1) by simp
  then show ?thesis by (rule process_ok_mono) simp
qed

text \<open>Every event has its outcome: the process stops where it is said to, and otherwise goes on.\<close>

lemma outcome_decided:
  assumes "tcp_outcome H emit (wire_ok H M) (good_user H) valid_time p ev out" "process_ok H L p"
    "separates H" "L + 1 < 2 ^ 32" "dispatches emit"
  shows "if stops H p ev then \<exists>e. out = Some (Panic e) else \<exists>p'. out = ret p'"
  using assms(1)
proof cases
  case (connects port chunks)
  then show ?thesis using read_connection_outcome [of chunks "[]"] by (auto simp: stops_def split: if_splits)
next
  case (runs pre t rest e)
  have "process_ok H L (p\<lparr>Todo := pre @ rest\<rparr>)" "task_good H L t"
    using assms(2) runs(3) by (simp_all add: process_ok_def)
  then obtain q where "run_tcp_task H emit e (p\<lparr>Todo := pre @ rest\<rparr>) t = ret q"
    using run_tcp_task_ok [OF _ _ runs(4,5) assms(3-5)] by blast
  then show ?thesis using runs(1,2) by (simp add: stops_def)
next
  case (types e)
  then show ?thesis using console_outcome [OF assms(2), of "tcp_pending e" "tcp_dial e"] by (auto split: if_splits)
qed

lemma tcp_steps_ok:
  assumes "(tcp_step H emit (wire_ok H L) (good_user H) valid_time ^^ n) p p'" "process_ok H L p"
    "separates H" "L + n < 2 ^ 32" "dispatches emit"
  shows "process_ok H (L + n) p'"
  using assms(1,4)
proof (induction n arbitrary: p')
  case 0
  then show ?case using assms(2) by simp
next
  case (Suc n)
  obtain q where q: "(tcp_step H emit (wire_ok H L) (good_user H) valid_time ^^ n) p q"
      "tcp_step H emit (wire_ok H L) (good_user H) valid_time q p'"
    using Suc.prems(1) by auto
  have "process_ok H (L + n) q" using Suc.IH [OF q(1)] Suc.prems(2) by simp
  then show ?case using tcp_step_ok [OF q(2) _ _ assms(3) _ assms(5)] Suc.prems(2) by simp
qed

end
