(* ===== verification/TcpStart.thy ===== *)
theory TcpStart
  imports TcpSafe Network
begin

text \<open>
  The start of a process: what \<open>main -g\<close> makes of the two files it reads, and that the process it
  starts satisfies the invariants of \<open>TcpShape\<close> and \<open>TcpSafe\<close>.
\<close>

section \<open>The files\<close>

lemma load_lines_ok: "load_lines ls m = Some m' \<Longrightarrow> map_ok m \<Longrightarrow> map_ok m'"
  by (induction ls arbitrary: m) (auto simp: Let_def split: prod.splits if_splits)

lemma LoadStartingBalances_ok: "LoadStartingBalances file = Some bal \<Longrightarrow> map_ok bal"
  using load_lines_ok [of _ "[]" bal] by (auto simp: LoadStartingBalances_def map_ok_def split: option.splits)

section \<open>The miner\<close>

text \<open>The miner that \<open>NewTcpMiner\<close> makes when it is given a genesis block and a key.\<close>

definition new_miner :: "crypto \<Rightarrow> Block \<Rightarrow> SaveJsonType \<Rightarrow> BlockchainConfig \<Rightarrow> tcp_miner" where
  "new_miner H g save config =
     \<lparr>Name = Save_Name save, Address = GenerateAddress H (Public (KeyPair save)), PrivKey = KeyPair save,
      PubKey = Public (KeyPair save), Blocks = [(GetHashStr H g, g)], PendingOutgoingTransactions = [],
      PendingReceivedTransactions = [], PendingBlocks = [], LastBlock = Some g, LastConfirmedBlock = Some g,
      ReceivedBlock = None, Config = config, Client_Nonce = 0,
      Emitter = [(PROOF_FOUND, ReceiveBlockBytes_handler), (MISSING_BLOCK, ProvideMissingBlock_handler)],
      CurrentBlock = None, MiningRounds = NUM_ROUNDS_MINING, Miner_Transactions = NewSet,
      Connection = Save_Connection save, KnownTcpConnections = None\<rparr>"

lemma NewTcpMiner_new:
  "GetHash H g = Inr k \<Longrightarrow> NewTcpMiner H (Save_Name save) NUM_ROUNDS_MINING (Some g) (Some (KeyPair save)) generated
     (Save_Connection save) config = Ok (new_miner H g save config)"
  using GetHashStr_GetHash [of H g k]
  by (simp add: NewTcpMiner_def Tcp_SetGenesisBlock_def new_miner_def Let_def map_put_def)

lemma new_miner_fresh: "digests H \<Longrightarrow> fresh_on H g (new_miner H g save config\<lparr>KnownTcpConnections := known\<rparr>)"
  by (simp add: fresh_on_def new_miner_def address_ok(1))

text \<open>The same miner, once it is initialised, with the block it mines.\<close>

definition started_miner :: "crypto \<Rightarrow> Block \<Rightarrow> SaveJsonType \<Rightarrow> BlockchainConfig \<Rightarrow> Block \<Rightarrow> tcp_miner" where
  "started_miner H g save config cb =
     (new_miner H g save config)\<lparr>KnownTcpConnections := append_slice None (elems (Save_Known save)),
       CurrentBlock := Some cb, Miner_Transactions := NewSet, Emitter := node_handlers\<rparr>"

definition started_net :: "SaveJsonType \<Rightarrow> realnet" where
  "started_net save = foldl RealNet_Register NewRealNet (elems (Save_Known save))"

definition start_effects :: "SaveJsonType \<Rightarrow> tcp_effect list" where
  "start_effects save = [NodeEffect (GoEmit START_MINING False), GoStartListening (Save_Connection save)]"

lemma elems_append_None [simp]: "elems (append_slice None xs) = xs"
  by (simp add: append_slice_def elems_def)

lemma Tcp_Initialize_started:
  assumes g: "legit H 0 g" "IsGenesisBlock g" and H: "digests H" "separates H" and ord: "orders_ok os" and now: "valid_time now"
  obtains cb where "Tcp_Initialize H now os (new_miner H g save config) NewRealNet (Save_Known save) =
      Ok (started_miner H g save config cb, started_net save, start_effects save)"
    "miner_inv H 0 (started_miner H g save config cb)"
    "PrevBlockHash cb = GetHashStr H g" "ChainLength cb = 1" "Transactions cb = Some []" "Target cb = Target g"
proof -
  let ?m = "new_miner H g save config\<lparr>KnownTcpConnections := append_slice None (elems (Save_Known save))\<rparr>"
  have "valid_utf8 (Address ?m)" by (simp add: new_miner_def address_ok(2))
  then obtain cb where cb: "Tcp_StartNewSearch H now os ?m None = Ok (?m\<lparr>CurrentBlock := Some cb, Miner_Transactions := \<lparr>items = []\<rparr>\<rparr>)"
    "miner_inv H 0 (?m\<lparr>CurrentBlock := Some cb, Miner_Transactions := \<lparr>items = []\<rparr>\<rparr>)"
    "PrevBlockHash cb = GetHashStr H g" "ChainLength cb = 1" "Transactions cb = Some []"
    by (rule tcp.first_keeps [OF new_miner_fresh [OF H(1)] g H(2) ord now])
  have "Tcp_StartNewSearch H now os ?m None = search_with H (Target g) now os ?m None"
    by (rule Tcp_StartNewSearch_search) (simp add: new_miner_def)
  then have "search_with H (Target g) now os ?m None = Ok (?m\<lparr>CurrentBlock := Some cb, Miner_Transactions := \<lparr>items = []\<rparr>\<rparr>)"
    using cb(1) by simp
  then have target: "Target cb = Target g" by (rule search_stamp(2)) simp
  have same: "started_miner H g save config cb =
      (?m\<lparr>CurrentBlock := Some cb, Miner_Transactions := \<lparr>items = []\<rparr>\<rparr>)\<lparr>Emitter := node_handlers\<rparr>"
    by (simp add: started_miner_def new_miner_def NewSet_def)
  have "miner_inv H 0 (started_miner H g save config cb)" unfolding same by (rule miner_inv_Emitter [OF cb(2)])
  moreover have "Tcp_Initialize H now os (new_miner H g save config) NewRealNet (Save_Known save) =
      Ok (started_miner H g save config cb, started_net save, start_effects save)"
    using cb(1)
    by (simp add: Tcp_Initialize_def Let_def new_miner_def started_miner_def started_net_def start_effects_def
        node_handlers_def NewSet_def)
  ultimately show thesis using that cb(3-5) target by blast
qed


section \<open>The program\<close>

text \<open>The genesis block of the process, from its balances.\<close>

definition run_genesis :: "go_time \<Rightarrow> ((string \<times> u32) list \<Rightarrow> (string \<times> u32) list) \<Rightarrow> u32 gomap \<Rightarrow> Block" where
  "run_genesis now ord bal = \<lparr>PrevBlockHash = [], Target = CalculateTarget 20, Proof = 0,
     Balances = Some (map (\<lambda>(k, v). \<lparr>Balance_id = k, Balance = v\<rparr>) (ord bal)), NextNonce = Some [],
     Transactions = Some [], ChainLength = 0, Timestamp = now, RewardAddr = [], CoinbaseReward = COINBASE_AMT_ALLOWED\<rparr>"

definition run_config :: BlockchainConfig where
  "run_config = \<lparr>coinbaseAmount = COINBASE_AMT_ALLOWED, defaultTxFee = DEFAULT_TX_FEE, confirmedDepth = CONFIRMED_DEPTH\<rparr>"

lemma run_genesis_made:
  "MakeGenesis H now ord 20 COINBASE_AMT_ALLOWED DEFAULT_TX_FEE CONFIRMED_DEPTH (Some bal) =
     (Inr (Some (run_genesis now ord bal)), run_config)"
  by (simp add: MakeGenesis_Some run_genesis_def run_config_def)

text \<open>
  What the clock, the orders of maps and the hash must be for a process to start well, beside a
  balances file whose names Go can send.
\<close>

definition start_ok :: "crypto \<Rightarrow> go_time \<Rightarrow> go_time \<Rightarrow> map_orders \<Rightarrow> ((string \<times> u32) list \<Rightarrow> (string \<times> u32) list)
    \<Rightarrow> u32 gomap \<Rightarrow> bool" where
  "start_ok H now now' os ord bal \<longleftrightarrow> digests H \<and> separates H \<and> valid_time now \<and> valid_time now' \<and> orders_ok os
     \<and> is_order ord \<and> (\<forall>(k, v) \<in> set bal. valid_utf8 k)"

lemma run_genesis_ok:
  assumes "start_ok H now now' os ord bal" "map_ok bal"
  shows "legit H 0 (run_genesis now ord bal)" "IsGenesisBlock (run_genesis now ord bal)"
  using genesis_legit [OF run_genesis_made _ assms(2), of ord now H] assms(1) by (simp_all add: start_ok_def)

lemma main_starts:
  assumes load: "LoadMinerConfig H (files path) = Ok (Some save)"
    and bal: "LoadStartingBalances (files (abs_path balances_path)) = Some bal"
    and ok: "start_ok H now now' os ord bal"
  obtains cb where "main H now now' os ord files abs_path generated [prog, ''-g'', path] input =
      Ok (Started (started_miner H (run_genesis now ord bal) save run_config cb) (started_net save) (start_effects save))"
    "miner_inv H 0 (started_miner H (run_genesis now ord bal) save run_config cb)"
    "PrevBlockHash cb = GetHashStr H (run_genesis now ord bal)" "ChainLength cb = 1" "Transactions cb = Some []"
    "Target cb = CalculateTarget 20"
proof -
  let ?g = "run_genesis now ord bal"
  have g: "legit H 0 ?g" "IsGenesisBlock ?g" using run_genesis_ok [OF ok LoadStartingBalances_ok [OF bal]] .
  have H: "digests H" "separates H" "orders_ok os" "valid_time now'" using ok by (simp_all add: start_ok_def)
  obtain cb where cb: "Tcp_Initialize H now' os (new_miner H ?g save run_config) NewRealNet (Save_Known save) =
      Ok (started_miner H ?g save run_config cb, started_net save, start_effects save)"
    "miner_inv H 0 (started_miner H ?g save run_config cb)"
    "PrevBlockHash cb = GetHashStr H ?g" "ChainLength cb = 1" "Transactions cb = Some []" "Target cb = Target ?g"
    by (rule Tcp_Initialize_started [OF g H])
  have new: "NewTcpMiner H (Save_Name save) NUM_ROUNDS_MINING (Some ?g) (Some (KeyPair save)) generated
      (Save_Connection save) run_config = Ok (new_miner H ?g save run_config)"
    by (rule NewTcpMiner_new [OF sendable_hash [OF legitD(3) [OF g(1)]]])
  have "main H now now' os ord files abs_path generated [prog, ''-g'', path] input =
      Ok (Started (started_miner H ?g save run_config cb) (started_net save) (start_effects save))"
    by (simp add: main_def load bal run_genesis_made new cb(1))
  moreover have "Target ?g = CalculateTarget 20" by (simp add: run_genesis_def)
  ultimately show thesis using that cb by simp
qed

text \<open>And the other way round: whatever \<open>main\<close> starts, it started in this way.\<close>

lemma main_started:
  assumes run: "main H now now' os ord files abs_path generated args input = Ok (Started m net effs)"
    and ok: "\<And>bal. LoadStartingBalances (files (abs_path balances_path)) = Some bal \<Longrightarrow> start_ok H now now' os ord bal"
  obtains save bal cb where "LoadMinerConfig H (files (args ! 2)) = Ok (Some save)"
    "LoadStartingBalances (files (abs_path balances_path)) = Some bal"
    "m = started_miner H (run_genesis now ord bal) save run_config cb" "net = started_net save"
    "effs = start_effects save" "miner_inv H 0 m"
proof -
  have args: "length args = 3" "args ! 1 = ''-g''"
    using run by (auto simp: main_def Let_def res_simps split: if_splits prod.splits)
  then obtain prog path where a: "args = [prog, ''-g'', path]"
    by (auto simp: length_Suc_conv numeral_3_eq_3)
  obtain save where save: "LoadMinerConfig H (files path) = Ok (Some save)"
    using run by (auto simp: a main_def Let_def res_simps split: option.splits)
  show thesis
  proof (cases "LoadStartingBalances (files (abs_path balances_path))")
    case None
    have "NewTcpMiner H (Save_Name save) NUM_ROUNDS_MINING None (Some (KeyPair save)) generated (Save_Connection save) c = Ok m0 \<Longrightarrow>
        LastBlock m0 = None" for c m0
      by (auto simp: NewTcpMiner_def Let_def)
    then have False
      using run by (auto simp: a main_def save None MakeGenesis_def Let_def res_simps Tcp_Initialize_def Tcp_StartNewSearch_def)
    then show thesis ..
  next
    case (Some bal)
    obtain cb where "main H now now' os ord files abs_path generated [prog, ''-g'', path] input =
        Ok (Started (started_miner H (run_genesis now ord bal) save run_config cb) (started_net save) (start_effects save))"
      "miner_inv H 0 (started_miner H (run_genesis now ord bal) save run_config cb)"
      by (rule main_starts [where files = files and path = path and abs_path = abs_path, OF save Some ok [OF Some]])
    then show thesis using that [of save bal cb] save Some run a by simp
  qed
qed

section \<open>The process\<close>

lemma start_process_parts [simp]:
  "Self (start_process e input m net effs) = m" "Peers (start_process e input m net effs) = net"
  by (simp_all add: start_process_def)

lemma registered_keys:
  assumes "\<forall>k info. map_get (Real_Clients f) k = Some info \<longrightarrow> Tcp_Address info = k"
  shows "\<forall>k info. map_get (Real_Clients (foldl RealNet_Register f infos)) k = Some info \<longrightarrow> Tcp_Address info = k"
  using assms
proof (induction infos arbitrary: f)
  case (Cons info infos)
  have "\<forall>k i. map_get (Real_Clients (RealNet_Register f info)) k = Some i \<longrightarrow> Tcp_Address i = k"
    using Cons.prems by (auto simp: RealNet_Register_def split: if_splits)
  then show ?case unfolding foldl.simps by (rule Cons.IH)
qed (simp only: foldl.simps)

lemma started_peers: "peers_ok (started_miner H g save config cb) (started_net save)"
proof -
  have "RealNet_Recognizes (started_net save) info" if "info \<in> set (elems (Save_Known save))" for info
    using that rn.recognizes_register_all [of NewRealNet "elems (Save_Known save)" info] by (auto simp: started_net_def)
  moreover have "\<forall>k info. map_get (Real_Clients (started_net save)) k = Some info \<longrightarrow> Tcp_Address info = k"
    unfolding started_net_def by (rule registered_keys) (simp add: NewRealNet_def)
  ultimately show ?thesis by (simp add: peers_ok_def started_miner_def)
qed

lemma start_process_ok:
  assumes "miner_inv H 0 (started_miner H g save config cb)"
  shows "process_ok H 0 (start_process e input (started_miner H g save config cb) (started_net save) (start_effects save))"
proof -
  have "\<forall>eff \<in> set (start_effects save). leaves H 0 eff"
    by (auto simp: start_effects_def leaves_def speaks_def node_handlers_def readable_def START_MINING_def
        PROOF_FOUND_def MISSING_BLOCK_def POST_TRANSACTION_def)
  then show ?thesis
    unfolding start_process_def
    by (intro carry_all_ok) (use assms in \<open>simp_all add: process_ok_def pending_ok_def console_ok_def started_miner_def new_miner_def\<close>)
qed

end
