(* ===== verification/RealNetProps.thy ===== *)
theory RealNetProps
  imports TcpSafe DemoMiner
begin

text \<open>
  Properties of the real network: what a broadcast reaches, how two miners register with each other,
  what a listener makes of the pieces it reads, and that \<open>TcpMiner\<close> repeats \<open>Miner\<close>.
\<close>

section \<open>Delivery\<close>

text \<open>C29: A RealNet on which miners with different addresses were registered recognises exactly these
  addresses, and a message to one of them is written, in its envelope, to that miner's port (to an
  unknown address nothing is sent). A broadcast goes to every registered miner once, whatever the order
  of the map, if every port accepts the connection; but it stops at the first that does not, so of the
  miners behind it none gets the message.\<close>

theorem RealNet_delivers:
  assumes "distinct (map Tcp_Address infos)" and "is_order ord"
  defines "f \<equiv> foldl RealNet_Register NewRealNet infos"
  shows "(RealNet_Recognizes f info \<longleftrightarrow> Tcp_Address info \<in> Tcp_Address ` set infos)
    \<and> (info \<in> set infos \<and> dial (localhost (Tcp_Connection info)) \<longrightarrow>
        RealNet_SendMessage dial f (Tcp_Address info) msg data = [(localhost (Tcp_Connection info), envelope msg data)])
    \<and> (a \<notin> Tcp_Address ` set infos \<longrightarrow> RealNet_SendMessage dial f a msg data = [])
    \<and> ((\<forall>i \<in> set infos. dial (localhost (Tcp_Connection i))) \<longrightarrow>
        mset (RealNet_Broadcast ord dial f msg data)
          = {#(localhost (Tcp_Connection i), envelope msg data). i \<in># mset infos#})
    \<and> (\<forall>reached down rest. ord (map_values (Real_Clients f)) = reached @ down # rest
          \<and> (\<forall>i \<in> set reached. dial (localhost (Tcp_Connection i))) \<and> \<not> dial (localhost (Tcp_Connection down)) \<longrightarrow>
        RealNet_Broadcast ord dial f msg data = map (\<lambda>i. (localhost (Tcp_Connection i), envelope msg data)) reached)"
proof (intro conjI impI allI)
  show "RealNet_Recognizes f info \<longleftrightarrow> Tcp_Address info \<in> Tcp_Address ` set infos"
    unfolding f_def rn.recognizes_register_all using rn.not_recognizes_empty [of info] by blast
  show "RealNet_SendMessage dial f (Tcp_Address info) msg data = [(localhost (Tcp_Connection info), envelope msg data)]"
    if "info \<in> set infos \<and> dial (localhost (Tcp_Connection info))"
    using rn.entry_register_all_distinct [OF assms(1), of info NewRealNet] that
    by (simp add: f_def RealNet_SendMessage_def Let_def)
  show "RealNet_SendMessage dial f a msg data = []" if "a \<notin> Tcp_Address ` set infos"
  proof -
    have "List.find (\<lambda>e. Tcp_Address e = a) (rev infos) = None" using that by (auto simp: find_None_iff)
    then have "map_get (Real_Clients f) a = None" unfolding f_def rn.entry_register_all by (simp add: NewRealNet_def)
    then show ?thesis by (simp add: RealNet_SendMessage_def)
  qed
  have reach: "mset (ord (map_values (Real_Clients f))) = mset infos"
    using assms(2) registered_values [OF assms(1)] by (simp add: is_order_def f_def)
  show "mset (RealNet_Broadcast ord dial f msg data) = {#(localhost (Tcp_Connection i), envelope msg data). i \<in># mset infos#}"
    if "\<forall>i \<in> set infos. dial (localhost (Tcp_Connection i))"
  proof -
    have "takeWhile (\<lambda>c. dial (localhost (Tcp_Connection c))) (ord (map_values (Real_Clients f))) = ord (map_values (Real_Clients f))"
      using that mset_eq_setD [OF reach] by (simp add: takeWhile_eq_all_conv)
    then show ?thesis using reach by (simp add: RealNet_Broadcast_def broadcast_takeWhile del: takeWhile_eq_all_conv)
  qed
  show "RealNet_Broadcast ord dial f msg data = map (\<lambda>i. (localhost (Tcp_Connection i), envelope msg data)) reached"
    if "ord (map_values (Real_Clients f)) = reached @ down # rest
      \<and> (\<forall>i \<in> set reached. dial (localhost (Tcp_Connection i))) \<and> \<not> dial (localhost (Tcp_Connection down))"
    for reached down rest
  proof -
    have "takeWhile (\<lambda>c. dial (localhost (Tcp_Connection c))) (reached @ down # rest) = reached"
      using that by (subst takeWhile_append2) auto
    then show ?thesis using that by (simp add: RealNet_Broadcast_def broadcast_takeWhile)
  qed
qed


definition some_peers :: "TcpConnectionInfo list" where
  "some_peers = [\<lparr>Tcp_Name = ''A'', Tcp_Address = ''a'', Tcp_Connection = ''1''\<rparr>,
     \<lparr>Tcp_Name = ''B'', Tcp_Address = ''b'', Tcp_Connection = ''2''\<rparr>,
     \<lparr>Tcp_Name = ''C'', Tcp_Address = ''c'', Tcp_Connection = ''3''\<rparr>]"

theorem RealNet_delivers_witness:
  "RealNet_SendMessage (\<lambda>_. True) (foldl RealNet_Register NewRealNet some_peers) ''b'' ''m'' ''d'' = [(''localhost:2'', envelope ''m'' ''d'')]
   \<and> RealNet_SendMessage (\<lambda>_. True) (foldl RealNet_Register NewRealNet some_peers) ''x'' ''m'' ''d'' = []
   \<and> size (mset (RealNet_Broadcast id (\<lambda>_. True) (foldl RealNet_Register NewRealNet some_peers) ''m'' ''d'')) = 3
   \<and> RealNet_Broadcast id (\<lambda>a. a \<noteq> ''localhost:2'') (foldl RealNet_Register NewRealNet some_peers) ''m'' ''d''
     = [(''localhost:1'', envelope ''m'' ''d'')]"
proof -
  let ?f = "foldl RealNet_Register NewRealNet some_peers"
  have hyps: "distinct (map Tcp_Address some_peers)" "is_order id" by (simp_all add: some_peers_def is_order_def)
  have vals: "map_values (Real_Clients ?f) = some_peers"
    by (simp add: some_peers_def RealNet_Register_def NewRealNet_def map_values_def map_put_def)
  note all = RealNet_delivers [OF hyps, where dial = "\<lambda>_. True" and info = "some_peers ! 1" and a = "''x''" and msg = "''m''" and data = "''d''"]
  have "size (mset (RealNet_Broadcast id (\<lambda>_. True) ?f ''m'' ''d'')) = 3"
    using all by (simp add: some_peers_def)
  moreover have "RealNet_Broadcast id (\<lambda>a. a \<noteq> ''localhost:2'') ?f ''m'' ''d''
      = map (\<lambda>i. (localhost (Tcp_Connection i), envelope ''m'' ''d'')) (take 1 some_peers)"
  proof -
    note last = RealNet_delivers [OF hyps, where dial = "\<lambda>a. a \<noteq> ''localhost:2''" and msg = "''m''" and data = "''d''",
        THEN conjunct2, THEN conjunct2, THEN conjunct2, THEN conjunct2, rule_format]
    from last [of "take 1 some_peers" "some_peers ! 1" "drop 2 some_peers"]
    show ?thesis unfolding vals by (simp add: some_peers_def localhost_def)
  qed
  moreover have "RealNet_SendMessage (\<lambda>_. True) ?f ''b'' ''m'' ''d'' = [(''localhost:2'', envelope ''m'' ''d'')]"
    "RealNet_SendMessage (\<lambda>_. True) ?f ''x'' ''m'' ''d'' = []"
    using all by (simp_all add: some_peers_def localhost_def)
  ultimately show ?thesis by (simp add: some_peers_def localhost_def)
qed

section \<open>Registration\<close>

text \<open>C24: Two miners that do not know each other register with each other in three messages: A writes its
  address to B's port; B, which does not recognise A, writes its own address back and registers A; A
  does the same for B; and B, which now recognises A, answers nothing, so the exchange ends. After it
  each recognises the other, A knows B once and B knows A twice. If B recognises A from the start
  (say A lost its state), B answers nothing and A never learns of B.\<close>

theorem registration_ends:
  assumes "10 \<le> length (Address a)" and "10 \<le> length (Address b)"
    and "sendable_info (tcp_info a)" and "sendable_info (tcp_info b)" and "Address a \<noteq> Address b"
    and "dial (localhost (Connection a))" and "dial (localhost (Connection b))"
    and "\<not> RealNet_Recognizes na (tcp_info b)"
  shows "\<exists>wa wb. RegisterWith dial a (Connection b) = ret [WriteTo (localhost (Connection b)) wa]
    \<and> (\<not> RealNet_Recognizes nb (tcp_info a) \<longrightarrow>
        (\<exists>a1 na1 b1 nb1 b2 nb2.
          HandleConnection dial b nb wa = ret (b1, nb1, [WriteTo (localhost (Connection a)) wb])
          \<and> HandleConnection dial a na wb = ret (a1, na1, [WriteTo (localhost (Connection b)) wa])
          \<and> HandleConnection dial b1 nb1 wa = ret (b2, nb2, [])
          \<and> RealNet_Recognizes na1 (tcp_info b) \<and> RealNet_Recognizes nb2 (tcp_info a)
          \<and> elems (KnownTcpConnections a1) = elems (KnownTcpConnections a) @ [tcp_info b]
          \<and> elems (KnownTcpConnections b2) = elems (KnownTcpConnections b) @ [tcp_info a, tcp_info a]))
    \<and> (RealNet_Recognizes nb (tcp_info a) \<longrightarrow>
        (\<exists>b1 nb1. HandleConnection dial b nb wa = ret (b1, nb1, [])))"
proof -
  define hello where "hello m = render (json_tcp_data \<lparr>Tcp_Msg = REGISTER,
    Tcp_Data = Some (render (json_tcp_info (tcp_info m)))\<rparr>)" for m
  have register: "RegisterWith dial m port = ret (if dial (localhost port) then [WriteTo (localhost port) (hello m)] else [])"
    if "10 \<le> length (Address m)" for m port
    using that by (simp add: RegisterWith_def Tcp_Log_def Let_def hello_def)
  have handle: "HandleConnection dial m net (hello p) = go_bind
      (if \<not> RealNet_Recognizes net (tcp_info p) then RegisterWith dial m (Connection p) else ret [])
      (\<lambda>effs. ret (m\<lparr>KnownTcpConnections := append_slice (KnownTcpConnections m) [tcp_info p]\<rparr>,
                   RealNet_Register net (tcp_info p), effs))"
    if "sendable_info (tcp_info p)" for m p net
  proof -
    have "valid_utf8 REGISTER" by (simp add: plain_valid plain_def REGISTER_def)
    then have "BytesToTcpData (hello p) = Inr \<lparr>Tcp_Msg = REGISTER, Tcp_Data = Some (render (json_tcp_info (tcp_info p)))\<rparr>"
      by (simp add: hello_def BytesToTcpData_sent)
    moreover have "Tcp_Connection (tcp_info p) = Connection p" by (simp add: tcp_info_def)
    ultimately show ?thesis using that by (simp add: HandleConnection_def bytes_of_def BytesToTcpInfo_sent)
  qed
  have knows: "RealNet_Recognizes (RealNet_Register net i) i" for net i
    by (simp add: RealNet_Recognizes_def RealNet_Register_def)
  note run = register [OF assms(1)] register [OF assms(2)] handle [OF assms(3)] handle [OF assms(4)]
  show ?thesis
    by (rule exI [of _ "hello a"], rule exI [of _ "hello b"]) (simp add: run assms(6-8) knows)
qed


definition demo_tcp :: "string \<Rightarrow> string \<Rightarrow> string \<Rightarrow> tcp_miner" where
  "demo_tcp name address port =
     \<lparr>Name = name, Address = address, PrivKey = demo_key, PubKey = Public demo_key, Blocks = [],
      PendingOutgoingTransactions = [], PendingReceivedTransactions = [], PendingBlocks = [],
      LastBlock = Some demo_genesis, LastConfirmedBlock = Some demo_genesis, ReceivedBlock = None,
      Config = \<lparr>coinbaseAmount = 25, defaultTxFee = 1, confirmedDepth = 6\<rparr>, Client_Nonce = 0, Emitter = [],
      CurrentBlock = None, MiningRounds = 2000, Miner_Transactions = NewSet,
      Connection = port, KnownTcpConnections = None\<rparr>"

theorem registration_ends_witness:
  "\<exists>wa wb a1 na1 b1 nb1 b2 nb2.
     RegisterWith (\<lambda>_. True) (demo_tcp ''Mickey'' ''aaaaaaaaaa'' ''9002'') ''9003'' = ret [WriteTo (localhost ''9003'') wa]
     \<and> HandleConnection (\<lambda>_. True) (demo_tcp ''Minnie'' ''bbbbbbbbbb'' ''9003'') NewRealNet wa
       = ret (b1, nb1, [WriteTo (localhost ''9002'') wb])
     \<and> HandleConnection (\<lambda>_. True) (demo_tcp ''Mickey'' ''aaaaaaaaaa'' ''9002'') NewRealNet wb
       = ret (a1, na1, [WriteTo (localhost ''9003'') wa])
     \<and> HandleConnection (\<lambda>_. True) b1 nb1 wa = ret (b2, nb2, [])
     \<and> length (elems (KnownTcpConnections b2)) = 2"
proof -
  let ?a = "demo_tcp ''Mickey'' ''aaaaaaaaaa'' ''9002''" and ?b = "demo_tcp ''Minnie'' ''bbbbbbbbbb'' ''9003''"
  have fields: "Connection ?a = ''9002''" "Connection ?b = ''9003''" "elems (KnownTcpConnections ?b) = []"
    by (simp_all add: demo_tcp_def elems_def)
  have hyps: "10 \<le> length (Address ?a)" "10 \<le> length (Address ?b)" "sendable_info (tcp_info ?a)"
    "sendable_info (tcp_info ?b)" "Address ?a \<noteq> Address ?b"
    by (simp_all add: demo_tcp_def tcp_info_def sendable_info_def plain_valid plain_def)
  have fresh: "\<not> RealNet_Recognizes NewRealNet (tcp_info ?b)" "\<not> RealNet_Recognizes NewRealNet (tcp_info ?a)"
    by (simp_all add: RealNet_Recognizes_def NewRealNet_def)
  from registration_ends [where dial = "\<lambda>_. True", OF hyps _ _ fresh(1), of NewRealNet] fresh(2)
  obtain wa wb a1 na1 b1 nb1 b2 nb2 where
    "RegisterWith (\<lambda>_. True) ?a (Connection ?b) = ret [WriteTo (localhost (Connection ?b)) wa]"
    "HandleConnection (\<lambda>_. True) ?b NewRealNet wa = ret (b1, nb1, [WriteTo (localhost (Connection ?a)) wb])"
    "HandleConnection (\<lambda>_. True) ?a NewRealNet wb = ret (a1, na1, [WriteTo (localhost (Connection ?b)) wa])"
    "HandleConnection (\<lambda>_. True) b1 nb1 wa = ret (b2, nb2, [])"
    "elems (KnownTcpConnections b2) = elems (KnownTcpConnections ?b) @ [tcp_info ?a, tcp_info ?a]"
    by auto
  then show ?thesis unfolding fields by (intro exI conjI) (assumption | simp)+
qed

section \<open>Messages in pieces\<close>

text \<open>The pieces that \<open>Read\<close> gives when it always fills its 512 bytes while it can.\<close>

function full_reads :: "string \<Rightarrow> string list" where
  "full_reads s = (if s = [] then [] else take 512 s # full_reads (drop 512 s))"
  by pat_completeness auto

termination
  by (relation "measure length") auto

declare full_reads.simps [simp del]

text \<open>C26: A listener takes what comes up to the first piece of less than 512 bytes for the whole message;
  if every piece is full the end of the connection panics, which ends the process. So when Read fills
  its buffer, a message arrives whole exactly when its length is no multiple of 512; any other
  message (an empty connection too) stops the process that receives it, and when a piece of the middle
  is short, the rest of the message is dropped.\<close>

theorem message_length_decides:
  "read_connection (full_reads data) [] = (if length data mod 512 = 0 then Panic (Explicit ''EOF'') else Ok data)
   \<and> (\<forall>pieces short rest. (\<forall>piece \<in> set pieces. length piece = 512) \<and> length short < 512 \<longrightarrow>
        read_connection (pieces @ short # rest) [] = Ok (concat pieces @ short))
   \<and> (length data mod 512 = 0 \<and> listens (CHR '':'' # port) \<longrightarrow>
        StartListening listens port (full_reads data # conns) = Panic (Explicit ''EOF''))"
proof -
  have whole: "read_connection (full_reads data) got = (if length data mod 512 = 0 then Panic (Explicit ''EOF'') else Ok (got @ data))"
    for got
  proof (induction data arbitrary: got rule: full_reads.induct)
    case (1 s)
    show ?case
    proof (cases "length s < 512")
      case True
      then show ?thesis by (cases "s = []") (simp_all add: full_reads.simps [of s] full_reads.simps [of "[]"] Let_def)
    next
      case False
      then have "s \<noteq> []" by auto
      moreover have "length s mod 512 = length (drop 512 s) mod 512"
        using False mod_add_self2 [of "length s - 512" "512"] by simp
      ultimately show ?thesis using 1 [of "got @ take 512 s"] False by (simp add: full_reads.simps [of s] Let_def)
    qed
  qed
  have pieces: "\<forall>piece \<in> set pieces. length piece = 512 \<Longrightarrow> length short < 512 \<Longrightarrow>
      read_connection (pieces @ short # rest) got = Ok (got @ concat pieces @ short)" for pieces short rest got
    by (induction pieces arbitrary: got) (simp_all add: Let_def)
  show ?thesis using whole [of "[]"] pieces [where got = "[]"] by (simp add: StartListening_def)
qed

theorem message_length_decides_witness:
  "read_connection (full_reads (replicate 512 CHR ''x'')) [] = Panic (Explicit ''EOF'')
   \<and> read_connection (full_reads ''{}'') [] = Ok ''{}''
   \<and> StartListening (\<lambda>_. True) ''9002'' [full_reads []] = Panic (Explicit ''EOF'')"
  using message_length_decides [of "replicate 512 CHR ''x''"] message_length_decides [of "''{}''"]
    message_length_decides [of "[]" "\<lambda>_. True" "''9002''" "[]"]
  by simp

section \<open>TcpMiner and Miner\<close>

text \<open>C28: TcpMiner repeats Miner, and Miner repeats Client. On an address that Miner can log, each method
  that TcpMiner has in common with Miner computes what Miner's does: the genesis block, the log, the
  search for proofs and its announcement, synchronising, confirming, balances, asking for and providing
  blocks, adding, posting and resending transactions, showing the chain. The exceptions are the target of
  a new block, the head's instead of the default, so StartNewSearch, ReceiveBlock and ReceiveBlockBytes
  compute the same when head and block have the default target; the constructor and Initialize, whose
  arguments differ; and ShowAllBalances, which only prints. What Miner repeats of Client computes what
  Client's does, except that posting puts the transaction in the own pool too, and that SetGenesisBlock
  panics on a node that has a head, where Client replaces it.\<close>

theorem TcpMiner_repeats_Miner:
  assumes "10 \<le> length (Address m)"
  shows "Tcp_SetGenesisBlock H m b = Miner_SetGenesisBlock H m b \<and> Tcp_Log m = Miner_Log m
    \<and> Tcp_FindProof H m once = FindProof H m once \<and> Tcp_AnnounceProof m = AnnounceProof m
    \<and> Tcp_SyncTransaction H os m b = SyncTransaction H os m b \<and> Tcp_SetLastConfirmed H m = Miner_SetLastConfirmed H m
    \<and> Tcp_ConfirmedBalance m = Miner_ConfirmedBalance m \<and> Tcp_AvailableGold m = Miner_AvailableGold m
    \<and> Miner_RequestMissingBlock m b = ret (Tcp_RequestMissingBlock m b)
    \<and> Tcp_ProvideMissingBlock m bs = Miner_ProvideMissingBlock m bs
    \<and> Tcp_AddTransaction H m tx = Miner_AddTransaction H m tx \<and> Tcp_AddTransactionBytes H m bs = AddTransactionBytes H m bs
    \<and> Tcp_PostTransaction H m outputs fee = Miner_PostTransaction H m outputs fee
    \<and> Tcp_ResendPendingTransactions ord m = Miner_ResendPendingTransactions ord m
    \<and> Tcp_ShowBlockchain H m = Miner_ShowBlockchain H m
    \<and> (LastBlock m = Some h \<and> Target h = CalculateTarget POW_LEADING_ZEROES \<longrightarrow>
        Tcp_StartNewSearch H now os m txSet = StartNewSearch H now os m txSet
        \<and> (Target b = CalculateTarget POW_LEADING_ZEROES \<longrightarrow>
            Tcp_ReceiveBlock H now os m b = Miner_ReceiveBlock H now os m b)
        \<and> ((\<forall>b. BytesToBlock bs = Inr b \<longrightarrow> Target b = CalculateTarget POW_LEADING_ZEROES) \<longrightarrow>
            Tcp_ReceiveBlockBytes H now os m bs = Miner_ReceiveBlockBytes H now os m bs))
    \<and> Miner_Log m = Log m \<and> Miner_SetLastConfirmed H m = SetLastConfirmed H m
    \<and> Miner_ConfirmedBalance m = ConfirmedBalance m \<and> Miner_AvailableGold m = AvailableGold m
    \<and> Miner_RequestMissingBlock m b = RequestMissingBlock m b \<and> Miner_ProvideMissingBlock m bs = ProvideMissingBlock m bs
    \<and> Miner_ResendPendingTransactions ord m = ResendPendingTransactions ord m
    \<and> Miner_ShowBlockchain H m = ShowBlockchain H m
    \<and> Miner_PostTransaction H m outputs fee = res_bind (PostTransaction H m outputs fee)
        (\<lambda>(m', tx, effs). Ok (Miner_AddTransaction H m' tx, effs))
    \<and> (GetHash H b = Inr k \<longrightarrow> SetGenesisBlock H m b = Ok (m\<lparr>LastConfirmedBlock := Some b, LastBlock := Some b,
          Blocks := map_put k b (Blocks m)\<rparr>)
        \<and> Miner_SetGenesisBlock H m b = (if LastBlock m = None then SetGenesisBlock H m b
            else Panic (Explicit ''Cannot set starting block for existing blockchain'')))"
proof -
  have addr: "\<not> length (Address m) < 10" using assms by simp
  have request: "Miner_RequestMissingBlock m b = ret (Tcp_RequestMissingBlock m b)"
    using addr by (simp add: Miner_RequestMissingBlock_eq RequestMissingBlock_def Log_def Tcp_RequestMissingBlock_eq missing_request_def)
  have search: "Tcp_StartNewSearch H now os m txSet = StartNewSearch H now os m txSet"
    "Tcp_ReceiveBlockBytes H now os m bs = Miner_ReceiveBlockBytes H now os m bs"
    if "LastBlock m = Some h" "Target h = CalculateTarget POW_LEADING_ZEROES"
      "\<forall>b. BytesToBlock bs = Inr b \<longrightarrow> Target b = CalculateTarget POW_LEADING_ZEROES" for txSet bs
    using that Tcp_ReceiveBlock_Miner [OF addr that(1,2)]
    by (simp_all add: Tcp_StartNewSearch_search StartNewSearch_search Tcp_ReceiveBlockBytes_def Miner_ReceiveBlockBytes_def
        split: sum.split)
  have start: "Tcp_StartNewSearch H now os m txSet = StartNewSearch H now os m txSet"
    if "LastBlock m = Some h" "Target h = CalculateTarget POW_LEADING_ZEROES"
    using that by (simp add: Tcp_StartNewSearch_search StartNewSearch_search)
  have copies: "Tcp_ConfirmedBalance m = Miner_ConfirmedBalance m" "Miner_ConfirmedBalance m = ConfirmedBalance m"
    "Tcp_ResendPendingTransactions ord m = Miner_ResendPendingTransactions ord m"
    "Miner_ResendPendingTransactions ord m = ResendPendingTransactions ord m"
    "Tcp_ShowBlockchain H m = Miner_ShowBlockchain H m" "Miner_ShowBlockchain H m = ShowBlockchain H m"
    by (simp_all add: Tcp_ConfirmedBalance_def Miner_ConfirmedBalance_def ConfirmedBalance_def Tcp_ShowBlockchain_def
        Miner_ShowBlockchain_def ShowBlockchain_def Tcp_ResendPendingTransactions_def Miner_ResendPendingTransactions_def
        ResendPendingTransactions_def)
  have genesis: "SetGenesisBlock H m b = Ok (m\<lparr>LastConfirmedBlock := Some b, LastBlock := Some b, Blocks := map_put k b (Blocks m)\<rparr>)
      \<and> Miner_SetGenesisBlock H m b = (if LastBlock m = None then SetGenesisBlock H m b
            else Panic (Explicit ''Cannot set starting block for existing blockchain''))" if "GetHash H b = Inr k"
    using that by (simp add: SetGenesisBlock_def Miner_SetGenesisBlock_def)
  show ?thesis
    using request search(2) start genesis Tcp_ReceiveBlock_Miner [OF addr] Tcp_FindProof_eq [OF addr]
      Tcp_ProvideMissingBlock_eq [OF addr]
    by (simp add: tcp_copies miner_copies copies)
qed

text \<open>A miner whose head has the default target, a block with it, and the head again as genesis block.\<close>

theorem TcpMiner_repeats_Miner_witness:
  "\<exists>(m :: tcp_miner) h b. LastBlock m = Some h \<and> Target h = CalculateTarget POW_LEADING_ZEROES
     \<and> Tcp_StartNewSearch demo_crypto demo_time demo_orders m None = StartNewSearch demo_crypto demo_time demo_orders m None
     \<and> Tcp_ReceiveBlock demo_crypto demo_time demo_orders m b = Miner_ReceiveBlock demo_crypto demo_time demo_orders m b
     \<and> Tcp_SetGenesisBlock demo_crypto m h = Panic (Explicit ''Cannot set starting block for existing blockchain'')
     \<and> SetGenesisBlock demo_crypto m h = Ok (m\<lparr>LastConfirmedBlock := Some h, LastBlock := Some h,
         Blocks := map_put (demo_hash []) h (Blocks m)\<rparr>)"
proof -
  let ?h = "demo_genesis\<lparr>Target := CalculateTarget POW_LEADING_ZEROES\<rparr>"
  let ?m = "demo_tcp ''Mickey'' ''aaaaaaaaaa'' ''9002''\<lparr>LastBlock := Some ?h\<rparr>"
  let ?b = "demo_child ?h []\<lparr>Target := CalculateTarget POW_LEADING_ZEROES\<rparr>"
  have addr: "10 \<le> length (Address ?m)" by (simp add: demo_tcp_def)
  have hash: "GetHash demo_crypto ?h = Inr (demo_hash [])"
    using demo_hash_block(1) [of ?h] demo_json_time by (simp add: demo_genesis_def)
  have head: "LastBlock ?m = Some ?h" "Target ?h = CalculateTarget POW_LEADING_ZEROES" "Target ?b = CalculateTarget POW_LEADING_ZEROES"
    by simp_all
  from TcpMiner_repeats_Miner [OF addr, where H = demo_crypto and b = ?b and h = ?h and now = demo_time and os = demo_orders and txSet = None]
  have search: "Tcp_StartNewSearch demo_crypto demo_time demo_orders ?m None = StartNewSearch demo_crypto demo_time demo_orders ?m None"
    "Tcp_ReceiveBlock demo_crypto demo_time demo_orders ?m ?b = Miner_ReceiveBlock demo_crypto demo_time demo_orders ?m ?b"
    using head by metis+
  from TcpMiner_repeats_Miner [OF addr, where H = demo_crypto and b = ?h and k = "demo_hash []"]
  have genesis: "Tcp_SetGenesisBlock demo_crypto ?m ?h = Panic (Explicit ''Cannot set starting block for existing blockchain'')"
    "SetGenesisBlock demo_crypto ?m ?h = Ok (?m\<lparr>LastConfirmedBlock := Some ?h, LastBlock := Some ?h,
       Blocks := map_put (demo_hash []) ?h (Blocks ?m)\<rparr>)"
    using hash head(1) by (metis option.distinct(1))+
  show ?thesis
    by (intro exI [of _ ?m] exI [of _ ?h] exI [of _ ?b] conjI search genesis head(1,2))
qed

end
