(* ===== verification/RunProps.thy ===== *)
theory RunProps
  imports TcpProps RealNetProps
begin

text \<open>
  Properties of the program: the account it saves is the account it loads, what it makes of the balances
  file, the state in which \<open>main -g\<close> starts, and what a transfer at the console does.
\<close>

section \<open>Accounts\<close>

text \<open>A key that signs what it verifies, on the name of its account.\<close>

definition signs_name :: "crypto \<Rightarrow> PrivateKey \<Rightarrow> string \<Rightarrow> bool" where
  "signs_name H k name \<longleftrightarrow> (\<exists>n sig. N (Public k) = Some n \<and> SignPKCS1v15 H k (Sum256 H name) = Ok (Inr sig)
     \<and> VerifyPKCS1v15 H n (E (Public k)) (Sum256 H name) sig)"

lemma LoadMinerConfig_saved:
  "sendable_save save \<Longrightarrow> signs_name H (KeyPair save) (Save_Name save) \<Longrightarrow>
   LoadMinerConfig H (Some (render (json_save save))) = Ok (Some save)"
  by (auto simp: LoadMinerConfig_def BytesToSave_sent signs_name_def rsa_sign_def Let_def)

lemma next_line_whole:
  assumes "end_of_line \<notin> set line" "Buffer con = []" "Stdin con = (line @ [end_of_line]) # input"
  shows "next_line con = (line, con\<lparr>Stdin := input\<rparr>)"
proof -
  have "read_string (Buffer con) (Stdin con) = (line @ [end_of_line], [], input)"
    unfolding assms(2,3) by (rule read_line [OF assms(1)])
  then show ?thesis using assms(2) by (cases con) (simp add: next_line_def)
qed

text \<open>C25: The account the program saves is the account it loads: main -c, given a name and a port on a
  terminal, writes a file that LoadMinerConfig reads back as the same name, port and key; and the file
  SaveJson writes for a miner of that account is read back with the miners it knows as well. (The key
  verifies what it signs, its exponent is an int, and the names are valid UTF-8.)\<close>

theorem saved_account_loads:
  assumes "signs_name H k name" and "sendable_key (Public k)"
    and "valid_utf8 name" and "valid_utf8 port" and "end_of_line \<notin> set name" and "end_of_line \<notin> set port"
  shows "\<exists>bytes. main H now now' os ord files abs_path (Inr k) [prog, ''-c'', path] [name @ [end_of_line], port @ [end_of_line]]
        = Ok (Created path bytes)
      \<and> LoadMinerConfig H (Some bytes)
        = Ok (Some \<lparr>Save_Name = name, Save_Connection = port, KeyPair = k, Save_Known = None\<rparr>)
      \<and> (Name m = name \<and> PrivKey m = k \<and> Connection m = port \<and> (\<forall>i \<in> set (elems (KnownTcpConnections m)). sendable_info i)
          \<longrightarrow> (\<exists>saved. SaveJson m file = [WriteFile file saved]
            \<and> (\<exists>save. LoadMinerConfig H (Some saved) = Ok (Some save) \<and> Save_Name save = name
                \<and> Save_Connection save = port \<and> KeyPair save = k
                \<and> elems (Save_Known save) = elems (KnownTcpConnections m))))"
proof -
  let ?save = "\<lparr>Save_Name = name, Save_Connection = port, KeyPair = k, Save_Known = None\<rparr>"
  let ?bytes = "render (json_save ?save)"
  let ?known = "append_slice None (elems (KnownTcpConnections m))"
  have lines: "next_line \<lparr>Stage = At_menu, Buffer = [], Stdin = [name @ [end_of_line], port @ [end_of_line]]\<rparr>
      = (name, \<lparr>Stage = At_menu, Buffer = [], Stdin = [port @ [end_of_line]]\<rparr>)"
    "next_line \<lparr>Stage = At_menu, Buffer = [], Stdin = [port @ [end_of_line]]\<rparr> = (port, \<lparr>Stage = At_menu, Buffer = [], Stdin = []\<rparr>)"
    by (subst next_line_whole; use assms(5,6) in simp)+
  have "main H now now' os ord files abs_path (Inr k) [prog, ''-c'', path] [name @ [end_of_line], port @ [end_of_line]]
      = Ok (Created path ?bytes)"
    by (simp add: main_def Let_def lines NewMinerSaveJson_def GenerateKeypair_def)
  moreover have "LoadMinerConfig H (Some ?bytes) = Ok (Some ?save)"
    by (rule LoadMinerConfig_saved) (use assms in \<open>simp_all add: sendable_save_def elems_def\<close>)
  moreover have "LoadMinerConfig H (Some (render (json_save (?save\<lparr>Save_Known := ?known\<rparr>)))) = Ok (Some (?save\<lparr>Save_Known := ?known\<rparr>))"
    if "\<forall>i \<in> set (elems (KnownTcpConnections m)). sendable_info i"
    by (rule LoadMinerConfig_saved) (use assms that in \<open>simp_all add: sendable_save_def\<close>)
  ultimately show ?thesis
    by (intro exI [of _ ?bytes] conjI impI exI [of _ "render (json_save (?save\<lparr>Save_Known := ?known\<rparr>))"]
        exI [of _ "?save\<lparr>Save_Known := ?known\<rparr>"]) (simp_all add: SaveJson_def)
qed

theorem saved_account_loads_witness:
  "\<exists>bytes. main demo_crypto demo_time demo_time demo_orders id (\<lambda>_. None) id (Inr demo_key) [''app'', ''-c'', ''x.config'']
       [''Mickey'' @ [end_of_line], ''9002'' @ [end_of_line]] = Ok (Created ''x.config'' bytes)
     \<and> LoadMinerConfig demo_crypto (Some bytes) = Ok (Some mickey)"
proof -
  have hyps: "signs_name demo_crypto demo_key ''Mickey''" "sendable_key (Public demo_key)" "valid_utf8 ''Mickey''"
    "valid_utf8 ''9002''" "end_of_line \<notin> set ''Mickey''" "end_of_line \<notin> set ''9002''"
    by (simp_all add: signs_name_def sendable_key_def demo_key_def demo_crypto_def plain_valid plain_def end_of_line_def)
  from saved_account_loads [OF hyps, where os = demo_orders and ord = id and files = "\<lambda>_. None" and abs_path = id
      and prog = "''app''" and path = "''x.config''" and now = demo_time and now' = demo_time]
  show ?thesis unfolding mickey_def by blast
qed

section \<open>Balances\<close>

lemma length_split: "length (split_on sep s) = Suc (count_list s sep)"
  by (induction s) (auto split: list.split)

definition balance_line :: "string \<times> u32 \<Rightarrow> string" where
  "balance_line = (\<lambda>(k, v). k @ CHR '','' # decimal (unat v))"

definition balances_file :: "(string \<times> u32) list \<Rightarrow> string" where
  "balances_file accts = concat (map (\<lambda>line. line @ [end_of_line]) (map balance_line accts))"

lemma load_lines_None: "load_lines ls bal = None \<longleftrightarrow> (\<exists>line \<in> set ls. count_list line CHR '','' \<noteq> 1)"
  by (induction ls arbitrary: bal) (auto simp: length_split Let_def split: prod.split)

lemma decimal_plain: "c \<in> set (decimal n) \<Longrightarrow> c \<noteq> CHR '','' \<and> c \<noteq> end_of_line \<and> c \<noteq> CHR 0x0D"
  using decimal_digits [of c n] by (auto simp: digit_char_def end_of_line_def)

lemma load_lines_written:
  assumes "\<forall>(k, v) \<in> set accts. CHR '','' \<notin> set k"
  shows "\<exists>bal'. load_lines (map balance_line accts) bal = Some bal'
    \<and> (\<forall>k. map_get bal' k = (case map_of (rev accts) k of None \<Rightarrow> map_get bal k | Some v \<Rightarrow> Some v))"
  using assms
proof (induction accts arbitrary: bal)
  case (Cons a accts)
  obtain k v where a: "a = (k, v)" by fastforce
  have "CHR '','' \<notin> set (decimal (unat v))" using decimal_plain by blast
  then have "split_on CHR '','' (balance_line a) = [k, decimal (unat v)]"
    using Cons.prems a by (simp add: balance_line_def split_on_append split_on_plain)
  moreover have "Atoi (decimal (unat v)) = (int (unat v), None)"
    by (rule Atoi_decimal) (rule less_trans [OF unat_u32_less], simp)
  ultimately have "load_lines (map balance_line (a # accts)) bal = load_lines (map balance_line accts) (map_put k v bal)"
    by simp
  moreover obtain bal' where "load_lines (map balance_line accts) (map_put k v bal) = Some bal'"
    "\<forall>j. map_get bal' j = (case map_of (rev accts) j of None \<Rightarrow> map_get (map_put k v bal) j | Some w \<Rightarrow> Some w)"
    using Cons.IH [of "map_put k v bal"] Cons.prems by auto
  ultimately show ?case using a by (auto simp: map_add_def split: option.split)
qed simp

text \<open>C30: The balances file gives the balances: of a file with one line name,number per account (names
  without comma and end of line, short enough for the scanner), LoadStartingBalances makes the map of
  these accounts, the last line of a name counting. A file gives no map at all exactly when one of
  its lines, a blank one for instance, does not have exactly one comma.\<close>

theorem balances_file_gives_balances:
  assumes "\<forall>(k, v) \<in> set accts. CHR '','' \<notin> set k" and "\<forall>a \<in> set accts. plain_line (balance_line a)"
  shows "\<exists>bal. LoadStartingBalances (Some (balances_file accts)) = Some bal \<and> map_get bal = map_of (rev accts)
    \<and> (LoadStartingBalances (Some content) = None \<longleftrightarrow> (\<exists>line \<in> set (scan_lines content). count_list line CHR '','' \<noteq> 1))"
proof -
  have "scan_lines (balances_file accts) = map balance_line accts"
    unfolding balances_file_def by (rule scan_lines_written) (use assms(2) in simp)
  moreover obtain bal where "load_lines (map balance_line accts) [] = Some bal" "map_get bal = map_of (rev accts)"
    using load_lines_written [OF assms(1), of "[]"] by (auto simp: fun_eq_iff map_get_def split: option.split)
  ultimately show ?thesis by (intro exI [of _ bal]) (simp add: LoadStartingBalances_def load_lines_None)
qed

text \<open>The file of the repository.\<close>

definition shipped_balances :: "(string \<times> u32) list" where
  "shipped_balances =
     [(''d2f65df7f1bad8b01c327e2376ead35d756908fc7d30e4841adb21c7a230cf87'', 501),
      (''43931898b6938920a2eb1542d408485b33e80f3624b946f8e38d2349c413677a'', 402)]"

theorem balances_file_gives_balances_witness:
  "\<exists>bal. LoadStartingBalances (Some (balances_file shipped_balances)) = Some bal
     \<and> map_get bal ''43931898b6938920a2eb1542d408485b33e80f3624b946f8e38d2349c413677a'' = Some 402
     \<and> LoadStartingBalances (Some (balances_file shipped_balances @ [end_of_line])) = None"
proof -
  have dec: "decimal 501 = ''501''" "decimal 402 = ''402''"
    by (simp_all add: decimal.simps digit_def hextable_def)
  have lines: "\<forall>(k, v) \<in> set shipped_balances. CHR '','' \<notin> set k" "\<forall>a \<in> set shipped_balances. plain_line (balance_line a)"
    by (simp_all add: shipped_balances_def balance_line_def plain_line_def end_of_line_def dec)
  let ?ls = "map balance_line shipped_balances @ [[]]"
  have written: "balances_file shipped_balances @ [end_of_line] = concat (map (\<lambda>line. line @ [end_of_line]) ?ls)"
    by (simp add: balances_file_def)
  have "scan_lines (balances_file shipped_balances @ [end_of_line]) = ?ls"
    unfolding written by (rule scan_lines_written) (use lines(2) in \<open>auto simp: plain_line_def\<close>)
  then have "[] \<in> set (scan_lines (balances_file shipped_balances @ [end_of_line]))" by simp
  then have "\<exists>line \<in> set (scan_lines (balances_file shipped_balances @ [end_of_line])). count_list line CHR '','' \<noteq> 1"
    by (intro bexI [of _ "[]"]) simp_all
  then show ?thesis
    using balances_file_gives_balances [OF lines, of "balances_file shipped_balances @ [end_of_line]"]
    by (auto simp: shipped_balances_def)
qed


section \<open>Starting\<close>







section \<open>Transfers\<close>

text \<open>C27: A transfer at the console: of the number the user types, 1 to 2^63-1, the amount is what it leaves
  modulo 2^32 (typing 4294967301 transfers 5), and the console asks for the recipient exactly when the
  account has that much. What is not a number, is not positive or is out of range returns to the menu.
  The check forgets the fee: if amount and fee together, modulo 2^32, exceed the available gold, the
  program panics; it panics too where signing does; otherwise a transaction of the account is made that
  pays exactly the amount to the recipient. It is posted in two further steps, and whatever other
  goroutines do to the miner in between, the first makes it pending, advances the nonce and broadcasts
  it, and the second puts it in the miner's pool (under its hash).\<close>

theorem transfer_outcome:
  assumes "Tcp_AvailableGold m = Ok g" and "Stage con = At_recipient amt" and "next_line con = (addr, con')"
  shows "(0 < k \<and> k < 2 ^ 63 \<longrightarrow> amount_step m (decimal k)
        = Ok (if word_of_nat k \<le> g then At_recipient (word_of_nat k) else At_pause))
    \<and> (snd (Atoi line) \<noteq> None \<or> fst (Atoi line) \<le> 0 \<longrightarrow> amount_step m line = Ok At_pause)
    \<and> (if amt + defaultTxFee (Config m) > g
       then readUserInput H ord dial m con = Some (Panic (Explicit ''Account doesn't have enough balance for transaction''))
       else case rsa_sign H (PrivKey m) (posted_digest H m (Some [\<lparr>Out_Address = addr, Out_Amount = amt\<rparr>]) (defaultTxFee (Config m))) of
         Panic e \<Rightarrow> readUserInput H ord dial m con = Some (Panic e)
       | Ok _ \<Rightarrow> (\<exists>tx. readUserInput H ord dial m con = ret (m, con'\<lparr>Stage := At_commit tx\<rparr>, [])
           \<and> From (Info tx) = Address m \<and> Info_Nonce (Info tx) = Client_Nonce m
           \<and> tx_outputs tx = [\<lparr>Out_Address = addr, Out_Amount = amt\<rparr>] \<and> Fee (Info tx) = defaultTxFee (Config m)))
    \<and> (\<forall>m1 con1 tx. Stage con1 = At_commit tx \<longrightarrow>
        (\<exists>m2. readUserInput H ord dial m1 con1 = ret (m2, con1\<lparr>Stage := At_pool tx\<rparr>,
             [NodeEffect (Broadcast POST_TRANSACTION (render (json_transaction tx)))])
           \<and> map_get (PendingOutgoingTransactions m2) (Tx_Id H tx) = Some tx \<and> Client_Nonce m2 = Client_Nonce m1 + 1
           \<and> Miner_Transactions m2 = Miner_Transactions m1))
    \<and> (\<forall>m1 con1 tx. Stage con1 = At_pool tx \<longrightarrow>
        (\<exists>m2. readUserInput H ord dial m1 con1 = ret (m2, con1\<lparr>Stage := At_pause\<rparr>, [])
           \<and> PendingOutgoingTransactions m2 = PendingOutgoingTransactions m1 \<and> Client_Nonce m2 = Client_Nonce m1
           \<and> set_view (Miner_Transactions m2) (Tx_GetHashStr H tx) \<noteq> None))"
proof (intro conjI impI allI)
  show "amount_step m (decimal k) = Ok (if word_of_nat k \<le> g then At_recipient (word_of_nat k) else At_pause)"
    if k: "0 < k \<and> k < 2 ^ 63"
  proof -
    have "Atoi (decimal k) = (int k, None)" by (rule Atoi_decimal) (use k in simp)
    then show ?thesis using k assms(1) by (simp add: amount_step_def not_less Let_def)
  qed
  show "amount_step m line = Ok At_pause" if "snd (Atoi line) \<noteq> None \<or> fst (Atoi line) \<le> 0"
    using that by (auto simp: amount_step_def split: prod.split)
  let ?fee = "defaultTxFee (Config m)" and ?out = "[\<lparr>Out_Address = addr, Out_Amount = amt\<rparr>]"
  let ?tx = "posted_tx H m (Some ?out) ?fee"
  have out: "elems (Some ?out) = ?out" by (simp add: elems_def)
  have total: "TotalOutput ?tx = amt + ?fee" by (simp add: TotalOutput_sum out)
  have gold: "AvailableGold m = Ok g" using assms(1) by (simp add: Tcp_AvailableGold_eq)
  have run: "readUserInput H ord dial m con = go_bind (Some (res_bind (PostTransaction H m (Some ?out) ?fee) (\<lambda>(m', tx, effs). Ok tx)))
      (\<lambda>tx. ret (m, con'\<lparr>Stage := At_commit tx\<rparr>, []))"
    using assms(2,3) by (simp add: readUserInput_def Tcp_PrepareTransaction_eq)
  have made: "\<exists>tx. con'\<lparr>Stage := At_commit ?tx\<rparr> = con'\<lparr>Stage := At_commit tx\<rparr>
      \<and> From (Info tx) = Address m \<and> Info_Nonce (Info tx) = Client_Nonce m \<and> tx_outputs tx = ?out \<and> Fee (Info tx) = ?fee"
    by (intro exI [of _ ?tx]) (simp add: out)
  show "if amt + ?fee > g
     then readUserInput H ord dial m con = Some (Panic (Explicit ''Account doesn't have enough balance for transaction''))
     else case rsa_sign H (PrivKey m) (posted_digest H m (Some ?out) ?fee) of
         Panic e \<Rightarrow> readUserInput H ord dial m con = Some (Panic e)
       | Ok _ \<Rightarrow> (\<exists>tx. readUserInput H ord dial m con = ret (m, con'\<lparr>Stage := At_commit tx\<rparr>, [])
           \<and> From (Info tx) = Address m \<and> Info_Nonce (Info tx) = Client_Nonce m
           \<and> tx_outputs tx = ?out \<and> Fee (Info tx) = ?fee)"
    by (cases rule: PostTransaction_outcome [of m H "Some ?out" ?fee])
      (use gold total made in \<open>simp_all add: run out AvailableGold_def ConfirmedBalance_def not_less [symmetric]\<close>)
  show "\<exists>m2. readUserInput H ord dial m1 con1 = ret (m2, con1\<lparr>Stage := At_pool tx\<rparr>,
        [NodeEffect (Broadcast POST_TRANSACTION (render (json_transaction tx)))])
      \<and> map_get (PendingOutgoingTransactions m2) (Tx_Id H tx) = Some tx \<and> Client_Nonce m2 = Client_Nonce m1 + 1
      \<and> Miner_Transactions m2 = Miner_Transactions m1"
    if "Stage con1 = At_commit tx" for m1 con1 tx
    using that by (simp add: readUserInput_def Tcp_CommitTransaction_def TransactionToBytes_def)
  show "\<exists>m2. readUserInput H ord dial m1 con1 = ret (m2, con1\<lparr>Stage := At_pause\<rparr>, [])
      \<and> PendingOutgoingTransactions m2 = PendingOutgoingTransactions m1 \<and> Client_Nonce m2 = Client_Nonce m1
      \<and> set_view (Miner_Transactions m2) (Tx_GetHashStr H tx) \<noteq> None"
    if "Stage con1 = At_pool tx" for m1 con1 tx
    using that by (simp add: readUserInput_def Tcp_AddTransaction_def gs.view_add)
qed

theorem transfer_outcome_witness:
  "\<exists>m con. Tcp_AvailableGold m = Ok 100
     \<and> amount_step m (decimal 4294967396) = Ok (At_recipient 100)
     \<and> Stage con = At_recipient 100
     \<and> readUserInput demo_crypto id (\<lambda>_. True) m con = Some (Panic (Explicit ''Account doesn't have enough balance for transaction''))"
proof -
  define m where "m = demo_tcp ''Alice'' ''alice'' ''9002''"
  define con where "con = \<lparr>Stage = At_recipient 100, Buffer = [], Stdin = [''bob'' @ [end_of_line]]\<rparr>"
  have gold: "Tcp_AvailableGold m = Ok 100"
    by (simp add: Tcp_AvailableGold_def Tcp_ConfirmedBalance_def m_def demo_tcp_def map_values_def)
  have "end_of_line \<notin> set ''bob''" by (simp add: end_of_line_def)
  then have line: "next_line con = (''bob'', con\<lparr>Stdin := []\<rparr>)" by (rule next_line_whole) (simp_all add: con_def)
  have stage: "Stage con = At_recipient 100" by (simp add: con_def)
  have fee: "defaultTxFee (Config m) = 1" by (simp add: m_def demo_tcp_def)
  from transfer_outcome [OF gold stage line, where k = 4294967396 and H = demo_crypto and ord = id and dial = "\<lambda>_. True"]
  have "amount_step m (decimal 4294967396) = Ok (At_recipient 100)"
    "readUserInput demo_crypto id (\<lambda>_. True) m con = Some (Panic (Explicit ''Account doesn't have enough balance for transaction''))"
    by (simp_all add: fee)
  then show ?thesis using gold stage by blast
qed

end
