(* ===== verification/Spec2Isabelle.thy ===== *)
theory Spec2Isabelle imports BlockProps ClientProps MinerProps CodecProps SystemProps RunProps begin

text \<open>
  Verification of GoSpartanGold, a small proof-of-work blockchain in Go (\<open>src/blockchain\<close>, go 1.18).

  The program. Accounts are RSA keys; an address is the hash of a public key (\<open>utils.go\<close>). A transaction
  carries its sender's address, nonce and key, its outputs and fee, and a signature (\<open>transaction.go\<close>).
  A block carries a table of balances and one of next nonces, which \<open>AddTransaction\<close> and \<open>Rerun\<close>
  maintain, its transactions, and a proof of work (\<open>block.go\<close>); \<open>MakeGenesis\<close> makes the first one
  (\<open>blockchain.go\<close>). A \<open>Client\<close> stores blocks by hash, follows the longest chain, holds back blocks
  whose predecessor is missing and asks for it, and posts payments (\<open>client.go\<close>). A \<open>Miner\<close> also
  collects transactions and searches for proofs (\<open>miner.go\<close>). In the tests both run on a \<open>FakeNet\<close>
  in one process (\<open>FakeNet.go\<close>); the program itself runs one \<open>TcpMiner\<close> per process
  (\<open>tcp_miner.go\<close>), which reaches the others through a \<open>RealNet\<close> (\<open>RealNet.go\<close>), and a console
  (\<open>run.go\<close>). Nodes talk in JSON documents; an event emitter calls the methods that listen.

  Which theory models what. \<open>Prelude\<close>, \<open>GoMap\<close>, \<open>GoText\<close>, \<open>GoJson\<close>, \<open>GoDecode\<close> and \<open>GoStrings\<close>
  model what the program uses of Go: \<open>uint32\<close> as \<open>32 word\<close>, nil slices, panics (\<open>res\<close>) and
  computations that may not return (\<open>go\<close>, \<open>None\<close> when they do not), maps, \<open>encoding/json\<close> in both
  directions, \<open>strconv\<close>, \<open>strings\<close> and \<open>bufio\<close>. Then, one theory per source file with the names of the
  source: \<open>GoSet\<close> (\<open>set.go\<close>), \<open>Utils\<close>, \<open>Transaction\<close>, \<open>Block\<close>, \<open>Blockchain\<close>, \<open>Client\<close>, \<open>Miner\<close>,
  \<open>FakeNet\<close>, \<open>RealNet\<close>, \<open>TcpJson\<close> and \<open>TcpMiner\<close> (\<open>tcp_miner.go\<close>), \<open>Run\<close>. A method that
  \<open>Miner\<close> or \<open>TcpMiner\<close> repeats is written out again from its own source (\<open>Miner_\<close>, \<open>Tcp_\<close>);
  their structs repeat \<open>Client\<close>'s fields, so their records extend its record. An operation takes the
  state and returns the new state with the effects it leaves (messages, goroutines, files): it holds
  the node's mutex, so it is one step; \<open>TcpMiner.PostTransaction\<close>, which lets go of it, is three, and the
  console passes through a stage for each. \<open>System\<close> runs nodes on a \<open>FakeNet\<close>, \<open>TcpNode\<close> a process; every
  \<open>go\<close> statement is a task that runs later, in any order. In \<open>TcpNode\<close> every event (a connection, a task,
  the user) has an outcome: a new state, a panic, or none when the code does not return.

  What the program does not decide is an argument: hash and signatures (the record \<open>crypto\<close>; signing
  gives a signature or an error, or panics, always on a key without modulus), the
  clock, the order in which a map is iterated, the key that is generated, which TCP addresses accept a
  connection, what \<open>Read\<close> gives, the file system, and the emitter, a library that is not part of the
  repository. The theorems hold for all of them, or name what they need: that digests have 32 bytes and
  differ for blocks of different length (\<open>separates\<close>), that a key verifies what it signs, that the
  emitter calls the listeners of an event (\<open>dispatches\<close>), that an order is a permutation.

  The interfaces are locales, each interpreted on the model: \<open>string_map\<close> (Go's maps), \<open>keyed_set\<close>
  (\<open>set.go\<close>), \<open>ledger_invariant\<close> (what every transaction keeps of a block, used for headers, gold,
  accounts, identities, names), \<open>registry\<close> (both networks), \<open>searcher\<close> (how a miner starts a search:
  \<open>Miner\<close> with the default target, \<open>TcpMiner\<close> with its head's; receiving a block is proved once).

  What the lemmas show. \<open>Ledger\<close>, \<open>Replay\<close>, \<open>BlockProps\<close>: the tables of a block are an abstract ledger,
  \<open>AddTransaction\<close> and \<open>Rerun\<close> refine its transitions, keep the gold and the order of nonces, and panic
  exactly where stated; a block that a miner builds is accepted unchanged by the others. \<open>ClientInv\<close>,
  \<open>Delivery\<close>, \<open>Posting\<close>, \<open>ClientProps\<close>: the stored blocks are linked, found under their hashes and
  well-founded, the head is a longest one, the confirmed block lies 6 below, a chain delivered in any
  order is stored in the end; payments are accounted for. \<open>MinerInv\<close>, \<open>Mining\<close>, \<open>MinerProps\<close>: a miner
  mines on its head, the search goes through the proofs in order, the block found becomes the head.
  \<open>JsonRoundtrip\<close>, \<open>DecodeRoundtrip\<close>, \<open>Codec\<close>, \<open>TcpCodec\<close>, \<open>CodecProps\<close>: what is sent is what is read.
  \<open>Sendable\<close>, \<open>SystemInv\<close>, \<open>SystemSafe\<close>, \<open>Network\<close>, \<open>SystemProps\<close>: a network of well-behaved nodes
  never panics or loops. \<open>TcpInv\<close>, \<open>TcpShape\<close>, \<open>TcpSafe\<close>, \<open>TcpStart\<close>, \<open>TcpProps\<close>: a process, from \<open>main\<close>
  on and among processes whose messages it can read, panics in exactly two events, a connection that ends
  before a short piece and a transfer it cannot pay or sign, and goes on in every other; its own messages
  decode to what the others read; whatever comes in, it keeps its account. \<open>RealNetProps\<close>, \<open>RunProps\<close>:
  registration, delivery, messages in pieces, what \<open>TcpMiner\<close> repeats and where it differs, the saved
  account, the balances file, the start for every content of the files and the console's transfers. \<open>Demo\<close>,
  \<open>DemoNode\<close> and \<open>DemoMiner\<close> hold the values of the witnesses.

  Several properties state what the code does where it hardly can be meant: a total that wraps around
  makes gold (exactly how much), a foreign genesis block is stored, the sender need not own the key, a
  payment in a block that confirmation jumps over is counted twice, all but the last transaction of an
  abandoned block are lost, a message of 512 bytes stops its receiver, a transfer of all gold panics.

  Bounds. Loops over the chain are \<open>partial_function\<close>s whose return is proved from the invariant, the
  search loop a \<open>function\<close> with a measure; there is no fuel. JSON nesting is limited to 10000 as in Go,
  which the documents (depth at most 7) never reach. Runs are shorter than \<open>2^32\<close> steps, since a step can
  lengthen the chain by one and \<open>ChainLength\<close> is a \<open>uint32\<close>. \<open>int\<close> has 64 bits.

  Not modelled: what is printed (the arguments of \<open>Log\<close>, the menu, \<open>Block.ToString\<close>,
  \<open>ShowAllBalances\<close>), since it changes nothing (where printing can panic or loop, that is modelled);
  failures of \<open>Write\<close> and \<open>Close\<close>, which the code ignores; the arithmetic of \<open>crypto/rsa\<close>, so which
  keys with a modulus \<open>SignPKCS1v15\<close> panics on is left to the parameter; data races on the fields that
  \<open>HandleConnection\<close> and the console touch without the mutex (each access is one step; in
  \<open>PostTransaction\<close> they are fields that no other goroutine writes); on a \<open>FakeNet\<close>, other steps between
  a \<open>Miner\<close>'s posting and its adding the transaction to its own pool; how the kernel
  schedules and delivers bytes beyond the pieces that \<open>Read\<close> gives; the tests.
\<close>

end
